(* ===== verification/Prelude.thy ===== *)
theory Prelude
  imports Main "HOL-Library.Word" "HOL-Library.Sublist" "HOL-Library.Multiset"
begin

text \<open>
  Shared vocabulary of the development: the machine integer types of the sources, the error
  values their functions return, the two result monads (\<open>res\<close> for pure fallible code,
  \<open>st\<close> for fallible code that also changes a state), Rust's integer arithmetic under both
  build profiles, and the generic list lemmas the components use.
  External code that is not part of the repository (the \<open>sha2\<close> and \<open>hex\<close> crates) and the
  build profile are fields of the record \<open>base\<close>, an argument of every definition that uses them.
\<close>

unbundle bit_operations_syntax

section \<open>Machine types\<close>

type_synonym u8 = "8 word"
type_synonym u16 = "16 word"
type_synonym u32 = "32 word"
type_synonym u64 = "64 word"
type_synonym i32 = "32 word"
type_synonym i64 = "64 word"
type_synonym bytes = "u8 list"

text \<open>
  \<open>usize\<close> values are lengths and indices of in-memory buffers; they are \<open>nat\<close>, and where
  the code adds an untrusted value the 64-bit bound is written out (\<open>add_usize\<close>).
  Signed integers are words read with \<open>sint\<close>; the casts \<open>u64 as i64\<close> and back keep the word.
\<close>

section \<open>Errors\<close>

datatype FormatError =
    InvalidMagic
  | UnsupportedVersion u16
  | Truncated
  | ObjectIdMismatch u64 u64
  | GenerationMismatch u64 u64
  | ChecksumMismatch
  | PayloadLengthMismatch

datatype ConfigError =
    Missing string
  | DeviceSizeAlignment
  | ObjectSizeAlignment
  | ObjectSizeTooSmall
  | CacheRequired

text \<open>The errors of the Telegram client library, as far as the program looks at them.\<close>

record RpcError =
  rpc_code :: int
  rpc_name :: string

datatype InvocationError =
    Rpc RpcError
  | Io
  | Dropped
  | Transport
  | Authentication
  | InvalidDc
  | Deserialize

text \<open>
  An \<open>anyhow::Error\<close> is one of the typed errors, a message, or another error with a context
  message; I/O, SQL, JSON and parse errors of the libraries are one constructor each, and a panic
  is an error value too.
\<close>

datatype err =
    Format FormatError
  | Config ConfigError
  | Anyhow string
  | IoError string
  | SqlError string
  | JsonError
  | ParseError string
  | Panic string
  | Invocation InvocationError
  | Context string err

type_synonym 'a res = "err + 'a"
type_synonym ('s, 'a) st = "'s \<Rightarrow> 'a res \<times> 's"

section \<open>Result monads\<close>

definition rbind :: "'a res \<Rightarrow> ('a \<Rightarrow> 'b res) \<Rightarrow> 'b res" where
  "rbind m f = (case m of Inl e \<Rightarrow> Inl e | Inr x \<Rightarrow> f x)"

definition ensure :: "bool \<Rightarrow> err \<Rightarrow> unit res" where
  "ensure b e = (if b then Inr () else Inl e)"

definition ok_or :: "'a option \<Rightarrow> err \<Rightarrow> 'a res" where
  "ok_or x e = (case x of None \<Rightarrow> Inl e | Some y \<Rightarrow> Inr y)"

definition ret :: "'a \<Rightarrow> ('s, 'a) st" where
  "ret x s = (Inr x, s)"

definition fail :: "err \<Rightarrow> ('s, 'a) st" where
  "fail e s = (Inl e, s)"

definition bnd :: "('s, 'a) st \<Rightarrow> ('a \<Rightarrow> ('s, 'b) st) \<Rightarrow> ('s, 'b) st" where
  "bnd m f s = (case m s of (Inl e, t) \<Rightarrow> (Inl e, t) | (Inr x, t) \<Rightarrow> f x t)"

definition lift :: "'a res \<Rightarrow> ('s, 'a) st" where
  "lift m s = (m, s)"

definition upd :: "('s \<Rightarrow> 's) \<Rightarrow> ('s, unit) st" where
  "upd f s = (Inr (), f s)"

definition gets :: "('s \<Rightarrow> 'a) \<Rightarrow> ('s, 'a) st" where
  "gets f s = (Inr (f s), s)"

section \<open>Build profile and external libraries\<close>

record base =
  overflow_checks :: bool
  sha256 :: "bytes \<Rightarrow> bytes"
  hex_encode :: "bytes \<Rightarrow> string"

text \<open>The \<open>sha2\<close> crate's digest is a \<open>[u8; 32]\<close>.\<close>

definition digest32 :: "'z base_scheme \<Rightarrow> bool" where
  "digest32 L \<longleftrightarrow> (\<forall>bs. length (sha256 L bs) = 32)"

section \<open>Rust integer arithmetic\<close>

text \<open>
  With overflow checks (the dev profile of \<open>cargo run\<close> and \<open>cargo test\<close>) an overflowing
  operation panics; without them (the release profile) it wraps around.
\<close>

definition overflow :: "'z base_scheme \<Rightarrow> string \<Rightarrow> 'a \<Rightarrow> 'a res" where
  "overflow L msg wrapped = (if overflow_checks L then Inl (Panic msg) else Inr wrapped)"

definition add_w :: "'z base_scheme \<Rightarrow> 'n::len word \<Rightarrow> 'n word \<Rightarrow> 'n word res" where
  "add_w L a b = (if unat a + unat b < 2 ^ LENGTH('n) then Inr (a + b)
                  else overflow L ''attempt to add with overflow'' (a + b))"

definition mul_w :: "'z base_scheme \<Rightarrow> 'n::len word \<Rightarrow> 'n word \<Rightarrow> 'n word res" where
  "mul_w L a b = (if unat a * unat b < 2 ^ LENGTH('n) then Inr (a * b)
                  else overflow L ''attempt to multiply with overflow'' (a * b))"

definition sub_w :: "'z base_scheme \<Rightarrow> 'n::len word \<Rightarrow> 'n word \<Rightarrow> 'n word res" where
  "sub_w L a b = (if b \<le> a then Inr (a - b)
                  else overflow L ''attempt to subtract with overflow'' (a - b))"

definition add_usize :: "'z base_scheme \<Rightarrow> nat \<Rightarrow> nat \<Rightarrow> nat res" where
  "add_usize L a b = (if a + b < 2 ^ 64 then Inr (a + b)
                      else overflow L ''attempt to add with overflow'' ((a + b) mod 2 ^ 64))"

definition add_i32 :: "'z base_scheme \<Rightarrow> i32 \<Rightarrow> i32 \<Rightarrow> i32 res" where
  "add_i32 L a b = (if sint (a + b) = sint a + sint b then Inr (a + b)
                    else overflow L ''attempt to add with overflow'' (a + b))"

definition is_multiple_of :: "'n::len word \<Rightarrow> 'n word \<Rightarrow> bool" where
  "is_multiple_of a b = (if b = 0 then a = 0 else a mod b = 0)"

definition div_ceil :: "'n::len word \<Rightarrow> 'n word \<Rightarrow> 'n word res" where
  "div_ceil a b = (if b = 0 then Inl (Panic ''attempt to divide by zero'')
                   else Inr (if a mod b = 0 then a div b else a div b + 1))"

definition checked_add :: "'n::len word \<Rightarrow> 'n word \<Rightarrow> 'n word option" where
  "checked_add a b = (if unat a + unat b < 2 ^ LENGTH('n) then Some (a + b) else None)"

definition saturating_add :: "'n::len word \<Rightarrow> 'n word \<Rightarrow> 'n word" where
  "saturating_add a b = (if unat a + unat b < 2 ^ LENGTH('n) then a + b else - 1)"

section \<open>Slices and vectors\<close>

definition slice :: "nat \<Rightarrow> nat \<Rightarrow> 'a list \<Rightarrow> 'a list" where
  "slice a b xs = take (b - a) (drop a xs)"

definition resize :: "nat \<Rightarrow> 'a \<Rightarrow> 'a list \<Rightarrow> 'a list" where
  "resize n x xs = take n xs @ replicate (n - length xs) x"

definition splice_at :: "nat \<Rightarrow> 'a list \<Rightarrow> 'a list \<Rightarrow> 'a list" where
  "splice_at a ys xs = take a xs @ ys @ drop (a + length ys) xs"

text \<open>The slice method \<open>chunks\<close>, for a positive size; the last chunk may be shorter.\<close>

function chunks :: "nat \<Rightarrow> 'a list \<Rightarrow> 'a list list" where
  "chunks n xs = (if n = 0 \<or> xs = [] then [] else take n xs # chunks n (drop n xs))"
  by pat_completeness auto
termination
  by (relation "measure (\<lambda>(n, xs). length xs)") auto

declare chunks.simps [simp del]

section \<open>Formatting\<close>

definition digit :: "nat \<Rightarrow> char" where
  "digit d = (if d < 10 then char_of (48 + d) else char_of (87 + d))"

function show_nat :: "nat \<Rightarrow> string" where
  "show_nat n = (if n < 10 then [digit n] else show_nat (n div 10) @ [digit (n mod 10)])"
  by pat_completeness auto
termination
  by (relation "measure id") auto

declare show_nat.simps [simp del]

definition show_int :: "int \<Rightarrow> string" where
  "show_int i = (if i < 0 then CHR ''-'' # show_nat (nat (- i)) else show_nat (nat i))"

text \<open>The format \<open>{:016x}\<close>: sixteen lower-case hexadecimal digits.\<close>

primrec hex_digits :: "nat \<Rightarrow> nat \<Rightarrow> string" where
  "hex_digits 0 n = []"
| "hex_digits (Suc k) n = hex_digits k (n div 16) @ [digit (n mod 16)]"

definition hex16 :: "u64 \<Rightarrow> string" where
  "hex16 w = hex_digits 16 (unat w)"

section \<open>Paths\<close>

definition path_join :: "string \<Rightarrow> string \<Rightarrow> string" where
  "path_join a b = (if b \<noteq> [] \<and> hd b = CHR ''/'' then b
                    else if a = [] \<or> last a = CHR ''/'' then a @ b
                    else a @ ''/'' @ b)"

section \<open>Rules of the monads\<close>

named_theorems monad_simps

lemma rbind_simps [simp]: "rbind (Inl e) f = Inl e" "rbind (Inr x) f = f x"
  by (simp_all add: rbind_def)

lemma rbind_Inr_iff: "rbind m f = Inr y \<longleftrightarrow> (\<exists>x. m = Inr x \<and> f x = Inr y)"
  by (cases m) auto

lemma rbind_Inl_iff: "rbind m f = Inl e \<longleftrightarrow> m = Inl e \<or> (\<exists>x. m = Inr x \<and> f x = Inl e)"
  by (cases m) auto

lemma ensure_Inr_iff [simp]: "ensure b e = Inr u \<longleftrightarrow> b"
  by (simp add: ensure_def)

lemma ensure_Inl_iff [simp]: "ensure b e = Inl e' \<longleftrightarrow> \<not> b \<and> e' = e"
  by (auto simp: ensure_def)

lemma ensure_eval [simp]: "b \<Longrightarrow> ensure b e = Inr ()" "\<not> b \<Longrightarrow> ensure b e = Inl e"
  by (simp_all add: ensure_def)

lemma ok_or_simps [simp]: "ok_or None e = Inl e" "ok_or (Some x) e = Inr x"
  by (simp_all add: ok_or_def)

lemma ok_or_Inr_iff: "ok_or x e = Inr y \<longleftrightarrow> x = Some y"
  by (cases x) auto

lemma bnd_apply: "bnd m f s = (case m s of (Inl e, t) \<Rightarrow> (Inl e, t) | (Inr x, t) \<Rightarrow> f x t)"
  by (simp add: bnd_def)

lemma bnd_ret [simp]: "bnd (ret x) f = f x"
  by (simp add: fun_eq_iff bnd_def ret_def)

lemma bnd_fail [simp]: "bnd (fail e) f = fail e"
  by (simp add: fun_eq_iff bnd_def fail_def)

lemma bnd_upd [simp]: "bnd (upd g) f s = f () (g s)"
  by (simp add: bnd_def upd_def)

lemma bnd_gets [simp]: "bnd (gets g) f s = f (g s) s"
  by (simp add: bnd_def gets_def)

lemma bnd_lift [simp]: "bnd (lift m) f s = (case m of Inl e \<Rightarrow> (Inl e, s) | Inr x \<Rightarrow> f x s)"
  by (simp add: bnd_def lift_def split: sum.split)

lemma bnd_Inr: "m s = (Inr x, t) \<Longrightarrow> bnd m f s = f x t"
  by (simp add: bnd_def)

lemma bnd_Inl: "m s = (Inl e, t) \<Longrightarrow> bnd m f s = (Inl e, t)"
  by (simp add: bnd_def)

lemma bnd_InrE:
  assumes "bnd m f s = (Inr y, t)"
  obtains x u where "m s = (Inr x, u)" and "f x u = (Inr y, t)"
  using assms by (auto simp: bnd_def split: prod.splits sum.splits)

lemma bnd_InlE:
  assumes "bnd m f s = (Inl e, t)"
  obtains "m s = (Inl e, t)" | x u where "m s = (Inr x, u)" and "f x u = (Inl e, t)"
  using assms by (auto simp: bnd_def split: prod.splits sum.splits)

lemma ret_apply [simp]: "ret x s = (Inr x, s)"
  by (simp add: ret_def)

lemma fail_apply [simp]: "fail e s = (Inl e, s)"
  by (simp add: fail_def)

lemma lift_apply [simp]: "lift m s = (m, s)"
  by (simp add: lift_def)

lemma upd_apply [simp]: "upd f s = (Inr (), f s)"
  by (simp add: upd_def)

lemma gets_apply [simp]: "gets f s = (Inr (f s), s)"
  by (simp add: gets_def)

section \<open>Arithmetic rules\<close>

lemma add_w_Inr: "unat a + unat b < 2 ^ LENGTH('n) \<Longrightarrow> add_w L a (b :: 'n::len word) = Inr (a + b)"
  by (simp add: add_w_def)

lemma add_w_exact:
  "add_w L a (b :: 'n::len word) = Inr c \<Longrightarrow> unat a + unat b < 2 ^ LENGTH('n) \<Longrightarrow> unat c = unat a + unat b"
  by (auto simp: add_w_def unat_word_ariths)

lemma add_usize_Inr: "a + b < 2 ^ 64 \<Longrightarrow> add_usize L a b = Inr (a + b)"
  by (simp add: add_usize_def)

lemma is_multiple_of_unat:
  "b \<noteq> 0 \<Longrightarrow> is_multiple_of a (b :: 'n::len word) \<longleftrightarrow> unat b dvd unat a"
  by (simp add: is_multiple_of_def dvd_eq_mod_eq_0 word_unat_eq_iff unat_mod_distrib)

lemma checked_add_Some_iff:
  "checked_add a (b :: 'n::len word) = Some c \<longleftrightarrow> unat c = unat a + unat b"
proof
  assume "checked_add a b = Some c"
  then show "unat c = unat a + unat b"
    by (auto simp: checked_add_def unat_word_ariths split: if_splits)
next
  assume h: "unat c = unat a + unat b"
  then have "unat a + unat b < 2 ^ LENGTH('n)"
    using unsigned_less [of c, where ?'a = nat] by simp
  moreover from this h have "a + b = c"
    by (simp add: word_unat_eq_iff unat_word_ariths)
  ultimately show "checked_add a b = Some c"
    by (simp add: checked_add_def)
qed

lemma unat_ucast_u32 [simp]: "unat (ucast (w :: u32) :: u64) = unat w"
proof -
  have "unat w < 2 ^ 32" using unsigned_less [of w, where ?'a = nat] by simp
  then show ?thesis by (simp add: unsigned_ucast_eq take_bit_nat_eq_self)
qed

section \<open>List lemmas\<close>

lemma length_slice [simp]: "length (slice a b xs) = min (b - a) (length xs - a)"
  by (simp add: slice_def)

lemma slice_append_left: "b \<le> length xs \<Longrightarrow> slice a b (xs @ ys) = slice a b xs"
  by (cases "a \<le> b") (auto simp: slice_def)

lemma slice_append_right:
  "length xs \<le> a \<Longrightarrow> slice a b (xs @ ys) = slice (a - length xs) (b - length xs) ys"
  by (simp add: slice_def)

lemma slice_drop: "k \<le> a \<Longrightarrow> slice (a - k) (b - k) (drop k xs) = slice a b xs"
  by (simp add: slice_def)

lemma slice_all: "b = length xs \<Longrightarrow> slice 0 b xs = xs"
  by (simp add: slice_def)

lemma slice_append_split:
  "a \<le> b \<Longrightarrow> b \<le> c \<Longrightarrow> slice a b xs @ slice b c xs = slice a c xs"
proof -
  assume h: "a \<le> b" "b \<le> c"
  have "take (b - a + (c - b)) (drop a xs) = take (b - a) (drop a xs) @ take (c - b) (drop (b - a) (drop a xs))"
    by (rule take_add)
  with h show ?thesis by (simp add: slice_def)
qed

lemma length_resize [simp]: "length (resize n x xs) = n"
  by (simp add: resize_def)

lemma resize_id [simp]: "length xs = n \<Longrightarrow> resize n x xs = xs"
  by (simp add: resize_def)

lemma length_splice_at [simp]:
  "a + length ys \<le> length xs \<Longrightarrow> length (splice_at a ys xs) = length xs"
  by (simp add: splice_at_def)

lemma chunks_Nil [simp]: "chunks n [] = []"
  by (simp add: chunks.simps)

lemma chunks_unfold: "0 < n \<Longrightarrow> xs \<noteq> [] \<Longrightarrow> chunks n xs = take n xs # chunks n (drop n xs)"
  by (simp add: chunks.simps [of n xs])

lemma concat_chunks: "0 < n \<Longrightarrow> concat (chunks n xs) = xs"
proof (induction n xs rule: chunks.induct)
  case (1 n xs)
  then show ?case by (cases "xs = []") (simp_all add: chunks.simps [of n xs])
qed

lemma chunks_nonempty: "ys \<in> set (chunks n xs) \<Longrightarrow> ys \<noteq> []"
proof (induction n xs rule: chunks.induct)
  case (1 n xs)
  then show ?case by (auto simp: chunks.simps [of n xs] split: if_splits)
qed

lemma chunks_length: "ys \<in> set (chunks n xs) \<Longrightarrow> length ys \<le> n"
proof (induction n xs rule: chunks.induct)
  case (1 n xs)
  then show ?case by (auto simp: chunks.simps [of n xs] split: if_splits)
qed

lemma drop_eq_slice_append: "a \<le> b \<Longrightarrow> drop a xs = slice a b xs @ drop b xs"
  by (metis append_take_drop_id drop_drop le_add_diff_inverse2 slice_def)

lemma unat_of_nat_len: "n < 2 ^ 64 \<Longrightarrow> unat (of_nat n :: u64) = n"
  by (simp add: unat_of_nat)

lemma map_of_nat_upt_distinct: "n \<le> 2 ^ 64 \<Longrightarrow> distinct (map (of_nat :: nat \<Rightarrow> u64) [0..<n])"
proof -
  assume n: "n \<le> 2 ^ 64"
  have "inj_on (of_nat :: nat \<Rightarrow> u64) {0..<n}"
  proof (rule inj_onI)
    fix x y assume "x \<in> {0..<n}" "y \<in> {0..<n}" and eq: "(of_nat x :: u64) = of_nat y"
    with n have "x < 2 ^ 64" "y < 2 ^ 64" by simp_all
    with eq show "x = y" by (metis unat_of_nat_len)
  qed
  then show ?thesis by (simp add: distinct_map)
qed

lemma sorted_map_of_nat: "n \<le> 2 ^ 64 \<Longrightarrow> sorted (map (of_nat :: nat \<Rightarrow> u64) [0..<n])"
  by (auto simp: sorted_iff_nth_mono word_le_nat_alt unat_of_nat)

lemma length_chunks_le: "length (chunks n xs) \<le> length xs"
proof (induction n xs rule: chunks.induct)
  case (1 n xs)
  show ?case
  proof (cases "n = 0 \<or> xs = []")
    case True
    then show ?thesis by (simp add: chunks.simps [of n xs])
  next
    case False
    with 1 have "length (chunks n (drop n xs)) \<le> length xs - n" by simp
    with False show ?thesis by (simp add: chunks.simps [of n xs]) 
       (metis One_nat_def Suc_le_eq diff_less dual_order.strict_trans2 length_greater_0_conv neq0_conv)
  qed
qed

lemma mset_concat_map_cong:
  assumes "mset xs = mset ys"
  shows "mset (concat (map f xs)) = mset (concat (map f ys))"
proof -
  have "mset (concat (map f zs)) = sum_mset (image_mset (\<lambda>z. mset (f z)) (mset zs))" for zs
    by (induction zs) simp_all
  with assms show ?thesis by simp
qed

lemma digit_inj: "a < 16 \<Longrightarrow> b < 16 \<Longrightarrow> digit a = digit b \<longleftrightarrow> a = b"
proof -
  assume "a < 16" "b < 16"
  then have "inj_on digit {..<16}"
    by (intro inj_onI) (auto simp: digit_def char_of_eq_iff of_char_of take_bit_eq_mod split: if_splits)
  then show ?thesis using \<open>a < 16\<close> \<open>b < 16\<close> by (auto dest: inj_onD)
qed

lemma length_hex_digits [simp]: "length (hex_digits k n) = k"
  by (induction k arbitrary: n) simp_all

lemma hex_digits_inj:
  "a < 16 ^ k \<Longrightarrow> b < 16 ^ k \<Longrightarrow> hex_digits k a = hex_digits k b \<longleftrightarrow> a = b"
proof (induction k arbitrary: a b)
  case 0
  then show ?case by simp
next
  case (Suc k)
  have "a div 16 < 16 ^ k" "b div 16 < 16 ^ k"
    using Suc.prems by (auto simp: less_mult_imp_div_less mult.commute)
  then have "hex_digits (Suc k) a = hex_digits (Suc k) b \<longleftrightarrow> a div 16 = b div 16 \<and> a mod 16 = b mod 16"
    by (simp add: Suc.IH digit_inj)
  also have "\<dots> \<longleftrightarrow> a = b" by (metis div_mult_mod_eq)
  finally show ?case .
qed

lemma length_hex16 [simp]: "length (hex16 w) = 16"
  by (simp add: hex16_def)

lemma hex16_inj: "hex16 a = hex16 b \<longleftrightarrow> a = b"
proof -
  have "unat a < 16 ^ 16" "unat b < 16 ^ 16"
    using unsigned_less [of a, where ?'a = nat] unsigned_less [of b, where ?'a = nat] by simp_all
  then show ?thesis by (simp add: hex16_def hex_digits_inj word_unat_eq_iff)
qed

lemma path_join_inj:
  "b \<noteq> [] \<Longrightarrow> hd b \<noteq> CHR ''/'' \<Longrightarrow> c \<noteq> [] \<Longrightarrow> hd c \<noteq> CHR ''/'' \<Longrightarrow> path_join a b = path_join a c \<longleftrightarrow> b = c"
  by (simp add: path_join_def)

lemma digit_not_slash: "d < 16 \<Longrightarrow> digit d \<noteq> CHR ''/''"
  by (auto simp: digit_def char_of_eq_iff of_char_def take_bit_eq_mod)

lemma hex_digits_hd: "hd (hex_digits (Suc k) n) \<noteq> CHR ''/''"
proof (induction k arbitrary: n)
  case (Suc k)
  have "hd (hex_digits (Suc (Suc k)) n) = hd (hex_digits (Suc k) (n div 16))"
    by (subst hex_digits.simps(2)) (simp add: hd_append)
  with Suc show ?case by metis
qed (simp add: digit_not_slash)

text \<open>Merging an interval into a family of separated intervals.\<close>

lemma merge_touched:
  fixes st en :: "'r \<Rightarrow> int"
  assumes fin: "finite S" and T: "T = {r \<in> S. st r \<le> hi \<and> lo \<le> en r}" and ne: "T \<noteq> {}"
    and wf: "\<forall>r\<in>S. st r \<le> en r" and le: "lo \<le> hi"
    and sep: "\<forall>r\<in>S. \<forall>q\<in>S. r \<noteq> q \<longrightarrow> \<not> (st r \<le> en q \<and> st q \<le> en r)"
  defines "lo' \<equiv> min lo (Min (st ` T))" and "hi' \<equiv> max hi (Max (en ` T))"
  shows "{r \<in> S. st r \<le> hi' \<and> lo' \<le> en r} = T"
    and "{lo'..<hi'} = {lo..<hi} \<union> (\<Union>r\<in>T. {st r..<en r})"
    and "lo' \<le> hi'"
proof -
  have finT: "finite T" using fin T by simp
  have "Min (st ` T) \<in> st ` T" and "Max (en ` T) \<in> en ` T"
    using finT ne by (auto intro: Min_in Max_in)
  then obtain p q where p: "p \<in> T" "Min (st ` T) = st p" and q: "q \<in> T" "Max (en ` T) = en q" by blast
  have bnds: "lo' \<le> st r" "en r \<le> hi'" if "r \<in> T" for r
    using that finT by (auto simp: lo'_def hi'_def min.coboundedI2 max.coboundedI2)
  have ll: "lo' \<le> lo" "hi \<le> hi'" by (simp_all add: lo'_def hi'_def)
  show "lo' \<le> hi'" using ll le by simp
  show "{r \<in> S. st r \<le> hi' \<and> lo' \<le> en r} = T"
  proof (intro equalityI subsetI)
    fix r assume r: "r \<in> {r \<in> S. st r \<le> hi' \<and> lo' \<le> en r}"
    show "r \<in> T"
    proof (rule ccontr)
      assume nT: "r \<notin> T"
      have ne: "r \<noteq> p" "r \<noteq> q" using nT p q by auto
      have S: "p \<in> S" "q \<in> S" "r \<in> S" "lo \<le> en p" "st q \<le> hi" "st r \<le> en r" using p q r T wf by auto
      from nT r T consider "hi < st r" | "en r < lo" by auto
      then show False
      proof cases
        case 1
        with r have "st r \<le> en q" by (simp add: hi'_def q(2) max_def split: if_splits)
        moreover have "st q \<le> en r" using 1 S by simp
        ultimately show False using sep S ne by blast
      next
        case 2
        with r have "st p \<le> en r" by (simp add: lo'_def p(2) min_def split: if_splits)
        moreover have "st r \<le> en p" using 2 S by simp
        ultimately show False using sep S ne by blast
      qed
    qed
  next
    fix r assume "r \<in> T"
    then show "r \<in> {r \<in> S. st r \<le> hi' \<and> lo' \<le> en r}" using T ll by auto
  qed
  have pq: "lo \<le> en p" "st q \<le> hi" using p q T by auto
  show "{lo'..<hi'} = {lo..<hi} \<union> (\<Union>r\<in>T. {st r..<en r})"
  proof (intro equalityI subsetI)
    fix x assume x: "x \<in> {lo'..<hi'}"
    then consider "lo \<le> x" "x < hi" | "x < lo" "x \<in> {st p..<en p}" | "hi \<le> x" "x \<in> {st q..<en q}"
      using pq le unfolding lo'_def hi'_def p(2) q(2) by fastforce
    then show "x \<in> {lo..<hi} \<union> (\<Union>r\<in>T. {st r..<en r})" using p q by cases auto
  next
    fix x assume "x \<in> {lo..<hi} \<union> (\<Union>r\<in>T. {st r..<en r})"
    then show "x \<in> {lo'..<hi'}" using ll bnds by fastforce
  qed
qed

lemma sint_small: "unat w < 2 ^ 62 \<Longrightarrow> sint (w :: u64) = int (unat w)"
proof -
  assume "unat w < 2 ^ 62"
  then have "int (unat w) < int (2 ^ 62)" by (simp only: of_nat_less_iff)
  then have "uint w < 2 ^ 62" by simp
  then have "signed_take_bit (LENGTH(64) - Suc 0) (uint w) = uint w"
    by (intro signed_take_bit_int_eq_self) (auto intro: order_trans [of _ 0])
  then have "sint w = uint w" by (metis sint_uint)
  then show ?thesis by simp
qed

lemma sint_word_of_int: "0 \<le> k \<Longrightarrow> k < 2 ^ 62 \<Longrightarrow> sint (word_of_int k :: u64) = k"
  by (simp add: signed_of_int signed_take_bit_int_eq_self)

lemma unat_word_of_int: "0 \<le> k \<Longrightarrow> k < 2 ^ 62 \<Longrightarrow> unat (word_of_int k :: u64) = nat k"
  by (simp add: unsigned_of_int take_bit_int_eq_self)

lemma le_iff_sint: "unat x < 2 ^ 62 \<Longrightarrow> unat y < 2 ^ 62 \<Longrightarrow> x \<le> y \<longleftrightarrow> sint x \<le> sint (y :: u64)"
  by (simp only: sint_small word_le_nat_alt of_nat_le_iff)

lemma min_max_word_of_int:
  assumes x: "unat x < 2 ^ 62" and k: "0 \<le> k" "k < 2 ^ 62"
  shows "sint (min x (word_of_int k :: u64)) = min (sint x) k"
    and "sint (max x (word_of_int k :: u64)) = max (sint x) k"
    and "unat (max x (word_of_int k :: u64)) < 2 ^ 62"
    and "unat (min x (word_of_int k :: u64)) < 2 ^ 62"
proof -
  have w: "unat (word_of_int k :: u64) < 2 ^ 62" "sint (word_of_int k :: u64) = k"
    using k by (simp_all add: unat_word_of_int sint_word_of_int nat_less_iff)
  show "sint (min x (word_of_int k :: u64)) = min (sint x) k"
    "sint (max x (word_of_int k :: u64)) = max (sint x) k"
    unfolding min_def max_def le_iff_sint [OF x w(1)] w(2) by (simp_all add: w(2))
  show "unat (max x (word_of_int k :: u64)) < 2 ^ 62" "unat (min x (word_of_int k :: u64)) < 2 ^ 62"
    unfolding min_def max_def using x w(1) by simp_all
qed

lemma filter_eq_mem: "filter P xs = filter Q xs \<Longrightarrow> x \<in> set xs \<Longrightarrow> P x \<longleftrightarrow> Q x"
proof -
  assume "filter P xs = filter Q xs" and x: "x \<in> set xs"
  then have "x \<in> set (filter P xs) \<longleftrightarrow> x \<in> set (filter Q xs)" by simp
  with x show ?thesis by simp
qed

lemma find_upsert:
  "find (\<lambda>x. key x = k) (filter (\<lambda>x. key x \<noteq> key y) xs @ [y]) =
     (if k = key y then Some y else find (\<lambda>x. key x = k) xs)"
  by (induction xs) auto

lemma find_distinct_key:
  "distinct (map key xs) \<Longrightarrow> find (\<lambda>x. key x = k) xs = Some x \<longleftrightarrow> x \<in> set xs \<and> key x = k"
  by (induction xs) (auto simp: image_iff)

lemma length_filter_not_mem:
  assumes "distinct xs" "set ys \<subseteq> set xs" "distinct ys"
  shows "length (filter (\<lambda>x. x \<notin> set ys) xs) = length xs - length ys"
proof -
  have "length (filter (\<lambda>x. x \<notin> set ys) xs) = card (set (filter (\<lambda>x. x \<notin> set ys) xs))"
    using assms(1) by (simp only: distinct_card distinct_filter)
  also have "\<dots> = card (set xs - set ys)" by (rule arg_cong [where f = card]) auto
  also have "\<dots> = card (set xs) - card (set ys)" using assms(2) by (simp only: card_Diff_subset finite_set)
  finally show ?thesis using assms(1,3) by (simp only: distinct_card)
qed

lemma sorted_take_drop_le:
  assumes "sorted (map f xs)" "x \<in> set (take n xs)" "y \<in> set (drop n xs)"
  shows "f x \<le> f y"
proof -
  have "sorted (map f (take n xs @ drop n xs))" using assms(1) by simp
  then show ?thesis using assms(2,3) unfolding map_append sorted_append set_map by blast
qed

end
