(* ===== verification/Bytes.thy ===== *)
theory Bytes
  imports Prelude
begin

text \<open>
  Big-endian integers (\<open>to_be_bytes\<close>, \<open>from_be_bytes\<close>, and the stream methods
  \<open>write_u16\<close>, \<open>read_u16\<close>, ... that use the same layout), and the locale \<open>field_codec\<close>,
  the contract of a fixed-width field: what the object envelope and the NBD messages rely on
  when they cut a buffer at fixed offsets.
\<close>

section \<open>Big-endian words\<close>

primrec to_be :: "nat \<Rightarrow> 'a::len word \<Rightarrow> bytes" where
  "to_be 0 w = []"
| "to_be (Suc k) w = to_be k (drop_bit 8 w) @ [ucast w]"

definition from_be :: "bytes \<Rightarrow> 'a::len word" where
  "from_be bs = foldl (\<lambda>acc b. push_bit 8 acc OR ucast b) 0 bs"

definition be16 :: "u16 \<Rightarrow> bytes" where "be16 w = to_be 2 w"
definition be32 :: "u32 \<Rightarrow> bytes" where "be32 w = to_be 4 w"
definition be64 :: "u64 \<Rightarrow> bytes" where "be64 w = to_be 8 w"

definition un16 :: "bytes \<Rightarrow> u16" where "un16 bs = from_be bs"
definition un32 :: "bytes \<Rightarrow> u32" where "un32 bs = from_be bs"
definition un64 :: "bytes \<Rightarrow> u64" where "un64 bs = from_be bs"

section \<open>The contract of a fixed-width field\<close>

locale field_codec =
  fixes enc :: "'a \<Rightarrow> bytes" and dec :: "bytes \<Rightarrow> 'a" and width :: nat
  assumes length_enc: "length (enc x) = width"
    and dec_enc: "dec (enc x) = x"
    and enc_dec: "length bs = width \<Longrightarrow> enc (dec bs) = bs"
begin

lemma slice_field:
  assumes "length pre = a" and "b = a + width"
  shows "dec (slice a b (pre @ enc x @ post)) = x"
  using assms by (simp add: slice_def length_enc dec_enc)

lemma enc_inj: "enc x = enc y \<longleftrightarrow> x = y"
  by (metis dec_enc)

lemma enc_eq_append_iff:
  "enc x @ xs = enc y @ ys \<longleftrightarrow> x = y \<and> xs = ys"
  by (metis append_eq_append_conv enc_inj length_enc)

lemma dec_surj: "length bs = width \<Longrightarrow> \<exists>x. bs = enc x"
  by (metis enc_dec)

end

section \<open>The integer fields satisfy it\<close>

lemma length_to_be [simp]: "length (to_be k w) = k"
  by (induction k arbitrary: w) simp_all

lemma from_be_snoc: "from_be (bs @ [b]) = push_bit 8 (from_be bs) OR ucast b"
  by (simp add: from_be_def)

lemma from_be_to_be_take: "from_be (to_be k w) = take_bit (8 * k) (w :: 'a::len word)"
proof (induction k arbitrary: w)
  case 0
  show ?case by (simp add: from_be_def)
next
  case (Suc k)
  show ?case
    by (rule bit_word_eqI) (auto simp: from_be_snoc Suc bit_simps)
qed

lemma from_be_to_be: "LENGTH('a) = 8 * k \<Longrightarrow> from_be (to_be k w) = (w :: 'a::len word)"
  by (rule bit_word_eqI) (simp add: from_be_to_be_take bit_simps)

lemma bit_from_be_bound: "bit (from_be bs :: 'a::len word) n \<Longrightarrow> n < 8 * length bs"
proof (induction bs arbitrary: n rule: rev_induct)
  case Nil
  then show ?case by (simp add: from_be_def)
next
  case (snoc b bs)
  have "bit (from_be bs :: 'a word) (n - 8) \<or> bit b n"
    using snoc.prems by (auto simp: from_be_snoc bit_simps)
  then show ?case using snoc.IH [of "n - 8"] bit_imp_le_length [of b n] by auto
qed

lemma to_be_from_be:
  "8 * length bs \<le> LENGTH('a) \<Longrightarrow> to_be (length bs) (from_be bs :: 'a::len word) = bs"
proof (induction bs rule: rev_induct)
  case Nil
  then show ?case by simp
next
  case (snoc b bs)
  have "drop_bit 8 (from_be (bs @ [b])) = (from_be bs :: 'a word)"
    using snoc.prems
    by (intro bit_word_eqI)
      (auto simp: from_be_snoc bit_simps dest: bit_imp_le_length bit_from_be_bound)
  moreover have "ucast (from_be (bs @ [b]) :: 'a word) = b"
    using snoc.prems by (intro bit_word_eqI) (auto simp: from_be_snoc bit_simps)
  ultimately show ?case using snoc by simp
qed

interpretation u16_field: field_codec be16 un16 2
proof
  show "length (be16 x) = 2" for x by (simp add: be16_def)
  show "un16 (be16 x) = x" for x by (simp add: be16_def un16_def from_be_to_be)
  show "length bs = 2 \<Longrightarrow> be16 (un16 bs) = bs" for bs
    using to_be_from_be [of bs, where ?'a = 16] by (simp add: be16_def un16_def)
qed

interpretation u32_field: field_codec be32 un32 4
proof
  show "length (be32 x) = 4" for x by (simp add: be32_def)
  show "un32 (be32 x) = x" for x by (simp add: be32_def un32_def from_be_to_be)
  show "length bs = 4 \<Longrightarrow> be32 (un32 bs) = bs" for bs
    using to_be_from_be [of bs, where ?'a = 32] by (simp add: be32_def un32_def)
qed

interpretation u64_field: field_codec be64 un64 8
proof
  show "length (be64 x) = 8" for x by (simp add: be64_def)
  show "un64 (be64 x) = x" for x by (simp add: be64_def un64_def from_be_to_be)
  show "length bs = 8 \<Longrightarrow> be64 (un64 bs) = bs" for bs
    using to_be_from_be [of bs, where ?'a = 64] by (simp add: be64_def un64_def)
qed

lemmas field_lengths [simp] = u16_field.length_enc u32_field.length_enc u64_field.length_enc
lemmas field_decodes [simp] = u16_field.dec_enc u32_field.dec_enc u64_field.dec_enc

end
