(* ===== verification/Format.thy ===== *)
theory Format
  imports Bytes "HOL-Library.Countable"
begin

text \<open>
  The remote format (\<open>crates/tgdrive-core/src/format.rs\<close>): the object envelope with its strict
  decoder, the superblock, the manifest, and the manifest tree that splits a large manifest into
  leaves. Lemmas: the envelope round trip and the exact set of buffers the decoder accepts, every
  error branch, and the tree round trip for leaves that arrive in any order.
  \<open>serde_json\<close> and the clock are fields of the record \<open>libs\<close>.
\<close>

section \<open>Remote references\<close>

record RemoteObjectRef =
  ref_chat_id :: i64
  ref_message_id :: i32
  ref_object_id :: u64
  ref_generation :: u64
  ref_sha256 :: string

section \<open>Constants\<close>

definition ascii :: "string \<Rightarrow> bytes" where
  "ascii cs = map of_char cs"

definition TGDRIVE_MAGIC :: bytes where
  "TGDRIVE_MAGIC = ascii ''TGDRV001''"

definition MANIFEST_OBJECT_ID :: u64 where
  "MANIFEST_OBJECT_ID = (- 1) - 1"

definition MANIFEST_TREE_LEAF_BASE_OBJECT_ID :: u64 where
  "MANIFEST_TREE_LEAF_BASE_OBJECT_ID = (- 1) - 1000000"

definition MANIFEST_TREE_LEAF_SPAN :: nat where
  "MANIFEST_TREE_LEAF_SPAN = 4096"

definition OBJECT_HEADER_LEN :: nat where
  "OBJECT_HEADER_LEN = 8 + 2 + 2 + 8 + 8 + 8 + 4 + 32 + 4"

definition ENVELOPE_VERSION :: u16 where
  "ENVELOPE_VERSION = 1"

section \<open>Hashes\<close>

definition sha256_bytes :: "'z base_scheme \<Rightarrow> bytes \<Rightarrow> bytes" where
  "sha256_bytes L bs = sha256 L bs"

definition sha256_hex :: "'z base_scheme \<Rightarrow> bytes \<Rightarrow> string" where
  "sha256_hex L bs = hex_encode L (sha256_bytes L bs)"

section \<open>Object envelopes\<close>

record ObjectEnvelope =
  env_object_id :: u64
  env_generation :: u64
  env_object_size :: u32
  env_flags :: u32
  env_payload :: bytes

definition encode :: "'z base_scheme \<Rightarrow> ObjectEnvelope \<Rightarrow> bytes" where
  "encode L e =
     TGDRIVE_MAGIC
     @ be16 ENVELOPE_VERSION
     @ be16 0
     @ be64 (env_object_id e)
     @ be64 (env_generation e)
     @ be64 (of_nat (length (env_payload e)))
     @ be32 (env_object_size e)
     @ sha256_bytes L (env_payload e)
     @ be32 (env_flags e)
     @ env_payload e"

definition decode :: "'z base_scheme \<Rightarrow> bytes \<Rightarrow> u64 \<Rightarrow> u64 \<Rightarrow> ObjectEnvelope res" where
  "decode L bs expected_object_id expected_generation =
     (if length bs < OBJECT_HEADER_LEN then Inl (Format Truncated)
      else if slice 0 8 bs \<noteq> TGDRIVE_MAGIC then Inl (Format InvalidMagic)
      else
        let version = un16 (slice 8 10 bs) in
        if version \<noteq> ENVELOPE_VERSION then Inl (Format (UnsupportedVersion version))
        else
          let object_id = un64 (slice 12 20 bs) in
          if object_id \<noteq> expected_object_id
          then Inl (Format (ObjectIdMismatch expected_object_id object_id))
          else
            let generation = un64 (slice 20 28 bs) in
            if generation \<noteq> expected_generation
            then Inl (Format (GenerationMismatch expected_generation generation))
            else
              let payload_len = unat (un64 (slice 28 36 bs));
                  object_size = un32 (slice 36 40 bs);
                  checksum = slice 40 72 bs;
                  flags = un32 (slice 72 76 bs) in
              rbind (add_usize L OBJECT_HEADER_LEN payload_len) (\<lambda>total.
                if length bs \<noteq> total then Inl (Format PayloadLengthMismatch)
                else
                  let payload = drop OBJECT_HEADER_LEN bs in
                  if sha256_bytes L payload \<noteq> checksum then Inl (Format ChecksumMismatch)
                  else Inr \<lparr>env_object_id = object_id, env_generation = generation,
                            env_object_size = object_size, env_flags = flags,
                            env_payload = payload\<rparr>))"

definition envelope_sha256_hex :: "'z base_scheme \<Rightarrow> ObjectEnvelope \<Rightarrow> string" where
  "envelope_sha256_hex L e = hex_encode L (sha256_bytes L (encode L e))"

section \<open>Superblock and manifest data\<close>

datatype ManifestEncoding = FlatJson | Tree

record Superblock =
  sb_magic :: string
  sb_format_version :: u16
  sb_device_uuid :: "128 word"
  sb_device_size :: u64
  sb_logical_sector_size :: u32
  sb_object_size :: u32
  sb_current_manifest_message_id :: i32
  sb_manifest_generation :: u64
  sb_manifest_hash :: string
  sb_previous_manifest_message_id :: "i32 option"
  sb_previous_manifest_hash :: "string option"
  sb_previous_manifest_generation :: "u64 option"
  sb_manifest_encoding :: ManifestEncoding
  sb_root_index_message_id :: "i32 option"
  sb_created_at :: int
  sb_last_commit_at :: int

record ManifestObject =
  mo_object_id :: u64
  mo_generation :: u64
  mo_remote :: "RemoteObjectRef option"
  mo_sha256 :: "string option"
  mo_zero :: bool

record Manifest =
  m_magic :: string
  m_format_version :: u16
  m_device_uuid :: "128 word"
  m_generation :: u64
  m_object_size :: u32
  m_object_count :: u64
  m_objects :: "ManifestObject list"
  m_garbage :: "RemoteObjectRef list"

record ManifestTreeLeafRef =
  lr_leaf_index :: u64
  lr_start_object_id :: u64
  lr_object_count :: u64
  lr_remote :: RemoteObjectRef

record ManifestTreeRoot =
  tr_magic :: string
  tr_format_version :: u16
  tr_device_uuid :: "128 word"
  tr_generation :: u64
  tr_object_size :: u32
  tr_object_count :: u64
  tr_leaf_span :: nat
  tr_leaves :: "ManifestTreeLeafRef list"
  tr_garbage :: "RemoteObjectRef list"

record ManifestTreeLeaf =
  tl_magic :: string
  tl_format_version :: u16
  tl_device_uuid :: "128 word"
  tl_generation :: u64
  tl_leaf_index :: u64
  tl_start_object_id :: u64
  tl_objects :: "ManifestObject list"

text \<open>
  \<open>serde_json\<close> for the four serialised types, and the clock: \<open>now_utc L n\<close> is the
  \<open>n\<close>-th reading, \<open>show_time\<close> its \<open>Display\<close>, \<open>elapsed_ms L n\<close> a measured duration.
\<close>

record libs = base +
  json_manifest :: "Manifest \<Rightarrow> bytes res"
  unjson_manifest :: "bytes \<Rightarrow> Manifest res"
  json_root :: "ManifestTreeRoot \<Rightarrow> bytes res"
  unjson_root :: "bytes \<Rightarrow> ManifestTreeRoot res"
  json_leaf :: "ManifestTreeLeaf \<Rightarrow> bytes res"
  unjson_leaf :: "bytes \<Rightarrow> ManifestTreeLeaf res"
  json_superblock :: "Superblock \<Rightarrow> string res"
  unjson_superblock :: "string \<Rightarrow> Superblock res"
  now_utc :: "nat \<Rightarrow> int"
  show_time :: "int \<Rightarrow> string"
  elapsed_ms :: "nat \<Rightarrow> u64"

text \<open>What the program relies on of \<open>serde_json\<close>: serialising succeeds and is read back.\<close>

definition json_writes :: "libs \<Rightarrow> bool" where
  "json_writes L \<longleftrightarrow> (\<forall>m. \<exists>bs. json_manifest L m = Inr bs)"

definition json_round_trips :: "libs \<Rightarrow> bool" where
  "json_round_trips L \<longleftrightarrow>
     (\<forall>m. \<exists>bs. json_manifest L m = Inr bs \<and> unjson_manifest L bs = Inr m) \<and>
     (\<forall>r. \<exists>bs. json_root L r = Inr bs \<and> unjson_root L bs = Inr r) \<and>
     (\<forall>l. \<exists>bs. json_leaf L l = Inr bs \<and> unjson_leaf L bs = Inr l) \<and>
     (\<forall>s. \<exists>t. json_superblock L s = Inr t \<and> unjson_superblock L t = Inr s)"

section \<open>Superblock operations\<close>

text \<open>\<open>Uuid::new_v4\<close> and the clock reading are arguments.\<close>

definition superblock_new ::
  "128 word \<Rightarrow> int \<Rightarrow> u64 \<Rightarrow> u32 \<Rightarrow> u32 \<Rightarrow> RemoteObjectRef \<Rightarrow> Superblock" where
  "superblock_new uuid now device_size logical_sector_size object_size manifest_ref =
     \<lparr>sb_magic = ''TGDRIVE_SUPERBLOCK'', sb_format_version = 1, sb_device_uuid = uuid,
      sb_device_size = device_size, sb_logical_sector_size = logical_sector_size,
      sb_object_size = object_size,
      sb_current_manifest_message_id = ref_message_id manifest_ref,
      sb_manifest_generation = ref_generation manifest_ref,
      sb_manifest_hash = ref_sha256 manifest_ref,
      sb_previous_manifest_message_id = None, sb_previous_manifest_hash = None,
      sb_previous_manifest_generation = None,
      sb_manifest_encoding = FlatJson, sb_root_index_message_id = None,
      sb_created_at = now, sb_last_commit_at = now\<rparr>"

definition for_manifest ::
  "int \<Rightarrow> 128 word \<Rightarrow> u64 \<Rightarrow> u32 \<Rightarrow> u32 \<Rightarrow> RemoteObjectRef \<Rightarrow> Superblock option \<Rightarrow> Superblock" where
  "for_manifest now uuid device_size logical_sector_size object_size manifest_ref previous =
     \<lparr>sb_magic = ''TGDRIVE_SUPERBLOCK'', sb_format_version = 1, sb_device_uuid = uuid,
      sb_device_size = device_size, sb_logical_sector_size = logical_sector_size,
      sb_object_size = object_size,
      sb_current_manifest_message_id = ref_message_id manifest_ref,
      sb_manifest_generation = ref_generation manifest_ref,
      sb_manifest_hash = ref_sha256 manifest_ref,
      sb_previous_manifest_message_id = map_option sb_current_manifest_message_id previous,
      sb_previous_manifest_hash = map_option sb_manifest_hash previous,
      sb_previous_manifest_generation = map_option sb_manifest_generation previous,
      sb_manifest_encoding = FlatJson, sb_root_index_message_id = None,
      sb_created_at = (case previous of None \<Rightarrow> now | Some s \<Rightarrow> sb_created_at s),
      sb_last_commit_at = now\<rparr>"

definition for_tree_manifest ::
  "int \<Rightarrow> 128 word \<Rightarrow> u64 \<Rightarrow> u32 \<Rightarrow> u32 \<Rightarrow> RemoteObjectRef \<Rightarrow> Superblock option \<Rightarrow> Superblock" where
  "for_tree_manifest now uuid device_size logical_sector_size object_size root_ref previous =
     (for_manifest now uuid device_size logical_sector_size object_size root_ref previous)
       \<lparr>sb_manifest_encoding := Tree, sb_root_index_message_id := Some (ref_message_id root_ref)\<rparr>"

definition SUPERBLOCK_PREFIX :: string where
  "SUPERBLOCK_PREFIX = ''TGDRIVE_SUPERBLOCK_V1'' @ [CHR 0x0A]"

definition encode_text :: "libs \<Rightarrow> Superblock \<Rightarrow> string res" where
  "encode_text L s = rbind (json_superblock L s) (\<lambda>j. Inr (SUPERBLOCK_PREFIX @ j))"

definition strip_prefix :: "string \<Rightarrow> string \<Rightarrow> string option" where
  "strip_prefix p s = (if prefix p s then Some (drop (length p) s) else None)"

definition decode_text :: "libs \<Rightarrow> string \<Rightarrow> Superblock res" where
  "decode_text L t =
     rbind (ok_or (strip_prefix SUPERBLOCK_PREFIX t) (Anyhow ''missing superblock prefix''))
       (\<lambda>json. unjson_superblock L json)"

section \<open>Manifest operations\<close>

definition zero_object :: "u64 \<Rightarrow> ManifestObject" where
  "zero_object i = \<lparr>mo_object_id = i, mo_generation = 0, mo_remote = None, mo_sha256 = None,
                    mo_zero = True\<rparr>"

definition manifest_empty :: "128 word \<Rightarrow> u32 \<Rightarrow> u64 \<Rightarrow> Manifest" where
  "manifest_empty uuid object_size object_count =
     \<lparr>m_magic = ''TGDRIVE_MANIFEST'', m_format_version = 1, m_device_uuid = uuid,
      m_generation = 0, m_object_size = object_size, m_object_count = object_count,
      m_objects = map (\<lambda>i. zero_object (of_nat i)) [0..<unat object_count],
      m_garbage = []\<rparr>"

definition manifest_hash_hex :: "libs \<Rightarrow> Manifest \<Rightarrow> string res" where
  "manifest_hash_hex L m = rbind (json_manifest L m) (\<lambda>j. Inr (hex_encode L (sha256_bytes L j)))"

definition verify_hash :: "libs \<Rightarrow> Manifest \<Rightarrow> string \<Rightarrow> unit res" where
  "verify_hash L m expected =
     rbind (manifest_hash_hex L m) (\<lambda>actual.
       ensure (actual = expected) (Anyhow ''manifest hash mismatch''))"

definition tree_leaf :: "Manifest \<Rightarrow> nat \<Rightarrow> ManifestObject list \<Rightarrow> ManifestTreeLeaf" where
  "tree_leaf m i objects =
     \<lparr>tl_magic = ''TGDRIVE_MANIFEST_LEAF'', tl_format_version = 1,
      tl_device_uuid = m_device_uuid m, tl_generation = m_generation m,
      tl_leaf_index = of_nat i,
      tl_start_object_id = (case objects of [] \<Rightarrow> 0 | x # _ \<Rightarrow> mo_object_id x),
      tl_objects = objects\<rparr>"

definition tree_leaves :: "Manifest \<Rightarrow> nat \<Rightarrow> ManifestTreeLeaf list res" where
  "tree_leaves m leaf_span =
     (if leaf_span = 0 then Inl (Panic ''chunk size must be non-zero'')
      else Inr (map (\<lambda>(i, objects). tree_leaf m i objects)
                  (enumerate 0 (chunks leaf_span (m_objects m)))))"

fun collect_leaves :: "ManifestTreeRoot \<Rightarrow> nat \<Rightarrow> ManifestTreeLeaf list \<Rightarrow> ManifestObject list res" where
  "collect_leaves root i [] = Inr []"
| "collect_leaves root i (leaf # leaves) =
     rbind (ensure (tl_magic leaf = ''TGDRIVE_MANIFEST_LEAF'') (Anyhow ''invalid manifest leaf magic'')) (\<lambda>_.
     rbind (ensure (tl_format_version leaf = 1) (Anyhow ''unsupported manifest leaf version'')) (\<lambda>_.
     rbind (ensure (tl_device_uuid leaf = tr_device_uuid root) (Anyhow ''manifest leaf UUID mismatch'')) (\<lambda>_.
     rbind (ensure (tl_generation leaf = tr_generation root) (Anyhow ''manifest leaf generation mismatch'')) (\<lambda>_.
     rbind (ensure (tl_leaf_index leaf = of_nat i) (Anyhow ''manifest leaf index mismatch'')) (\<lambda>_.
     rbind (collect_leaves root (Suc i) leaves) (\<lambda>rest. Inr (tl_objects leaf @ rest)))))))"

definition from_tree_root_and_leaves :: "ManifestTreeRoot \<Rightarrow> ManifestTreeLeaf list \<Rightarrow> Manifest res" where
  "from_tree_root_and_leaves root leaves =
     rbind (collect_leaves root 0 (sort_key tl_leaf_index leaves)) (\<lambda>objects.
     rbind (ensure (of_nat (length objects) = tr_object_count root)
              (Anyhow ''manifest tree object count mismatch'')) (\<lambda>_.
     rbind (ensure (list_all (\<lambda>(i, x). mo_object_id x = of_nat i) (enumerate 0 objects))
              (Anyhow ''manifest tree object id mismatch'')) (\<lambda>_.
     Inr \<lparr>m_magic = ''TGDRIVE_MANIFEST'', m_format_version = 1,
          m_device_uuid = tr_device_uuid root, m_generation = tr_generation root,
          m_object_size = tr_object_size root, m_object_count = tr_object_count root,
          m_objects = objects, m_garbage = tr_garbage root\<rparr>)))"

definition object_id_for_index :: "'z base_scheme \<Rightarrow> u64 \<Rightarrow> u64 res" where
  "object_id_for_index L leaf_index = sub_w L MANIFEST_TREE_LEAF_BASE_OBJECT_ID leaf_index"

section \<open>Well-formed manifests\<close>

definition manifest_wf :: "Manifest \<Rightarrow> bool" where
  "manifest_wf m \<longleftrightarrow> m_magic m = ''TGDRIVE_MANIFEST'' \<and> m_format_version m = 1 \<and>
     length (m_objects m) = unat (m_object_count m) \<and>
     map mo_object_id (m_objects m) = map of_nat [0..<length (m_objects m)]"

text \<open>An envelope with explicit reserved bytes (offsets 10 and 11), which the decoder ignores.\<close>

definition layout :: "bytes \<Rightarrow> u16 \<Rightarrow> bytes \<Rightarrow> u64 \<Rightarrow> u64 \<Rightarrow> u64 \<Rightarrow> u32 \<Rightarrow> bytes \<Rightarrow> u32 \<Rightarrow> bytes \<Rightarrow> bytes" where
  "layout magic version reserved oid gen len osize chk flags payload =
     magic @ be16 version @ reserved @ be64 oid @ be64 gen @ be64 len @ be32 osize @ chk @ be32 flags @ payload"

text \<open>The leaves of a manifest when the span is positive.\<close>

definition leaves_of :: "Manifest \<Rightarrow> nat \<Rightarrow> ManifestTreeLeaf list" where
  "leaves_of m span = map (\<lambda>(i, objects). tree_leaf m i objects) (enumerate 0 (chunks span (m_objects m)))"

text \<open>The root that \<open>send_manifest_tree\<close> writes for a manifest.\<close>

definition root_of :: "Manifest \<Rightarrow> nat \<Rightarrow> ManifestTreeLeafRef list \<Rightarrow> ManifestTreeRoot" where
  "root_of m span refs =
     \<lparr>tr_magic = ''TGDRIVE_MANIFEST_ROOT'', tr_format_version = 1,
      tr_device_uuid = m_device_uuid m, tr_generation = m_generation m,
      tr_object_size = m_object_size m, tr_object_count = m_object_count m,
      tr_leaf_span = span, tr_leaves = refs, tr_garbage = m_garbage m\<rparr>"

section \<open>Envelope lemmas\<close>

lemma header_len [simp]: "OBJECT_HEADER_LEN = 76"
  by (simp add: OBJECT_HEADER_LEN_def)

lemma length_magic [simp]: "length TGDRIVE_MAGIC = 8"
  by (simp add: TGDRIVE_MAGIC_def ascii_def)

lemma encode_layout:
  "encode L e = layout TGDRIVE_MAGIC ENVELOPE_VERSION (be16 0) (env_object_id e) (env_generation e)
     (of_nat (length (env_payload e))) (env_object_size e) (sha256_bytes L (env_payload e))
     (env_flags e) (env_payload e)"
  by (simp add: encode_def layout_def)

lemma slices_layout:
  assumes "length magic = 8" "length reserved = 2" "length chk = 32"
    and bs: "bs = layout magic version reserved oid gen len osize chk flags payload"
  shows "slice 0 8 bs = magic" "slice 8 10 bs = be16 version" "slice 12 20 bs = be64 oid"
    "slice 20 28 bs = be64 gen" "slice 28 36 bs = be64 len" "slice 36 40 bs = be32 osize"
    "slice 40 72 bs = chk" "slice 72 76 bs = be32 flags" "drop 76 bs = payload"
    "length bs = 76 + length payload"
  using assms(1-3) by (simp_all add: bs layout_def slice_def)

lemma layout_slices:
  assumes "76 \<le> length bs"
  shows "bs = layout (slice 0 8 bs) (un16 (slice 8 10 bs)) (slice 10 12 bs) (un64 (slice 12 20 bs))
    (un64 (slice 20 28 bs)) (un64 (slice 28 36 bs)) (un32 (slice 36 40 bs)) (slice 40 72 bs)
    (un32 (slice 72 76 bs)) (drop 76 bs)"
proof -
  have "bs = slice 0 8 bs @ slice 8 10 bs @ slice 10 12 bs @ slice 12 20 bs @ slice 20 28 bs
      @ slice 28 36 bs @ slice 36 40 bs @ slice 40 72 bs @ slice 72 76 bs @ drop 76 bs"
    by (simp add: drop_eq_slice_append [symmetric])
  with assms show ?thesis
    by (simp add: layout_def u16_field.enc_dec u32_field.enc_dec u64_field.enc_dec)
qed

lemma decode_layout:
  assumes "length magic = 8" "length reserved = 2" "length chk = 32"
  shows "decode L (layout magic version reserved oid gen len osize chk flags payload) o' g' =
    (if magic \<noteq> TGDRIVE_MAGIC then Inl (Format InvalidMagic)
     else if version \<noteq> ENVELOPE_VERSION then Inl (Format (UnsupportedVersion version))
     else if oid \<noteq> o' then Inl (Format (ObjectIdMismatch o' oid))
     else if gen \<noteq> g' then Inl (Format (GenerationMismatch g' gen))
     else rbind (add_usize L 76 (unat len)) (\<lambda>total.
       if 76 + length payload \<noteq> total then Inl (Format PayloadLengthMismatch)
       else if sha256_bytes L payload \<noteq> chk then Inl (Format ChecksumMismatch)
       else Inr \<lparr>env_object_id = oid, env_generation = gen, env_object_size = osize,
                 env_flags = flags, env_payload = payload\<rparr>))"
  unfolding decode_def Let_def header_len slices_layout [OF assms refl] field_decodes
  by simp

lemma digest_length [simp]: "digest32 L \<Longrightarrow> length (sha256_bytes L bs) = 32"
  by (simp add: digest32_def sha256_bytes_def)

lemma add_usize_header:
  fixes len :: u64
  shows "add_usize L 76 (unat len) = Inr (76 + n) \<longleftrightarrow> unat len = n \<and> n < 2 ^ 64 - 76"
proof (cases "76 + unat len < 2 ^ 64")
  case True
  then show ?thesis by (auto simp: add_usize_def)
next
  case False
  have "unat len < 2 ^ 64" using unsigned_less [of len, where ?'a = nat] by simp
  with False have "(76 + unat len) mod 2 ^ 64 = 76 + unat len - 2 ^ 64"
    by (simp add: mod_nat_eqI)
  with False \<open>unat len < 2 ^ 64\<close> show ?thesis by (auto simp: add_usize_def overflow_def)
qed

lemma decode_layout_Inr_iff:
  assumes "length magic = 8" "length reserved = 2" "length chk = 32"
  shows "decode L (layout magic version reserved oid gen len osize chk flags payload) o' g' = Inr e \<longleftrightarrow>
    magic = TGDRIVE_MAGIC \<and> version = ENVELOPE_VERSION \<and> oid = o' \<and> gen = g' \<and>
    unat len = length payload \<and> length payload < 2 ^ 64 - 76 \<and> chk = sha256_bytes L payload \<and>
    e = \<lparr>env_object_id = oid, env_generation = gen, env_object_size = osize,
         env_flags = flags, env_payload = payload\<rparr>"
  unfolding decode_layout [OF assms]
  using add_usize_header [of L len "length payload"]
  by (auto simp: rbind_Inr_iff split: if_splits)

lemma decode_encode:
  assumes "digest32 L" and "length (env_payload e) < 2 ^ 64 - 76"
  shows "decode L (encode L e) (env_object_id e) (env_generation e) = Inr e"
  using assms by (simp add: encode_layout decode_layout unat_of_nat_len add_usize_Inr)

lemma checksum_slice: "digest32 L \<Longrightarrow> slice 40 72 (encode L e) = sha256_bytes L (env_payload e)"
  by (simp add: encode_layout layout_def slice_def)

lemma decode_accepts_iff:
  assumes "digest32 L"
  shows "decode L bs oid gen = Inr e \<longleftrightarrow>
    env_object_id e = oid \<and> env_generation e = gen \<and> length (env_payload e) < 2 ^ 64 - 76 \<and>
    length bs = length (encode L e) \<and> take 10 bs = take 10 (encode L e) \<and>
    drop 12 bs = drop 12 (encode L e)"
proof (cases "76 \<le> length bs")
  case False
  with assms show ?thesis by (auto simp: decode_def encode_def)
next
  case True
  then obtain magic version reserved oid' gen' len osize chk flags payload where
    bs: "bs = layout magic version reserved oid' gen' len osize chk flags payload"
    and lens: "length magic = 8" "length reserved = 2" "length chk = 32"
    using layout_slices by fastforce
  have parts: "take 10 bs = magic @ be16 version"
    "drop 12 bs = be64 oid' @ be64 gen' @ be64 len @ be32 osize @ chk @ be32 flags @ payload"
    "length bs = 76 + length payload"
    using lens by (simp_all add: bs layout_def)
  have eparts: "take 10 (encode L e) = TGDRIVE_MAGIC @ be16 ENVELOPE_VERSION"
    "drop 12 (encode L e) = be64 (env_object_id e) @ be64 (env_generation e)
       @ be64 (of_nat (length (env_payload e))) @ be32 (env_object_size e)
       @ sha256_bytes L (env_payload e) @ be32 (env_flags e) @ env_payload e"
    "length (encode L e) = 76 + length (env_payload e)"
    using assms by (simp_all add: encode_layout layout_def)
  have len: "len = of_nat n \<longleftrightarrow> unat len = n" if "n < 2 ^ 64 - 76" for n
    using that by (simp add: word_unat_eq_iff unat_of_nat_len)
  show ?thesis
    unfolding parts eparts unfolding bs decode_layout_Inr_iff [OF lens]
    using assms lens len [of "length payload"]
    by (cases e) (auto simp: u16_field.enc_inj u64_field.enc_eq_append_iff
        u32_field.enc_eq_append_iff)
qed

lemma decode_panics_iff:
  assumes "76 \<le> length bs" "slice 0 8 bs = TGDRIVE_MAGIC" "un16 (slice 8 10 bs) = ENVELOPE_VERSION"
  shows "decode L bs (un64 (slice 12 20 bs)) (un64 (slice 20 28 bs)) = Inl (Panic msg) \<longleftrightarrow>
    overflow_checks L \<and> msg = ''attempt to add with overflow'' \<and>
    2 ^ 64 - 76 \<le> unat (un64 (slice 28 36 bs))"
  using assms by (auto simp: decode_def rbind_Inl_iff add_usize_def overflow_def Let_def)

section \<open>Manifest tree lemmas\<close>

lemma tree_leaves_Inr: "tree_leaves m span = Inr ls \<longleftrightarrow> 0 < span \<and> ls = leaves_of m span"
  by (auto simp: tree_leaves_def leaves_of_def)

lemma leaf_indices: "map tl_leaf_index (leaves_of m span) = map of_nat [0..<length (chunks span (m_objects m))]"
  by (rule nth_equalityI) (simp_all add: leaves_of_def tree_leaf_def nth_enumerate_eq)

lemma collect_leaves_enumerate:
  "tr_device_uuid root = m_device_uuid m \<Longrightarrow> tr_generation root = m_generation m \<Longrightarrow>
   collect_leaves root i (map (\<lambda>(i, objects). tree_leaf m i objects) (enumerate i css)) = Inr (concat css)"
  by (induction css arbitrary: i) (simp_all add: tree_leaf_def)

lemma sort_leaves:
  assumes "length (m_objects m) < 2 ^ 64" and "mset leaves = mset (leaves_of m span)"
  shows "sort_key tl_leaf_index leaves = leaves_of m span"
proof (rule sort_key_inj_key_eq [OF assms(2)])
  let ?n = "length (chunks span (m_objects m))"
  have n: "?n \<le> 2 ^ 64" using length_chunks_le [of span "m_objects m"] assms(1) by simp
  have "distinct (map tl_leaf_index (leaves_of m span))"
    unfolding leaf_indices by (rule map_of_nat_upt_distinct [OF n])
  then show "inj_on tl_leaf_index (set leaves)"
    unfolding mset_eq_setD [OF assms(2)] by (simp add: distinct_map)
  show "sorted (map tl_leaf_index (leaves_of m span))"
    unfolding leaf_indices by (rule sorted_map_of_nat [OF n])
qed

lemma ids_check:
  "list_all (\<lambda>(i, x). mo_object_id x = of_nat i) (enumerate 0 objects) \<longleftrightarrow>
   map mo_object_id objects = map of_nat [0..<length objects]"
  unfolding list_all_length list_eq_iff_nth_eq by (simp add: nth_enumerate_eq)

lemma tree_reassembles:
  assumes "manifest_wf m" and "tree_leaves m span = Inr ls" and "mset leaves = mset ls"
  shows "from_tree_root_and_leaves (root_of m span refs) leaves = Inr m"
proof -
  have len: "length (m_objects m) = unat (m_object_count m)"
    using assms(1) by (simp add: manifest_wf_def)
  then have "length (m_objects m) < 2 ^ 64"
    using unsigned_less [of "m_object_count m", where ?'a = nat] by simp
  moreover from assms(2,3) have "mset leaves = mset (leaves_of m span)" and "0 < span"
    by (auto simp: tree_leaves_Inr)
  ultimately have "sort_key tl_leaf_index leaves = leaves_of m span"
    by (intro sort_leaves)
  then have "collect_leaves (root_of m span refs) 0 (sort_key tl_leaf_index leaves) = Inr (m_objects m)"
    using collect_leaves_enumerate [of "root_of m span refs" m 0 "chunks span (m_objects m)"] \<open>0 < span\<close>
    by (simp add: leaves_of_def root_of_def concat_chunks)
  with assms(1) len show ?thesis
    by (simp add: from_tree_root_and_leaves_def ids_check manifest_wf_def root_of_def)
qed

lemma collect_leaves_Inr:
  "collect_leaves root i leaves = Inr objs \<Longrightarrow> objs = concat (map tl_objects leaves)"
  by (induction leaves arbitrary: i objs) (auto simp: rbind_Inr_iff)

section \<open>A concrete library instance\<close>

text \<open>
  An instance of the external functions for evaluating the model: a one-byte exclusive-or
  repeated 32 times in place of SHA-256, and its first byte as two characters in place of hex.
\<close>

definition toy_digest :: "bytes \<Rightarrow> bytes" where
  "toy_digest bs = replicate 32 (fold (XOR) bs 90)"

definition toy_hex :: "bytes \<Rightarrow> string" where
  "toy_hex bs = map (\<lambda>b. char_of (unat b)) bs"

definition toy_base :: "bool \<Rightarrow> base" where
  "toy_base checks = \<lparr>overflow_checks = checks, sha256 = toy_digest, hex_encode = toy_hex\<rparr>"

lemma toy_base_sel [simp]:
  "overflow_checks (toy_base c) = c" "sha256 (toy_base c) = toy_digest" "hex_encode (toy_base c) = toy_hex"
  by (simp_all add: toy_base_def)

lemma digest32_toy [simp]: "digest32 (toy_base c)"
  by (simp add: digest32_def toy_digest_def)

text \<open>
  The serialised types are countable; the concrete \<open>serde_json\<close> of the examples writes a value's
  number in unary and reads it back.
\<close>

instance RemoteObjectRef_ext :: (countable) countable
  by (rule countable_classI [of "\<lambda>r. to_nat (ref_chat_id r, ref_message_id r, ref_object_id r, ref_generation r, ref_sha256 r, RemoteObjectRef.more r)"])
    (auto intro: RemoteObjectRef.equality)

instance ManifestObject_ext :: (countable) countable
  by (rule countable_classI [of "\<lambda>r. to_nat (mo_object_id r, mo_generation r, mo_remote r, mo_sha256 r, mo_zero r, ManifestObject.more r)"])
    (auto intro: ManifestObject.equality)

instance Manifest_ext :: (countable) countable
  by (rule countable_classI [of "\<lambda>r. to_nat (m_magic r, m_format_version r, m_device_uuid r, m_generation r, m_object_size r, m_object_count r, m_objects r, m_garbage r, Manifest.more r)"])
    (auto intro: Manifest.equality)

instance ManifestTreeLeafRef_ext :: (countable) countable
  by (rule countable_classI [of "\<lambda>r. to_nat (lr_leaf_index r, lr_start_object_id r, lr_object_count r, lr_remote r, ManifestTreeLeafRef.more r)"])
    (auto intro: ManifestTreeLeafRef.equality)

instance ManifestTreeRoot_ext :: (countable) countable
  by (rule countable_classI [of "\<lambda>r. to_nat (tr_magic r, tr_format_version r, tr_device_uuid r, tr_generation r, tr_object_size r, tr_object_count r, tr_leaf_span r, tr_leaves r, tr_garbage r, ManifestTreeRoot.more r)"])
    (auto intro: ManifestTreeRoot.equality)

instance ManifestTreeLeaf_ext :: (countable) countable
  by (rule countable_classI [of "\<lambda>r. to_nat (tl_magic r, tl_format_version r, tl_device_uuid r, tl_generation r, tl_leaf_index r, tl_start_object_id r, tl_objects r, ManifestTreeLeaf.more r)"])
    (auto intro: ManifestTreeLeaf.equality)

instance ManifestEncoding :: countable
  by countable_datatype

instance Superblock_ext :: (countable) countable
  by (rule countable_classI [of "\<lambda>r. to_nat (sb_magic r, sb_format_version r, sb_device_uuid r, sb_device_size r, sb_logical_sector_size r, sb_object_size r, sb_current_manifest_message_id r, sb_manifest_generation r, sb_manifest_hash r, sb_previous_manifest_message_id r, sb_previous_manifest_hash r, sb_previous_manifest_generation r, sb_manifest_encoding r, sb_root_index_message_id r, sb_created_at r, sb_last_commit_at r, Superblock.more r)"])
    (auto intro: Superblock.equality)

definition toy_libs :: "bool \<Rightarrow> libs" where
  "toy_libs checks = \<lparr>overflow_checks = checks, sha256 = toy_digest, hex_encode = toy_hex,
     json_manifest = (\<lambda>m. Inr (replicate (to_nat m) 0)),
     unjson_manifest = (\<lambda>bs. Inr (from_nat (length bs))),
     json_root = (\<lambda>m. Inr (replicate (to_nat m) 0)),
     unjson_root = (\<lambda>bs. Inr (from_nat (length bs))),
     json_leaf = (\<lambda>m. Inr (replicate (to_nat m) 0)),
     unjson_leaf = (\<lambda>bs. Inr (from_nat (length bs))),
     json_superblock = (\<lambda>m. Inr (replicate (to_nat m) CHR ''x'')),
     unjson_superblock = (\<lambda>t. Inr (from_nat (length t))),
     now_utc = int, show_time = show_int, elapsed_ms = (\<lambda>_. 1)\<rparr>"

lemma toy_libs_sel [simp]:
  "overflow_checks (toy_libs c) = c" "sha256 (toy_libs c) = toy_digest"
  "hex_encode (toy_libs c) = toy_hex" "json_manifest (toy_libs c) m = Inr (replicate (to_nat m) 0)"
  by (simp_all add: toy_libs_def)

lemma toy_libs_ok [simp]:
  "digest32 (toy_libs c)" "json_writes (toy_libs c)" "json_round_trips (toy_libs c)"
  by (simp_all add: digest32_def toy_digest_def json_writes_def json_round_trips_def toy_libs_def)

definition toy_envelope :: ObjectEnvelope where
  "toy_envelope = \<lparr>env_object_id = 7, env_generation = 3, env_object_size = 262144,
                   env_flags = 0, env_payload = ascii ''hello''\<rparr>"

section \<open>Properties of the format\<close>

text \<open>
  C17. Decoding an encoded envelope with any expected object id and generation: a different id or
  generation is rejected with the mismatch error that reports both numbers, in that order, and
  the right pair gives back exactly the envelope that was encoded. Holds under both build
  profiles, for every payload whose total length fits \<open>usize\<close>.
\<close>

theorem envelope_decode_encode:
  assumes "digest32 L" and "length (env_payload e) < 2 ^ 64 - 76"
  shows "decode L (encode L e) oid gen =
    (if env_object_id e \<noteq> oid then Inl (Format (ObjectIdMismatch oid (env_object_id e)))
     else if env_generation e \<noteq> gen then Inl (Format (GenerationMismatch gen (env_generation e)))
     else Inr e)"
  using decode_encode [OF assms] assms
  by (auto simp: encode_layout decode_layout)

theorem envelope_decode_encode_witness:
  "decode (toy_base True) (encode (toy_base True) toy_envelope) 7 3 = Inr toy_envelope \<and>
   decode (toy_base True) (encode (toy_base True) toy_envelope) 8 3 =
     Inl (Format (ObjectIdMismatch 8 7))"
  using envelope_decode_encode [of "toy_base True" toy_envelope 7 3]
    envelope_decode_encode [of "toy_base True" toy_envelope 8 3]
  by (simp add: toy_envelope_def ascii_def)

text \<open>
  C16. The decoder is strict: a buffer is accepted exactly when it is, byte for byte, the encoding
  of the returned envelope, except for the two reserved bytes at offsets 10 and 11, which are
  ignored; and the returned envelope carries the expected id and generation.
\<close>

theorem envelope_decode_strict:
  assumes "digest32 L"
  shows "decode L bs oid gen = Inr e \<longleftrightarrow>
    env_object_id e = oid \<and> env_generation e = gen \<and> length (env_payload e) < 2 ^ 64 - 76 \<and>
    length bs = length (encode L e) \<and> take 10 bs = take 10 (encode L e) \<and>
    drop 12 bs = drop 12 (encode L e)"
  using assms by (rule decode_accepts_iff)

theorem envelope_decode_strict_witness:
  "digest32 (toy_base False) \<and>
   decode (toy_base False) (encode (toy_base False) toy_envelope) 7 3 = Inr toy_envelope"
  using envelope_decode_strict [of "toy_base False" "encode (toy_base False) toy_envelope" 7 3 toy_envelope]
  by (simp add: toy_envelope_def ascii_def)

text \<open>
  C18. What the checksum protects is the payload. (1) A payload other than the encoded one behind an
  intact header is refused, with \<open>PayloadLengthMismatch\<close> if it has another length and with
  \<open>ChecksumMismatch\<close> if it has another digest. (2) Whatever else of the buffer is damaged, as long
  as the checksum field is intact the decoder accepts it only for the expected id and generation and
  with a payload of the same digest. (3) The object size (bytes 36 to 39) and the flags (bytes 72 to
  75) are not protected: a buffer in which they are overwritten is accepted and decodes to an
  envelope with the overwritten values.
\<close>

theorem envelope_damage_detected:
  assumes "digest32 L" and "length (env_payload e) < 2 ^ 64 - 76"
  shows "decode L (take 76 (encode L e) @ payload) (env_object_id e) (env_generation e) =
      (if length payload \<noteq> length (env_payload e) then Inl (Format PayloadLengthMismatch)
       else if sha256_bytes L payload \<noteq> sha256_bytes L (env_payload e) then Inl (Format ChecksumMismatch)
       else Inr (e\<lparr>env_payload := payload\<rparr>)) \<and>
    (slice 40 72 bs = slice 40 72 (encode L e) \<and> decode L bs oid gen = Inr e' \<longrightarrow>
       env_object_id e' = oid \<and> env_generation e' = gen \<and>
       sha256_bytes L (env_payload e') = sha256_bytes L (env_payload e)) \<and>
    decode L (take 36 (encode L e) @ be32 osize @ slice 40 72 (encode L e) @ be32 flags @ drop 76 (encode L e))
      (env_object_id e) (env_generation e) = Inr (e\<lparr>env_object_size := osize, env_flags := flags\<rparr>)"
proof (intro conjI impI)
  have "take 76 (encode L e) @ payload =
    layout TGDRIVE_MAGIC ENVELOPE_VERSION (be16 0) (env_object_id e) (env_generation e)
      (of_nat (length (env_payload e))) (env_object_size e) (sha256_bytes L (env_payload e))
      (env_flags e) payload"
    using assms(1) by (simp add: encode_layout layout_def)
  with assms show "decode L (take 76 (encode L e) @ payload) (env_object_id e) (env_generation e) =
      (if length payload \<noteq> length (env_payload e) then Inl (Format PayloadLengthMismatch)
       else if sha256_bytes L payload \<noteq> sha256_bytes L (env_payload e) then Inl (Format ChecksumMismatch)
       else Inr (e\<lparr>env_payload := payload\<rparr>))"
    by (simp add: decode_layout unat_of_nat_len add_usize_Inr)
next
  assume a: "slice 40 72 bs = slice 40 72 (encode L e) \<and> decode L bs oid gen = Inr e'"
  then show "env_object_id e' = oid" "env_generation e' = gen" using decode_accepts_iff [OF assms(1)] by blast+
  from a have "drop 12 bs = drop 12 (encode L e')" using decode_accepts_iff [OF assms(1)] by blast
  then have "slice 40 72 bs = slice 40 72 (encode L e')"
    using slice_drop [of 12 40 72 bs] slice_drop [of 12 40 72 "encode L e'"] by simp
  with a show "sha256_bytes L (env_payload e') = sha256_bytes L (env_payload e)"
    by (simp add: checksum_slice [OF assms(1)])
next
  have "take 36 (encode L e) @ be32 osize @ slice 40 72 (encode L e) @ be32 flags @ drop 76 (encode L e) =
    layout TGDRIVE_MAGIC ENVELOPE_VERSION (be16 0) (env_object_id e) (env_generation e)
      (of_nat (length (env_payload e))) osize (sha256_bytes L (env_payload e)) flags (env_payload e)"
    unfolding checksum_slice [OF assms(1)] using assms(1) by (simp add: encode_layout layout_def)
  with assms show "decode L (take 36 (encode L e) @ be32 osize @ slice 40 72 (encode L e) @ be32 flags @ drop 76 (encode L e))
      (env_object_id e) (env_generation e) = Inr (e\<lparr>env_object_size := osize, env_flags := flags\<rparr>)"
    by (simp add: decode_layout unat_of_nat_len add_usize_Inr)
qed

theorem envelope_damage_detected_witness:
  "\<exists>bs. bs = encode (toy_base True) toy_envelope \<and>
     decode (toy_base True) (take 76 bs @ ascii ''hellp'') 7 3 = Inl (Format ChecksumMismatch) \<and>
     decode (toy_base True) (take 76 bs @ ascii ''hell'') 7 3 = Inl (Format PayloadLengthMismatch) \<and>
     slice 40 72 (take 10 bs @ [9, 9] @ drop 12 bs) = slice 40 72 bs \<and>
     decode (toy_base True) (take 10 bs @ [9, 9] @ drop 12 bs) 7 3 = Inr toy_envelope \<and>
     decode (toy_base True) (take 36 bs @ be32 8 @ slice 40 72 bs @ be32 1 @ drop 76 bs) 7 3 =
       Inr (toy_envelope\<lparr>env_object_size := 8, env_flags := 1\<rparr>)"
proof -
  let ?L = "toy_base True" and ?bs = "encode (toy_base True) toy_envelope"
  let ?dam = "take 10 ?bs @ [9, 9] @ drop 12 ?bs"
  have len: "length (env_payload toy_envelope) < 2 ^ 64 - 76" by (simp add: toy_envelope_def ascii_def)
  have ids: "env_object_id toy_envelope = 7" "env_generation toy_envelope = 3" by (simp_all add: toy_envelope_def)
  note D = envelope_damage_detected [OF digest32_toy len, of True _ ?dam 7 3 toy_envelope 8 1, unfolded ids]
  have "decode ?L (take 76 ?bs @ ascii ''hellp'') 7 3 = Inl (Format ChecksumMismatch)"
    using D [of "ascii ''hellp''"] by (simp add: toy_envelope_def ascii_def toy_digest_def sha256_bytes_def)
  moreover have "decode ?L (take 76 ?bs @ ascii ''hell'') 7 3 = Inl (Format PayloadLengthMismatch)"
    using D [of "ascii ''hell''"] by (simp add: toy_envelope_def ascii_def)
  moreover have "length ?bs = 76 + length (env_payload toy_envelope)" by (simp add: encode_layout layout_def)
  then have "decode ?L ?dam 7 3 = Inr toy_envelope" using len by (simp add: decode_accepts_iff ids)
  moreover have "slice 40 72 ?dam = slice 40 72 ?bs"
    using slice_drop [of 12 40 72 ?dam] slice_drop [of 12 40 72 ?bs] by (simp add: encode_layout layout_def)
  ultimately show ?thesis using D by blast
qed

text \<open>
  C19. Splitting a well-formed manifest into tree leaves and reassembling it from the root and the
  leaves, in whatever order the leaves arrive, gives back the manifest.
\<close>

theorem tree_round_trip:
  assumes "manifest_wf m" and "tree_leaves m span = Inr ls" and "mset leaves = mset ls"
  shows "from_tree_root_and_leaves (root_of m span refs) leaves = Inr m"
  using assms by (rule tree_reassembles)

theorem tree_round_trip_witness:
  "from_tree_root_and_leaves (root_of (manifest_empty 9 65536 5) 2 [])
     (rev (leaves_of (manifest_empty 9 65536 5) 2)) = Inr (manifest_empty 9 65536 5)"
proof -
  have "manifest_wf (manifest_empty 9 65536 5)"
    by (simp add: manifest_wf_def manifest_empty_def zero_object_def upt_rec)
  moreover have "tree_leaves (manifest_empty 9 65536 5) 2 = Inr (leaves_of (manifest_empty 9 65536 5) 2)"
    by (simp add: tree_leaves_Inr)
  ultimately show ?thesis
    by (rule tree_round_trip) simp
qed

text \<open>
  C20. A manifest reassembled from a tree is well formed (object ids are exactly
  \<open>0 .. object_count - 1\<close> in order), carries the root's generation and garbage list, and holds
  exactly the objects of the leaves, whatever bytes the leaves were decoded from.
\<close>

theorem from_tree_wf:
  assumes "from_tree_root_and_leaves root leaves = Inr m"
    and "length (concat (map tl_objects leaves)) < 2 ^ 64"
  shows "manifest_wf m \<and> m_generation m = tr_generation root \<and> m_garbage m = tr_garbage root \<and>
    mset (m_objects m) = mset (concat (map tl_objects leaves))"
proof -
  from assms(1) obtain objs where
    objs: "collect_leaves root 0 (sort_key tl_leaf_index leaves) = Inr objs"
    and count: "of_nat (length objs) = tr_object_count root"
    and ids: "map mo_object_id objs = map of_nat [0..<length objs]"
    and m: "m = \<lparr>m_magic = ''TGDRIVE_MANIFEST'', m_format_version = 1,
          m_device_uuid = tr_device_uuid root, m_generation = tr_generation root,
          m_object_size = tr_object_size root, m_object_count = tr_object_count root,
          m_objects = objs, m_garbage = tr_garbage root\<rparr>"
    unfolding from_tree_root_and_leaves_def rbind_Inr_iff ids_check ensure_Inr_iff by blast
  have ms: "mset objs = mset (concat (map tl_objects leaves))"
    unfolding collect_leaves_Inr [OF objs] by (rule mset_concat_map_cong) simp
  with assms(2) have "length objs < 2 ^ 64"
    by (metis mset_eq_length)
  then have "length objs = unat (tr_object_count root)"
    using unat_of_nat_len count by metis
  with ids ms show ?thesis by (simp add: m manifest_wf_def)
qed

theorem from_tree_wf_witness:
  "\<exists>m. m = manifest_empty 9 65536 5 \<and>
     from_tree_root_and_leaves (root_of m 2 []) (rev (leaves_of m 2)) = Inr m \<and>
     length (concat (map tl_objects (rev (leaves_of m 2)))) < 2 ^ 64 \<and> manifest_wf m \<and>
     mset (m_objects m) = mset (concat (map tl_objects (rev (leaves_of m 2))))"
proof -
  let ?m = "manifest_empty 9 65536 5"
  have wf: "manifest_wf ?m" by (simp add: manifest_wf_def manifest_empty_def zero_object_def upt_rec)
  have t: "from_tree_root_and_leaves (root_of ?m 2 []) (rev (leaves_of ?m 2)) = Inr ?m"
    by (rule tree_reassembles [OF wf]) (simp_all add: tree_leaves_Inr)
  have len: "length (concat (map tl_objects (rev (leaves_of ?m 2)))) < 2 ^ 64"
    by (simp add: leaves_of_def manifest_empty_def zero_object_def tree_leaf_def chunks_unfold upt_rec)
  from from_tree_wf [OF t len] t len show ?thesis by blast
qed

text \<open>
  The decoder panics on a buffer only in a build with overflow checks, and then exactly when
  the header passes the checks before it and announces a payload length of at least
  \<open>2^64 - 76\<close> bytes; without overflow checks such a header is rejected as a length mismatch.
\<close>

theorem envelope_length_overflow:
  assumes "76 \<le> length bs" "slice 0 8 bs = TGDRIVE_MAGIC" "un16 (slice 8 10 bs) = ENVELOPE_VERSION"
    and "2 ^ 64 - 76 \<le> unat (un64 (slice 28 36 bs))"
  shows "decode L bs (un64 (slice 12 20 bs)) (un64 (slice 20 28 bs)) =
    (if overflow_checks L then Inl (Panic ''attempt to add with overflow'')
     else Inl (Format PayloadLengthMismatch))"
proof -
  let ?n = "unat (un64 (slice 28 36 bs))"
  have "?n < 2 ^ 64"
    using unsigned_less [of "un64 (slice 28 36 bs)", where ?'a = nat] by simp
  with assms(4) have "(76 + ?n) mod 2 ^ 64 = 76 + ?n - 2 ^ 64"
    by (simp add: mod_nat_eqI)
  with \<open>?n < 2 ^ 64\<close> have "(76 + ?n) mod 2 ^ 64 < 76"
    by simp
  with assms show ?thesis
    by (auto simp: decode_def add_usize_def overflow_def Let_def)
qed

theorem envelope_length_overflow_witness:
  "decode (toy_base True) (layout TGDRIVE_MAGIC 1 [0, 0] 7 3 18446744073709551615 0 (replicate 32 0) 0 []) 7 3 =
     Inl (Panic ''attempt to add with overflow'')"
proof -
  let ?bs = "layout TGDRIVE_MAGIC 1 [0, 0] 7 3 18446744073709551615 0 (replicate 32 0) 0 []"
  have s: "slice 0 8 ?bs = TGDRIVE_MAGIC" "slice 8 10 ?bs = be16 1" "slice 12 20 ?bs = be64 7"
    "slice 20 28 ?bs = be64 3" "slice 28 36 ?bs = be64 18446744073709551615" "length ?bs = 76"
    using slices_layout [of TGDRIVE_MAGIC "[0, 0]" "replicate 32 0" _ 1 7 3 18446744073709551615 0 0 "[]"]
    by simp_all
  show ?thesis
    using envelope_length_overflow [of ?bs "toy_base True"]
    by (simp add: s ENVELOPE_VERSION_def)
qed

end
