(* ===== verification/Backend.thy ===== *)
theory Backend
  imports Format
begin

text \<open>
  The storage interface of the block device (\<open>crates/tgdrive-core/src/backend.rs\<close>): the traits
  \<open>RemoteBackend\<close> and \<open>ManifestCommitter\<close> as records of operations on a backend state, the
  in-memory backend, and the contract a client may rely on as the locales \<open>remote_backend\<close>
  (safety: what a successful call says about the stored messages), \<open>readable_backend\<close> (stored
  objects can be read) and \<open>live_backend\<close> (uploads succeed too). The in-memory backend is an
  interpretation of all three.
\<close>

section \<open>The traits\<close>

record 'b backend =
  send_object :: "u64 \<Rightarrow> u64 \<Rightarrow> bytes \<Rightarrow> string \<Rightarrow> ('b, RemoteObjectRef) st"
  fetch_object :: "RemoteObjectRef \<Rightarrow> ('b, bytes) st"
  get_messages_by_id :: "i32 list \<Rightarrow> ('b, bytes option list) st"

type_synonym 'b committer = "Manifest \<Rightarrow> u64 \<Rightarrow> u32 \<Rightarrow> u32 \<Rightarrow> ('b, unit) st"

section \<open>The in-memory backend\<close>

record MemoryBackend =
  mb_chat_id :: i64
  mb_next_message_id :: i32
  mb_messages :: "i32 \<rightharpoonup> bytes"

definition memory_new :: "i64 \<Rightarrow> MemoryBackend" where
  "memory_new chat_id = \<lparr>mb_chat_id = chat_id, mb_next_message_id = 1, mb_messages = Map.empty\<rparr>"

definition memory_send_object ::
  "'z base_scheme \<Rightarrow> u64 \<Rightarrow> u64 \<Rightarrow> bytes \<Rightarrow> string \<Rightarrow> (MemoryBackend, RemoteObjectRef) st" where
  "memory_send_object L object_id generation payload sha b =
     (let message_id = mb_next_message_id b in
      case add_i32 L message_id 1 of
        Inl e \<Rightarrow> (Inl e, b)
      | Inr next \<Rightarrow>
          (Inr \<lparr>ref_chat_id = mb_chat_id b, ref_message_id = message_id,
                ref_object_id = object_id, ref_generation = generation, ref_sha256 = sha\<rparr>,
           b\<lparr>mb_next_message_id := next, mb_messages := (mb_messages b)(message_id \<mapsto> payload)\<rparr>))"

definition memory_fetch_object :: "RemoteObjectRef \<Rightarrow> (MemoryBackend, bytes) st" where
  "memory_fetch_object reference b =
     (ok_or (mb_messages b (ref_message_id reference))
        (Anyhow (''message '' @ show_int (sint (ref_message_id reference)) @ '' not found'')), b)"

definition memory_get_messages_by_id :: "i32 list \<Rightarrow> (MemoryBackend, bytes option list) st" where
  "memory_get_messages_by_id ids b = (Inr (map (mb_messages b) ids), b)"

definition memory_backend :: "'z base_scheme \<Rightarrow> MemoryBackend backend" where
  "memory_backend L = \<lparr>send_object = memory_send_object L, fetch_object = memory_fetch_object,
                       get_messages_by_id = memory_get_messages_by_id\<rparr>"

text \<open>
  The ids handed out so far lie below the next id, and \<open>memory_room b n\<close> says that \<open>n\<close> more
  messages can be sent before the \<open>i32\<close> counter overflows.
\<close>

definition memory_invar :: "MemoryBackend \<Rightarrow> bool" where
  "memory_invar b \<longleftrightarrow> (\<forall>i. mb_messages b i \<noteq> None \<longrightarrow> sint i < sint (mb_next_message_id b))"

definition memory_room :: "MemoryBackend \<Rightarrow> nat \<Rightarrow> bool" where
  "memory_room b n \<longleftrightarrow> sint (mb_next_message_id b) + int n < 2 ^ 31"

section \<open>The contract\<close>

locale remote_backend =
  fixes B :: "'b backend"
    and invar :: "'b \<Rightarrow> bool"
    and room :: "'b \<Rightarrow> nat \<Rightarrow> bool"
    and stored :: "'b \<Rightarrow> i32 \<rightharpoonup> bytes"
  assumes send_ok: "invar b \<Longrightarrow> room b (Suc n) \<Longrightarrow>
      send_object B oid gen payload sha b = (Inr r, b') \<Longrightarrow>
      invar b' \<and> room b' n \<and> stored b \<subseteq>\<^sub>m stored b' \<and>
      stored b' (ref_message_id r) = Some payload \<and> ref_object_id r = oid \<and>
      ref_generation r = gen \<and> ref_sha256 r = sha"
    and send_err: "invar b \<Longrightarrow> room b (Suc n) \<Longrightarrow>
      send_object B oid gen payload sha b = (Inl e, b') \<Longrightarrow>
      invar b' \<and> room b' n \<and> stored b \<subseteq>\<^sub>m stored b'"
    and fetch: "invar b \<Longrightarrow> fetch_object B r b = (x, b') \<Longrightarrow>
      invar b' \<and> room b' = room b \<and> stored b' = stored b \<and>
      (\<forall>bs. x = Inr bs \<longrightarrow> stored b (ref_message_id r) = Some bs)"
    and get_messages: "invar b \<Longrightarrow> get_messages_by_id B ids b = (y, b') \<Longrightarrow>
      invar b' \<and> room b' = room b \<and> stored b' = stored b \<and>
      (\<forall>ms. y = Inr ms \<longrightarrow> (\<forall>(i, m) \<in> set (zip ids ms). \<forall>bs. m = Some bs \<longrightarrow> stored b i = Some bs))"
    and room_Suc: "room b (Suc n) \<Longrightarrow> room b n"
begin

lemma room_le: "room b n \<Longrightarrow> k \<le> n \<Longrightarrow> room b k"
  by (induction n) (auto simp: le_Suc_eq dest: room_Suc)

lemma send_any:
  assumes "invar b" "room b (Suc n)" "send_object B oid gen payload sha b = (x, b')"
  shows "invar b' \<and> room b' n \<and> stored b \<subseteq>\<^sub>m stored b'"
  using assms send_ok [of b n oid gen payload sha _ b'] send_err [of b n oid gen payload sha _ b']
  by (cases x) auto

end

text \<open>A backend whose stored objects can be read, and one that also accepts uploads.\<close>

locale readable_backend = remote_backend B invar room stored
  for B :: "'b backend" and invar and room and stored +
  fixes L :: libs
  assumes fetch_live: "invar b \<Longrightarrow> stored b (ref_message_id r) = Some bs \<Longrightarrow>
      decode L bs (ref_object_id r) (ref_generation r) = Inr e \<Longrightarrow> sha256_hex L bs = ref_sha256 r \<Longrightarrow>
      \<exists>b'. fetch_object B r b = (Inr bs, b')"
    and get_messages_no_panic: "invar b \<Longrightarrow> get_messages_by_id B ids b \<noteq> (Inl (Panic msg), b')"

locale live_backend = readable_backend B invar room stored L
  for B :: "'b backend" and invar and room and stored and L +
  assumes send_live: "invar b \<Longrightarrow> room b (Suc n) \<Longrightarrow> decode L payload oid gen = Inr e \<Longrightarrow>
      \<exists>r b'. send_object B oid gen payload sha b = (Inr r, b')"

section \<open>The in-memory backend satisfies it\<close>

lemma memory_add_i32:
  "memory_room b (Suc n) \<Longrightarrow> add_i32 L (mb_next_message_id b) 1 = Inr (mb_next_message_id b + 1) \<and>
     sint (mb_next_message_id b + 1) = sint (mb_next_message_id b) + 1"
proof -
  assume "memory_room b (Suc n)"
  then have "sint (mb_next_message_id b) + 1 < 2 ^ 31"
    by (simp add: memory_room_def)
  moreover have "- (2 ^ 31) \<le> sint (mb_next_message_id b)"
    using sint_ge [of "mb_next_message_id b"] by simp
  ultimately have "sint (mb_next_message_id b + 1) = sint (mb_next_message_id b) + 1"
    by (simp add: sint_word_ariths signed_take_bit_int_eq_self)
  then show ?thesis by (simp add: add_i32_def)
qed

lemma memory_send_eq:
  assumes "memory_room b (Suc n)"
  shows "memory_send_object L oid gen payload sha b =
    (Inr \<lparr>ref_chat_id = mb_chat_id b, ref_message_id = mb_next_message_id b, ref_object_id = oid,
          ref_generation = gen, ref_sha256 = sha\<rparr>,
     b\<lparr>mb_next_message_id := mb_next_message_id b + 1,
       mb_messages := (mb_messages b)(mb_next_message_id b \<mapsto> payload)\<rparr>)"
  using memory_add_i32 [OF assms, of L] by (simp add: memory_send_object_def Let_def)

lemma memory_next_fresh: "memory_invar b \<Longrightarrow> mb_messages b (mb_next_message_id b) = None"
  by (metis less_irrefl memory_invar_def)

lemma memory_after_send:
  fixes payload :: bytes
  assumes "memory_invar b" "memory_room b (Suc n)"
  defines "b' \<equiv> b\<lparr>mb_next_message_id := mb_next_message_id b + 1,
       mb_messages := (mb_messages b)(mb_next_message_id b \<mapsto> payload)\<rparr>"
  shows "memory_invar b'" "memory_room b' n" "mb_messages b \<subseteq>\<^sub>m mb_messages b'"
proof -
  note step = memory_add_i32 [OF assms(2), THEN conjunct2]
  show "memory_invar b'"
    using assms(1) step by (fastforce simp: memory_invar_def b'_def)
  show "memory_room b' n"
    using assms(2) step by (simp add: memory_room_def b'_def)
  show "mb_messages b \<subseteq>\<^sub>m mb_messages b'"
    using memory_next_fresh [OF assms(1)] by (auto simp: b'_def map_le_def)
qed

interpretation mem: remote_backend "memory_backend L" memory_invar memory_room mb_messages
proof
  fix b n oid gen payload sha and r :: RemoteObjectRef and b'
  assume b: "memory_invar b" "memory_room b (Suc n)"
    and "send_object (memory_backend L) oid gen payload sha b = (Inr r, b')"
  then show "memory_invar b' \<and> memory_room b' n \<and> mb_messages b \<subseteq>\<^sub>m mb_messages b' \<and>
      mb_messages b' (ref_message_id r) = Some payload \<and> ref_object_id r = oid \<and>
      ref_generation r = gen \<and> ref_sha256 r = sha"
    using memory_after_send [OF b, of payload] by (auto simp: memory_backend_def memory_send_eq)
next
  fix b n oid gen payload sha e b'
  assume "memory_invar b" "memory_room b (Suc n)"
    and "send_object (memory_backend L) oid gen payload sha b = (Inl e, b')"
  then show "memory_invar b' \<and> memory_room b' n \<and> mb_messages b \<subseteq>\<^sub>m mb_messages b'"
    by (simp add: memory_backend_def memory_send_eq)
next
  fix b r x b'
  assume "memory_invar b" "fetch_object (memory_backend L) r b = (x, b')"
  then show "memory_invar b' \<and> memory_room b' = memory_room b \<and> mb_messages b' = mb_messages b \<and>
      (\<forall>bs. x = Inr bs \<longrightarrow> mb_messages b (ref_message_id r) = Some bs)"
    by (auto simp: memory_backend_def memory_fetch_object_def ok_or_Inr_iff)
next
  fix b ids x b'
  assume "memory_invar b" "get_messages_by_id (memory_backend L) ids b = (x, b')"
  then show "memory_invar b' \<and> memory_room b' = memory_room b \<and> mb_messages b' = mb_messages b \<and>
      (\<forall>ms. x = Inr ms \<longrightarrow> (\<forall>(i, m) \<in> set (zip ids ms). \<forall>bs. m = Some bs \<longrightarrow> mb_messages b i = Some bs))"
    by (auto simp: memory_backend_def memory_get_messages_by_id_def zip_map2 set_zip)
next
  show "memory_room b (Suc n) \<Longrightarrow> memory_room b n" for b n
    by (simp add: memory_room_def)
qed

interpretation mem_live: live_backend "memory_backend L" memory_invar memory_room mb_messages L'
  by unfold_locales (simp_all add: memory_backend_def memory_send_eq memory_fetch_object_def
      memory_get_messages_by_id_def)

lemma memory_new_ok [simp]: "memory_invar (memory_new c)" "n < 2 ^ 31 - 1 \<Longrightarrow> memory_room (memory_new c) n"
  by (simp_all add: memory_invar_def memory_new_def memory_room_def)

end
