(* ===== verification/Cache.thy ===== *)
theory Cache
  imports Backend "HOL-Library.List_Lexorder" "HOL-Library.Char_ord"
begin

text \<open>
  The local store (\<open>crates/tgdrive-core/src/cache.rs\<close>): the SQLite tables as lists of rows in
  rowid order, the object files of the cache directory as a map from paths to contents, and one
  definition per method. A table's primary key is kept by what the statements do
  (\<open>INSERT OR REPLACE\<close> drops the row with the key and appends; a plain \<open>INSERT\<close> of a
  present key is an error and rolls its transaction back). Integers are stored as \<open>i64\<close>, so SQL
  comparisons read words with \<open>sint\<close>. The local disk and SQLite fail only where the code can
  see it: a missing file, a checksum that differs, a key that is present.
\<close>

section \<open>Rows and state\<close>

record manifest_row =
  mr_device_uuid :: "128 word"
  mr_generation :: i64
  mr_manifest_hash :: string
  mr_manifest_json :: bytes
  mr_updated_at :: string

record object_row =
  ob_object_id :: i64
  ob_generation :: i64
  ob_sha256 :: "string option"
  ob_zero :: bool

record remote_row =
  rr_object_id :: i64
  rr_chat_id :: i64
  rr_message_id :: i32
  rr_generation :: i64
  rr_sha256 :: string

record dirty_row =
  dr_object_id :: i64
  dr_generation :: i64
  dr_cache_path :: string
  dr_sha256 :: string
  dr_updated_at :: string

record wal_row =
  wr_id :: nat
  wr_object_id :: i64
  wr_offset :: i64
  wr_len :: i64
  wr_generation :: i64
  wr_sha256 :: string
  wr_created_at :: string

record cache_row =
  cr_object_id :: i64
  cr_generation :: i64
  cr_cache_path :: string
  cr_sha256 :: string
  cr_dirty :: bool
  cr_last_access_at :: string

record LocalStore =
  ls_cache_dir :: string
  ls_files :: "string \<rightharpoonup> bytes"
  ls_manifest_state :: "manifest_row option"
  ls_objects :: "object_row list"
  ls_remote_refs :: "remote_row list"
  ls_dirty_objects :: "dirty_row list"
  ls_wal_entries :: "wal_row list"
  ls_wal_next_id :: nat
  ls_cache_entries :: "cache_row list"
  ls_clock :: nat

record DirtyObject =
  do_object_id :: u64
  do_generation :: u64
  do_cache_path :: string
  do_sha256 :: string

record LocalStats =
  st_dirty_objects :: nat
  st_cache_entries :: nat
  st_wal_entries :: nat

section \<open>Opening\<close>

text \<open>
  \<open>open\<close> without a database: \<open>migrate\<close> creates the tables, all empty. The object files that lie in the
  cache directory, if there are any, stay there.
\<close>

definition store_open :: "string \<Rightarrow> (string \<rightharpoonup> bytes) \<Rightarrow> LocalStore" where
  "store_open cache_dir files =
     \<lparr>ls_cache_dir = cache_dir, ls_files = files, ls_manifest_state = None, ls_objects = [],
      ls_remote_refs = [], ls_dirty_objects = [], ls_wal_entries = [], ls_wal_next_id = 1,
      ls_cache_entries = [], ls_clock = 0\<rparr>"

definition now_text :: "libs \<Rightarrow> LocalStore \<Rightarrow> string" where
  "now_text L s = show_time L (now_utc L (ls_clock s))"

definition tick :: "LocalStore \<Rightarrow> LocalStore" where
  "tick s = s\<lparr>ls_clock := Suc (ls_clock s)\<rparr>"

section \<open>The manifest tables\<close>

definition object_row_of :: "ManifestObject \<Rightarrow> object_row" where
  "object_row_of x = \<lparr>ob_object_id = mo_object_id x, ob_generation = mo_generation x,
                      ob_sha256 = mo_sha256 x, ob_zero = mo_zero x\<rparr>"

definition remote_row_of :: "u64 \<Rightarrow> RemoteObjectRef \<Rightarrow> remote_row" where
  "remote_row_of oid r = \<lparr>rr_object_id = oid, rr_chat_id = ref_chat_id r,
     rr_message_id = ref_message_id r, rr_generation = ref_generation r, rr_sha256 = ref_sha256 r\<rparr>"

text \<open>The insert loop of the transaction, over the two emptied tables.\<close>

fun insert_objects ::
  "ManifestObject list \<Rightarrow> object_row list \<Rightarrow> remote_row list \<Rightarrow> (object_row list \<times> remote_row list) res" where
  "insert_objects [] os rs = Inr (os, rs)"
| "insert_objects (x # xs) os rs =
     (if mo_object_id x \<in> ob_object_id ` set os
      then Inl (SqlError ''UNIQUE constraint failed: objects.object_id'')
      else case mo_remote x of
        None \<Rightarrow> insert_objects xs (os @ [object_row_of x]) rs
      | Some r \<Rightarrow>
          if mo_object_id x \<in> rr_object_id ` set rs
          then Inl (SqlError ''UNIQUE constraint failed: remote_refs.object_id'')
          else insert_objects xs (os @ [object_row_of x]) (rs @ [remote_row_of (mo_object_id x) r]))"

text \<open>A transaction that fails is rolled back: an error leaves the store as it was.\<close>

definition replace_from_manifest :: "libs \<Rightarrow> Manifest \<Rightarrow> (LocalStore, unit) st" where
  "replace_from_manifest L m s =
     (case rbind (insert_objects (m_objects m) [] []) (\<lambda>tables.
           rbind (manifest_hash_hex L m) (\<lambda>hash.
           rbind (json_manifest L m) (\<lambda>json. Inr (tables, hash, json)))) of
        Inl e \<Rightarrow> (Inl e, s)
      | Inr ((os, rs), hash, json) \<Rightarrow>
          (Inr (), tick (s\<lparr>ls_objects := os, ls_remote_refs := rs,
             ls_manifest_state := Some \<lparr>mr_device_uuid = m_device_uuid m,
               mr_generation = m_generation m, mr_manifest_hash = hash,
               mr_manifest_json = json, mr_updated_at = now_text L s\<rparr>\<rparr>)))"

definition load_manifest :: "libs \<Rightarrow> LocalStore \<Rightarrow> Manifest option res" where
  "load_manifest L s =
     (case ls_manifest_state s of
        None \<Rightarrow> Inr None
      | Some row \<Rightarrow> rbind (unjson_manifest L (mr_manifest_json row)) (\<lambda>m. Inr (Some m)))"

definition remote_ref :: "u64 \<Rightarrow> LocalStore \<Rightarrow> RemoteObjectRef option" where
  "remote_ref object_id s =
     map_option (\<lambda>row. \<lparr>ref_chat_id = rr_chat_id row, ref_message_id = rr_message_id row,
         ref_object_id = object_id, ref_generation = rr_generation row, ref_sha256 = rr_sha256 row\<rparr>)
       (find (\<lambda>row. rr_object_id row = object_id) (ls_remote_refs s))"

section \<open>Cache files\<close>

definition object_path :: "string \<Rightarrow> u64 \<Rightarrow> u64 \<Rightarrow> string" where
  "object_path cache_dir object_id generation =
     path_join (path_join cache_dir ''objects'') (hex16 object_id @ ''-'' @ hex16 generation @ ''.bin'')"

definition cache_path :: "LocalStore \<Rightarrow> u64 \<Rightarrow> u64 \<Rightarrow> string" where
  "cache_path s = object_path (ls_cache_dir s)"

definition upsert_cache_row :: "cache_row \<Rightarrow> cache_row list \<Rightarrow> cache_row list" where
  "upsert_cache_row row rows =
     filter (\<lambda>r. \<not> (cr_object_id r = cr_object_id row \<and> cr_generation r = cr_generation row)) rows @ [row]"

definition row_is_dirty :: "u64 \<Rightarrow> u64 \<Rightarrow> cache_row list \<Rightarrow> bool" where
  "row_is_dirty object_id generation rows =
     (case find (\<lambda>r. cr_object_id r = object_id \<and> cr_generation r = generation) rows of
        None \<Rightarrow> False | Some r \<Rightarrow> cr_dirty r)"

definition read_cache :: "libs \<Rightarrow> u64 \<Rightarrow> u64 \<Rightarrow> string \<Rightarrow> (LocalStore, bytes option) st" where
  "read_cache L object_id generation expected_sha s =
     (let path = cache_path s object_id generation in
      case ls_files s path of
        None \<Rightarrow> (Inr None, s)
      | Some bs \<Rightarrow>
          if sha256_hex L bs \<noteq> expected_sha
          then (Inl (Anyhow (''cache checksum mismatch for object '' @ show_nat (unat object_id))), s)
          else (Inr (Some bs), tick (s\<lparr>ls_cache_entries := upsert_cache_row
                  \<lparr>cr_object_id = object_id, cr_generation = generation, cr_cache_path = path,
                   cr_sha256 = expected_sha,
                   cr_dirty = row_is_dirty object_id generation (ls_cache_entries s),
                   cr_last_access_at = now_text L s\<rparr> (ls_cache_entries s)\<rparr>)))"

definition write_cache :: "libs \<Rightarrow> u64 \<Rightarrow> u64 \<Rightarrow> bytes \<Rightarrow> bool \<Rightarrow> (LocalStore, string) st" where
  "write_cache L object_id generation bs dirty s =
     (let path = cache_path s object_id generation;
          sha = sha256_hex L bs in
      (Inr sha, tick (s\<lparr>ls_files := (ls_files s)(path \<mapsto> bs),
         ls_cache_entries := upsert_cache_row
           \<lparr>cr_object_id = object_id, cr_generation = generation, cr_cache_path = path,
            cr_sha256 = sha, cr_dirty = dirty, cr_last_access_at = now_text L s\<rparr>
           (ls_cache_entries s)\<rparr>)))"

section \<open>Dirty objects and the write-ahead log\<close>

definition upsert_dirty_row :: "dirty_row \<Rightarrow> dirty_row list \<Rightarrow> dirty_row list" where
  "upsert_dirty_row row rows = filter (\<lambda>r. dr_object_id r \<noteq> dr_object_id row) rows @ [row]"

definition wal_touches :: "u64 \<Rightarrow> u64 \<Rightarrow> u64 \<Rightarrow> u64 \<Rightarrow> wal_row \<Rightarrow> bool" where
  "wal_touches object_id generation lo hi r \<longleftrightarrow>
     wr_object_id r = object_id \<and> wr_generation r = generation \<and>
     sint (wr_offset r) \<le> sint hi \<and> sint lo \<le> sint (wr_offset r) + sint (wr_len r)"

text \<open>The range that replaces every row it touches.\<close>

definition merged_range :: "wal_row list \<Rightarrow> u64 \<Rightarrow> u64 \<Rightarrow> u64 \<Rightarrow> u64 \<Rightarrow> u64 \<times> u64" where
  "merged_range rows object_id generation offset end_offset =
     (let touched = filter (wal_touches object_id generation offset end_offset) rows in
      if touched = [] then (offset, end_offset)
      else (min offset (word_of_int (Min (set (map (\<lambda>r. sint (wr_offset r)) touched)))),
            max end_offset (word_of_int (Max (set (map (\<lambda>r. sint (wr_offset r) + sint (wr_len r)) touched))))))"

definition mark_dirty ::
  "libs \<Rightarrow> u64 \<Rightarrow> u64 \<Rightarrow> string \<Rightarrow> string \<Rightarrow> u64 \<Rightarrow> u64 \<Rightarrow> (LocalStore, unit) st" where
  "mark_dirty L object_id generation path sha offset len =
     bnd (gets (now_text L)) (\<lambda>now.
     bnd (upd (\<lambda>s. tick (s\<lparr>ls_dirty_objects := upsert_dirty_row
            \<lparr>dr_object_id = object_id, dr_generation = generation, dr_cache_path = path,
             dr_sha256 = sha, dr_updated_at = now\<rparr> (ls_dirty_objects s)\<rparr>))) (\<lambda>_.
     bnd (lift (add_w L offset len)) (\<lambda>end_offset.
     bnd (gets (\<lambda>s. merged_range (ls_wal_entries s) object_id generation offset end_offset)) (\<lambda>merged.
     bnd (upd (\<lambda>s. s\<lparr>ls_wal_entries :=
            filter (\<lambda>r. \<not> wal_touches object_id generation (fst merged) (snd merged) r) (ls_wal_entries s)\<rparr>)) (\<lambda>_.
     bnd (lift (sub_w L (snd merged) (fst merged))) (\<lambda>merged_len.
     upd (\<lambda>s. s\<lparr>ls_wal_next_id := Suc (ls_wal_next_id s),
            ls_wal_entries := ls_wal_entries s @
              [\<lparr>wr_id = ls_wal_next_id s, wr_object_id = object_id, wr_offset = fst merged,
                wr_len = merged_len, wr_generation = generation, wr_sha256 = sha,
                wr_created_at = now\<rparr>]\<rparr>)))))))"

definition dirty_of_row :: "dirty_row \<Rightarrow> DirtyObject" where
  "dirty_of_row r = \<lparr>do_object_id = dr_object_id r, do_generation = dr_generation r,
                     do_cache_path = dr_cache_path r, do_sha256 = dr_sha256 r\<rparr>"

definition dirty_objects :: "LocalStore \<Rightarrow> DirtyObject list" where
  "dirty_objects s = map dirty_of_row (sort_key (\<lambda>r. sint (dr_object_id r)) (ls_dirty_objects s))"

definition dirty_object :: "u64 \<Rightarrow> LocalStore \<Rightarrow> DirtyObject option" where
  "dirty_object object_id s =
     map_option dirty_of_row (find (\<lambda>r. dr_object_id r = object_id) (ls_dirty_objects s))"

definition stats :: "LocalStore \<Rightarrow> LocalStats" where
  "stats s = \<lparr>st_dirty_objects = length (ls_dirty_objects s),
              st_cache_entries = length (ls_cache_entries s),
              st_wal_entries = length (ls_wal_entries s)\<rparr>"

definition wal_ranges :: "LocalStore \<Rightarrow> (u64 \<times> u64) list" where
  "wal_ranges s = map (\<lambda>r. (wr_offset r, wr_len r)) (sort_key (\<lambda>r. sint (wr_offset r)) (ls_wal_entries s))"

definition clear_dirty_and_wal :: "LocalStore \<Rightarrow> LocalStore" where
  "clear_dirty_and_wal s = s\<lparr>ls_dirty_objects := [], ls_wal_entries := [],
     ls_cache_entries := map (\<lambda>r. r\<lparr>cr_dirty := False\<rparr>) (ls_cache_entries s)\<rparr>"

section \<open>Eviction\<close>

text \<open>
  \<open>ORDER BY last_access_at ASC\<close> compares the stored texts, not the times they show; equal texts keep
  their rowid order.
\<close>

definition eviction_victims :: "nat \<Rightarrow> cache_row list \<Rightarrow> cache_row list" where
  "eviction_victims n rows = take n (sort_key cr_last_access_at (filter (\<lambda>r. \<not> cr_dirty r) rows))"

definition remove_files :: "string list \<Rightarrow> (string \<rightharpoonup> bytes) \<Rightarrow> (string \<rightharpoonup> bytes)" where
  "remove_files paths files = (\<lambda>p. if p \<in> set paths then None else files p)"

definition evict_clean_lru :: "nat \<Rightarrow> LocalStore \<Rightarrow> nat \<times> LocalStore" where
  "evict_clean_lru max_entries s =
     (let count = length (filter (\<lambda>r. \<not> cr_dirty r) (ls_cache_entries s)) in
      if count \<le> max_entries then (0, s)
      else
        let to_remove = count - max_entries;
            victims = eviction_victims to_remove (ls_cache_entries s) in
        (to_remove, s\<lparr>ls_files := remove_files (map cr_cache_path victims) (ls_files s),
           ls_cache_entries := filter (\<lambda>r. r \<notin> set victims) (ls_cache_entries s)\<rparr>))"

section \<open>Invariants\<close>

definition dirty_keys_ok :: "LocalStore \<Rightarrow> bool" where
  "dirty_keys_ok s \<longleftrightarrow> distinct (map dr_object_id (ls_dirty_objects s))"

definition cache_rows_ok :: "LocalStore \<Rightarrow> bool" where
  "cache_rows_ok s \<longleftrightarrow> distinct (map (\<lambda>r. (cr_object_id r, cr_generation r)) (ls_cache_entries s)) \<and>
     (\<forall>r\<in>set (ls_cache_entries s). cr_cache_path r = cache_path s (cr_object_id r) (cr_generation r))"

text \<open>The byte ranges the write-ahead log records, per object and generation.\<close>

definition wal_start :: "wal_row \<Rightarrow> int" where "wal_start r = sint (wr_offset r)"
definition wal_stop :: "wal_row \<Rightarrow> int" where "wal_stop r = sint (wr_offset r) + sint (wr_len r)"

definition wal_key :: "u64 \<Rightarrow> u64 \<Rightarrow> wal_row \<Rightarrow> bool" where
  "wal_key i g r \<longleftrightarrow> wr_object_id r = i \<and> wr_generation r = g"

definition wal_bounded :: "wal_row list \<Rightarrow> bool" where
  "wal_bounded rows \<longleftrightarrow> (\<forall>r\<in>set rows. 0 \<le> wal_start r \<and> wal_start r \<le> wal_stop r \<and> wal_stop r < 2 ^ 62)"

definition wal_separated :: "wal_row list \<Rightarrow> bool" where
  "wal_separated rows \<longleftrightarrow> (\<forall>r\<in>set rows. \<forall>q\<in>set rows.
     r \<noteq> q \<longrightarrow> wr_object_id r = wr_object_id q \<longrightarrow> wr_generation r = wr_generation q \<longrightarrow>
     wal_stop r < wal_start q \<or> wal_stop q < wal_start r)"

definition wal_ids_ok :: "LocalStore \<Rightarrow> bool" where
  "wal_ids_ok s \<longleftrightarrow> distinct (map wr_id (ls_wal_entries s)) \<and> (\<forall>r\<in>set (ls_wal_entries s). wr_id r < ls_wal_next_id s)"

definition wal_cover :: "u64 \<Rightarrow> u64 \<Rightarrow> wal_row list \<Rightarrow> int set" where
  "wal_cover i g rows = (\<Union>r\<in>{r \<in> set rows. wal_key i g r}. {wal_start r..<wal_stop r})"

definition wal_ok :: "LocalStore \<Rightarrow> bool" where
  "wal_ok s \<longleftrightarrow> wal_bounded (ls_wal_entries s) \<and> wal_separated (ls_wal_entries s) \<and> wal_ids_ok s"

definition dirty_row_of :: "libs \<Rightarrow> LocalStore \<Rightarrow> u64 \<Rightarrow> u64 \<Rightarrow> string \<Rightarrow> string \<Rightarrow> dirty_row" where
  "dirty_row_of L s i g path sha = \<lparr>dr_object_id = i, dr_generation = g, dr_cache_path = path,
     dr_sha256 = sha, dr_updated_at = now_text L s\<rparr>"

definition remote_rows :: "ManifestObject list \<Rightarrow> remote_row list" where
  "remote_rows xs = concat (map (\<lambda>x. case mo_remote x of None \<Rightarrow> [] | Some r \<Rightarrow> [remote_row_of (mo_object_id x) r]) xs)"

section \<open>Paths\<close>

lemma object_path_inj: "object_path d o1 g1 = object_path d o2 g2 \<longleftrightarrow> o1 = o2 \<and> g1 = g2"
proof -
  let ?n = "\<lambda>i g. hex16 i @ ''-'' @ hex16 g @ ''.bin''"
  have ne: "?n i g \<noteq> []" "hd (?n i g) \<noteq> CHR ''/''" for i g
    using length_hex16 [of i] hex_digits_hd [of 15 "unat i"]
    by (auto simp: hex16_def hd_append numeral_eq_Suc simp del: hex_digits.simps simp flip: length_0_conv)
  have "object_path d o1 g1 = object_path d o2 g2 \<longleftrightarrow> ?n o1 g1 = ?n o2 g2"
    unfolding object_path_def by (rule path_join_inj [OF ne ne])
  also have "\<dots> \<longleftrightarrow> o1 = o2 \<and> g1 = g2"
    by (auto simp: hex16_inj)
  finally show ?thesis .
qed

section \<open>Dirty rows\<close>

lemma dirty_object_upsert:
  "ls_dirty_objects s' = upsert_dirty_row r (ls_dirty_objects s) \<Longrightarrow>
   dirty_object j s' = (if j = dr_object_id r then Some (dirty_of_row r) else dirty_object j s)"
  by (simp add: dirty_object_def upsert_dirty_row_def find_upsert)

lemma dirty_keys_upsert:
  "dirty_keys_ok s \<Longrightarrow> ls_dirty_objects s' = upsert_dirty_row r (ls_dirty_objects s) \<Longrightarrow> dirty_keys_ok s'"
  by (auto simp: dirty_keys_ok_def upsert_dirty_row_def distinct_map_filter)

lemma mem_dirty_objects:
  assumes "dirty_keys_ok s"
  shows "d \<in> set (dirty_objects s) \<longleftrightarrow> dirty_object (do_object_id d) s = Some d"
  using find_distinct_key [OF assms [unfolded dirty_keys_ok_def]]
  by (auto simp: dirty_objects_def dirty_object_def dirty_of_row_def image_iff)

lemma distinct_dirty_objects: "dirty_keys_ok s \<Longrightarrow> distinct (map do_object_id (dirty_objects s))"
proof -
  assume "dirty_keys_ok s"
  then have "distinct (map dr_object_id (sort_key (\<lambda>r. sint (dr_object_id r)) (ls_dirty_objects s)))"
    by (simp add: dirty_keys_ok_def distinct_map)
  then show ?thesis by (simp add: dirty_objects_def dirty_of_row_def comp_def)
qed

lemma dirty_objects_empty_iff [simp]: "dirty_objects s = [] \<longleftrightarrow> ls_dirty_objects s = []"
  by (simp add: dirty_objects_def) (metis length_0_conv length_sort)

lemma dirty_object_None: "ls_dirty_objects s = [] \<Longrightarrow> dirty_object j s = None"
  by (simp add: dirty_object_def)

section \<open>Manifest tables\<close>

lemma row_keys [simp]:
  "ob_object_id (object_row_of x) = mo_object_id x" "rr_object_id (remote_row_of i r) = i"
  by (simp_all add: object_row_of_def remote_row_of_def)

lemma insert_objects_ok:
  "distinct (map mo_object_id xs) \<Longrightarrow> mo_object_id ` set xs \<inter> ob_object_id ` set os = {} \<Longrightarrow>
   rr_object_id ` set rs \<subseteq> ob_object_id ` set os \<Longrightarrow>
   insert_objects xs os rs = Inr (os @ map object_row_of xs, rs @ remote_rows xs)"
proof (induction xs arbitrary: os rs)
  case Nil
  then show ?case by (simp add: remote_rows_def)
next
  case (Cons x xs)
  have fresh: "mo_object_id x \<notin> ob_object_id ` set os" "mo_object_id x \<notin> rr_object_id ` set rs"
    using Cons.prems by auto
  have IH: "insert_objects xs (os @ [object_row_of x]) rs' = Inr ((os @ [object_row_of x]) @ map object_row_of xs, rs' @ remote_rows xs)"
    if "rr_object_id ` set rs' \<subseteq> insert (mo_object_id x) (ob_object_id ` set os)" for rs'
    using Cons.prems that by (intro Cons.IH) auto
  show ?case
  proof (cases "mo_remote x")
    case None
    moreover have "rr_object_id ` set rs \<subseteq> insert (mo_object_id x) (ob_object_id ` set os)"
      using Cons.prems(3) by blast
    ultimately show ?thesis using fresh IH [of rs] by (simp add: remote_rows_def)
  next
    case (Some r)
    moreover have "rr_object_id ` set (rs @ [remote_row_of (mo_object_id x) r]) \<subseteq>
        insert (mo_object_id x) (ob_object_id ` set os)"
      using Cons.prems(3) by auto
    ultimately show ?thesis using fresh IH [of "rs @ [remote_row_of (mo_object_id x) r]"]
      by (simp add: remote_rows_def)
  qed
qed

lemma insert_objects_dup:
  "\<not> distinct (map mo_object_id xs) \<Longrightarrow> \<exists>e. insert_objects xs os rs = Inl e"
proof -
  have "insert_objects xs os rs = Inr t \<Longrightarrow> distinct (map mo_object_id xs) \<and> mo_object_id ` set xs \<inter> ob_object_id ` set os = {}" for t
  proof (induction xs arbitrary: os rs)
    case (Cons x xs)
    then show ?case by (fastforce split: if_splits option.splits)
  qed simp
  then show "\<not> distinct (map mo_object_id xs) \<Longrightarrow> ?thesis"
    by (cases "insert_objects xs os rs") auto
qed

lemma insert_objects_iff:
  "insert_objects xs [] [] = Inr (os, rs) \<longleftrightarrow>
   distinct (map mo_object_id xs) \<and> os = map object_row_of xs \<and> rs = remote_rows xs"
  using insert_objects_ok [of xs "[]" "[]"] insert_objects_dup [of xs "[]" "[]"]
  by (cases "distinct (map mo_object_id xs)") auto

lemma find_remote_rows:
  "distinct (map mo_object_id xs) \<Longrightarrow>
   find (\<lambda>r. rr_object_id r = i) (remote_rows xs) =
   (case find (\<lambda>x. mo_object_id x = i) xs of None \<Rightarrow> None
    | Some x \<Rightarrow> map_option (remote_row_of i) (mo_remote x))"
proof (induction xs)
  case (Cons x xs)
  have none: "find (\<lambda>x. mo_object_id x = mo_object_id y) xs = None" if "mo_object_id y \<notin> mo_object_id ` set xs" for y
    using that by (force simp: find_None_iff)
  show ?case
    using Cons none [of x]
    by (auto simp: remote_rows_def split: option.splits)
qed (simp add: remote_rows_def)

lemma replace_from_manifest_cases:
  "replace_from_manifest L m s = (x, s') \<Longrightarrow>
   (x = Inr () \<and> distinct (map mo_object_id (m_objects m)) \<and>
     (\<exists>hash json. manifest_hash_hex L m = Inr hash \<and> json_manifest L m = Inr json \<and>
       s' = tick (s\<lparr>ls_objects := map object_row_of (m_objects m), ls_remote_refs := remote_rows (m_objects m),
             ls_manifest_state := Some \<lparr>mr_device_uuid = m_device_uuid m,
               mr_generation = m_generation m, mr_manifest_hash = hash,
               mr_manifest_json = json, mr_updated_at = now_text L s\<rparr>\<rparr>)))
   \<or> (\<exists>e. x = Inl e) \<and> s' = s"
  by (auto simp: replace_from_manifest_def rbind_Inr_iff insert_objects_iff split: sum.splits prod.splits)

lemma replace_from_manifest_ok:
  assumes "distinct (map mo_object_id (m_objects m))" "json_manifest L m = Inr json"
  shows "\<exists>s'. replace_from_manifest L m s = (Inr (), s')"
  using assms insert_objects_ok [of "m_objects m" "[]" "[]"]
  by (simp add: replace_from_manifest_def manifest_hash_hex_def)

section \<open>Write-ahead log\<close>

lemma touches_iff: "wal_touches i g lo hi r \<longleftrightarrow> wal_key i g r \<and> wal_start r \<le> sint hi \<and> sint lo \<le> wal_stop r"
  by (auto simp: wal_touches_def wal_key_def wal_start_def wal_stop_def)

lemma merged_range_alt:
  "merged_range rows i g lo hi = (let T = filter (wal_touches i g lo hi) rows in
     if T = [] then (lo, hi)
     else (min lo (word_of_int (Min (wal_start ` set T))), max hi (word_of_int (Max (wal_stop ` set T)))))"
  by (simp add: merged_range_def Let_def wal_start_def [abs_def] wal_stop_def [abs_def])

lemma wal_bounded_extrema:
  assumes "wal_bounded rows" "T \<subseteq> set rows" "T \<noteq> {}"
  shows "0 \<le> Min (wal_start ` T)" "Min (wal_start ` T) < 2 ^ 62"
    "0 \<le> Max (wal_stop ` T)" "Max (wal_stop ` T) < 2 ^ 62"
proof -
  have "finite T" using assms(2) finite_subset by blast
  then have "Min (wal_start ` T) \<in> wal_start ` T" "Max (wal_stop ` T) \<in> wal_stop ` T"
    using assms(3) by (auto intro!: Min_in Max_in)
  then obtain p q where "p \<in> T" "Min (wal_start ` T) = wal_start p" "q \<in> T" "Max (wal_stop ` T) = wal_stop q"
    by blast
  with assms(1,2) show "0 \<le> Min (wal_start ` T)" "Min (wal_start ` T) < 2 ^ 62"
    "0 \<le> Max (wal_stop ` T)" "Max (wal_stop ` T) < 2 ^ 62"
    by (force simp: wal_bounded_def)+
qed

text \<open>The merged range, and the rows it removes, in terms of the intervals.\<close>

lemma merged_range_spec:
  assumes ok: "wal_bounded rows" "wal_separated rows"
    and lo: "unat lo + unat len < 2 ^ 62" and hi: "hi = lo + len"
    and m: "merged_range rows i g lo hi = (lo', hi')"
  defines "T \<equiv> filter (wal_touches i g lo hi) rows"
  shows "filter (wal_touches i g lo' hi') rows = T \<and>
    {sint lo'..<sint hi'} = {sint lo..<sint hi} \<union> (\<Union>r\<in>set T. {wal_start r..<wal_stop r}) \<and>
    lo' \<le> hi' \<and> unat hi' < 2 ^ 62"
proof (cases "T = []")
  case True
  have "unat hi = unat lo + unat len" using lo by (simp add: hi unat_word_ariths)
  moreover have "lo' = lo" "hi' = hi" using m True by (simp_all add: merged_range_alt T_def Let_def)
  ultimately show ?thesis using True lo by (simp add: T_def word_le_nat_alt)
next
  case False
  let ?S = "{r \<in> set rows. wal_key i g r}"
  let ?a = "min (sint lo) (Min (wal_start ` set T))" and ?b = "max (sint hi) (Max (wal_stop ` set T))"
  have uhi: "unat hi = unat lo + unat len" using lo by (simp add: hi unat_word_ariths)
  have s: "sint lo = int (unat lo)" "sint hi = int (unat hi)" using lo uhi by (simp_all add: sint_small)
  have T: "set T = {r \<in> ?S. wal_start r \<le> sint hi \<and> sint lo \<le> wal_stop r}"
    by (auto simp: T_def touches_iff)
  have "set T \<subseteq> set rows" by (auto simp: T_def)
  moreover have "set T \<noteq> {}" using False by simp
  ultimately have sub: "set T \<subseteq> set rows" "set T \<noteq> {}" .
  note bd = wal_bounded_extrema [OF ok(1) sub]
  have l': "lo' = min lo (word_of_int (Min (wal_start ` set T)))"
    and h': "hi' = max hi (word_of_int (Max (wal_stop ` set T)))"
    using m False by (simp_all add: merged_range_alt T_def [symmetric] Let_def)
  have slo: "sint lo' = ?a" "unat lo' < 2 ^ 62" and shi: "sint hi' = ?b" "unat hi' < 2 ^ 62"
    using lo uhi unfolding l' h' by (intro min_max_word_of_int bd; simp)+
  have mt: "{r \<in> ?S. wal_start r \<le> ?b \<and> ?a \<le> wal_stop r} = set T"
    "{?a..<?b} = {sint lo..<sint hi} \<union> (\<Union>r\<in>set T. {wal_start r..<wal_stop r})" "?a \<le> ?b"
    using ok s uhi False
    by (intro merge_touched [where S = ?S] T; fastforce simp: wal_bounded_def wal_separated_def wal_key_def)+
  have "filter (wal_touches i g lo' hi') rows = T"
    unfolding T_def using mt(1) by (intro filter_cong refl) (auto simp: touches_iff slo shi T_def)
  moreover have "lo' \<le> hi'"
    unfolding le_iff_sint [OF slo(2) shi(2)] slo(1) shi(1) by (rule mt(3))
  ultimately show ?thesis using mt(2) shi slo by simp
qed


lemma wal_cover_snoc:
  "wal_cover i g (rows @ [r]) = wal_cover i g rows \<union> (if wal_key i g r then {wal_start r..<wal_stop r} else {})"
  by (auto simp: wal_cover_def)

lemma wal_cover_split:
  "wal_cover i g rows = wal_cover i g (filter (\<lambda>r. \<not> P r) rows) \<union> wal_cover i g (filter P rows)"
  by (auto simp: wal_cover_def)

lemma wal_cover_touching:
  "wal_cover i' g' (filter (wal_touches i g lo hi) rows) =
     (if i' = i \<and> g' = g then (\<Union>r\<in>set (filter (wal_touches i g lo hi) rows). {wal_start r..<wal_stop r}) else {})"
  by (auto simp: wal_cover_def touches_iff wal_key_def)

lemma mark_dirty_eq:
  fixes i g :: u64
  assumes ok: "wal_ok s" and b: "unat offset + unat len < 2 ^ 62"
  defines "rows \<equiv> ls_wal_entries s" and "m \<equiv> merged_range (ls_wal_entries s) i g offset (offset + len)"
  shows "mark_dirty L i g path sha offset len s = (Inr (), (tick s)
    \<lparr>ls_dirty_objects := upsert_dirty_row (dirty_row_of L s i g path sha) (ls_dirty_objects s),
     ls_wal_entries := filter (\<lambda>r. \<not> wal_touches i g offset (offset + len) r) rows @
       [\<lparr>wr_id = ls_wal_next_id s, wr_object_id = i, wr_offset = fst m, wr_len = snd m - fst m,
         wr_generation = g, wr_sha256 = sha, wr_created_at = now_text L s\<rparr>],
     ls_wal_next_id := Suc (ls_wal_next_id s)\<rparr>)"
proof -
  have "wal_bounded rows" "wal_separated rows" using ok by (simp_all add: wal_ok_def rows_def)
  from merged_range_spec [OF this b refl, of i g "fst m" "snd m"]
  have f: "filter (wal_touches i g (fst m) (snd m)) rows = filter (wal_touches i g offset (offset + len)) rows"
    and le: "fst m \<le> snd m" by (simp_all add: m_def rows_def)
  have "filter (\<lambda>r. \<not> wal_touches i g (fst m) (snd m) r) rows =
    filter (\<lambda>r. \<not> wal_touches i g offset (offset + len) r) rows"
    using filter_eq_mem [OF f] by (intro filter_cong refl) simp
  moreover have "add_w L offset len = Inr (offset + len)" using b by (intro add_w_Inr) simp
  moreover have "sub_w L (snd m) (fst m) = Inr (snd m - fst m)" using le by (simp add: sub_w_def)
  ultimately show ?thesis
    by (simp add: mark_dirty_def tick_def now_text_def dirty_row_of_def m_def rows_def)
qed

text \<open>What the log covers after a write, and that its ranges stay separated.\<close>

lemma mark_dirty_wal:
  assumes ok: "wal_ok s" and b: "unat offset + unat len < 2 ^ 62"
    and md: "mark_dirty L i g path sha offset len s = (x, s')"
  shows "wal_ok s'"
    and "wal_cover i g (ls_wal_entries s') =
      wal_cover i g (ls_wal_entries s) \<union> {int (unat offset)..<int (unat offset + unat len)}"
    and "\<not> (i' = i \<and> g' = g) \<Longrightarrow>
      wal_cover i' g' (ls_wal_entries s') = wal_cover i' g' (ls_wal_entries s)"
proof -
  let ?rows = "ls_wal_entries s"
  let ?fin = "offset + len"
  obtain lo hi where m: "merged_range ?rows i g offset ?fin = (lo, hi)" by force
  let ?T = "filter (wal_touches i g offset ?fin) ?rows"
  let ?keep = "filter (\<lambda>r. \<not> wal_touches i g offset ?fin r) ?rows"
  let ?new = "\<lparr>wr_id = ls_wal_next_id s, wr_object_id = i, wr_offset = lo, wr_len = hi - lo,
         wr_generation = g, wr_sha256 = sha, wr_created_at = now_text L s\<rparr>"
  have wb: "wal_bounded ?rows" and ws: "wal_separated ?rows" and ids: "wal_ids_ok s"
    using ok by (simp_all add: wal_ok_def)
  from merged_range_spec [OF wb ws b refl m] have
    f: "filter (wal_touches i g lo hi) ?rows = ?T"
    and un: "{sint lo..<sint hi} = {sint offset..<sint ?fin} \<union> (\<Union>r\<in>set ?T. {wal_start r..<wal_stop r})"
    and le: "lo \<le> hi" "unat hi < 2 ^ 62" by simp_all
  have s': "ls_wal_entries s' = ?keep @ [?new]" "ls_wal_next_id s' = Suc (ls_wal_next_id s)"
    using md mark_dirty_eq [OF ok b, of L i g path sha] by (auto simp: m)
  have ulo: "unat lo < 2 ^ 62" using le by (simp add: word_le_nat_alt)
  have "unat (hi - lo) = unat hi - unat lo" using le(1) by (simp add: unat_sub)
  then have new: "wal_start ?new = sint lo" "wal_stop ?new = sint hi" "0 \<le> sint lo" "sint lo \<le> sint hi" "sint hi < 2 ^ 62"
    using le ulo by (simp_all add: wal_start_def wal_stop_def sint_small word_le_nat_alt of_nat_diff del: of_nat_unat)
  have apart: "wal_stop r < wal_start ?new \<or> wal_stop ?new < wal_start r" if "r \<in> set ?keep" "wal_key i g r" for r
    using that filter_eq_mem [OF f, of r] unfolding new by (auto simp: touches_iff)
  show "wal_ok s'"
    unfolding wal_ok_def
  proof (intro conjI)
    show "wal_bounded (ls_wal_entries s')"
      using wb new by (auto simp: wal_bounded_def s' simp del: wal_row.simps)
    show "wal_separated (ls_wal_entries s')"
      using ws apart unfolding wal_separated_def s' by (auto simp: wal_key_def)
    show "wal_ids_ok s'"
      using ids by (auto simp: wal_ids_ok_def s' distinct_map_filter less_Suc_eq)
  qed
  have uend: "unat ?fin = unat offset + unat len"
    using b by (simp add: unat_word_ariths)
  have "sint offset = int (unat offset)" by (rule sint_small) (use b in linarith)
  moreover have "sint ?fin = int (unat offset + unat len)"
    using sint_small [of ?fin] b unfolding uend by linarith
  ultimately have un': "{sint lo..<sint hi} = {int (unat offset)..<int (unat offset + unat len)} \<union>
      (\<Union>r\<in>set ?T. {wal_start r..<wal_stop r})"
    using un by (simp only:)
  have key: "wal_key i' g' ?new \<longleftrightarrow> i' = i \<and> g' = g" for i' g' by (auto simp: wal_key_def)
  show "wal_cover i g (ls_wal_entries s') =
      wal_cover i g ?rows \<union> {int (unat offset)..<int (unat offset + unat len)}"
    unfolding s' wal_cover_snoc key new un'
      wal_cover_split [of i g ?rows "wal_touches i g offset ?fin"] wal_cover_touching
    by (simp add: Un_ac)
  assume n: "\<not> (i' = i \<and> g' = g)"
  show "wal_cover i' g' (ls_wal_entries s') = wal_cover i' g' ?rows"
    unfolding s' wal_cover_snoc key
      wal_cover_split [of i' g' ?rows "wal_touches i g offset ?fin"] wal_cover_touching if_not_P [OF n]
    by simp
qed

section \<open>Eviction\<close>

lemma upsert_cache_rows_ok:
  assumes "cache_rows_ok s" "ls_cache_dir s' = ls_cache_dir s"
    "ls_cache_entries s' = upsert_cache_row row (ls_cache_entries s)"
    "cr_cache_path row = cache_path s (cr_object_id row) (cr_generation row)"
  shows "cache_rows_ok s'"
  using assms by (auto simp: cache_rows_ok_def upsert_cache_row_def cache_path_def distinct_map_filter)

lemma evict_eq:
  assumes "length (filter (\<lambda>r. \<not> cr_dirty r) (ls_cache_entries s)) = c" "max_entries < c"
  defines "victims \<equiv> eviction_victims (c - max_entries) (ls_cache_entries s)"
  shows "evict_clean_lru max_entries s = (c - max_entries,
     s\<lparr>ls_files := remove_files (map cr_cache_path victims) (ls_files s),
       ls_cache_entries := filter (\<lambda>r. r \<notin> set victims) (ls_cache_entries s)\<rparr>)"
  using assms by (simp add: evict_clean_lru_def Let_def)

lemma victims_clean: "r \<in> set (eviction_victims n rows) \<Longrightarrow> r \<in> set rows \<and> \<not> cr_dirty r"
  by (auto simp: eviction_victims_def dest!: in_set_takeD)

lemma evict_counts:
  assumes ok: "cache_rows_ok s" and ev: "evict_clean_lru k s = (n, s')"
  shows "length (filter (\<lambda>r. \<not> cr_dirty r) (ls_cache_entries s')) =
      min k (length (filter (\<lambda>r. \<not> cr_dirty r) (ls_cache_entries s)))"
    and "n = length (filter (\<lambda>r. \<not> cr_dirty r) (ls_cache_entries s)) - k"
    and "filter cr_dirty (ls_cache_entries s') = filter cr_dirty (ls_cache_entries s)"
proof -
  let ?clean = "filter (\<lambda>r. \<not> cr_dirty r) (ls_cache_entries s)"
  let ?v = "eviction_victims (length ?clean - k) (ls_cache_entries s)"
  have d: "distinct (ls_cache_entries s)" using ok by (simp add: cache_rows_ok_def distinct_map)
  then have dv: "distinct ?v" by (simp add: eviction_victims_def distinct_take)
  have lv: "length ?v = length ?clean - k" by (simp add: eviction_victims_def)
  have sub: "set ?v \<subseteq> set ?clean" by (auto dest: victims_clean)
  have "filter (\<lambda>r. \<not> cr_dirty r) (filter (\<lambda>r. r \<notin> set ?v) (ls_cache_entries s)) = filter (\<lambda>r. r \<notin> set ?v) ?clean"
    by (simp add: conj_commute)
  moreover have "length (filter (\<lambda>r. r \<notin> set ?v) ?clean) = length ?clean - length ?v"
    using d dv sub by (intro length_filter_not_mem) simp_all
  moreover have "filter cr_dirty (filter (\<lambda>r. r \<notin> set ?v) (ls_cache_entries s)) = filter cr_dirty (ls_cache_entries s)"
    by (auto simp: conj_commute intro!: filter_cong dest: victims_clean)
  ultimately show "length (filter (\<lambda>r. \<not> cr_dirty r) (ls_cache_entries s')) = min k (length ?clean)"
    and "n = length ?clean - k" and "filter cr_dirty (ls_cache_entries s') = filter cr_dirty (ls_cache_entries s)"
    using ev lv evict_eq [OF refl, of k s]
    by (cases "length ?clean \<le> k"; auto simp: evict_clean_lru_def)+
qed

lemma evict_keeps_dirty_files:
  assumes ok: "cache_rows_ok s" and ev: "evict_clean_lru k s = (n, s')"
    and r: "r \<in> set (ls_cache_entries s)" "cr_dirty r"
  shows "ls_files s' (cr_cache_path r) = ls_files s (cr_cache_path r)"
proof (cases "length (filter (\<lambda>r. \<not> cr_dirty r) (ls_cache_entries s)) \<le> k")
  case True
  then show ?thesis using ev by (simp add: evict_clean_lru_def)
next
  case False
  let ?n = "length (filter (\<lambda>r. \<not> cr_dirty r) (ls_cache_entries s)) - k"
  let ?v = "eviction_victims ?n (ls_cache_entries s)"
  have "cr_cache_path r \<notin> cr_cache_path ` set ?v"
  proof
    assume "cr_cache_path r \<in> cr_cache_path ` set ?v"
    then obtain q where q: "q \<in> set ?v" "cr_cache_path q = cr_cache_path r" by auto
    have qc: "q \<in> set (ls_cache_entries s)" "\<not> cr_dirty q" using victims_clean [OF q(1)] by auto
    from q(2) have "cr_object_id q = cr_object_id r \<and> cr_generation q = cr_generation r"
      using ok r qc by (simp add: cache_rows_ok_def cache_path_def object_path_inj)
    then have "q = r"
      using ok r qc by (auto simp: cache_rows_ok_def distinct_map dest: inj_onD)
    with qc r show False by simp
  qed
  then show ?thesis
    using ev False evict_eq [OF refl, of k s] by (auto simp: remove_files_def)
qed

lemma evict_lru_order:
  assumes ok: "cache_rows_ok s" and ev: "evict_clean_lru k s = (n, s')"
    and r: "r \<in> set (ls_cache_entries s)" "r \<notin> set (ls_cache_entries s')"
    and q: "q \<in> set (ls_cache_entries s')" "\<not> cr_dirty q"
  shows "\<not> cr_dirty r \<and> cr_last_access_at r \<le> cr_last_access_at q"
proof -
  let ?clean = "filter (\<lambda>r. \<not> cr_dirty r) (ls_cache_entries s)"
  let ?n = "length ?clean - k" and ?sorted = "sort_key cr_last_access_at ?clean"
  have big: "\<not> length ?clean \<le> k" using ev r by (auto simp: evict_clean_lru_def)
  have s': "ls_cache_entries s' = filter (\<lambda>r. r \<notin> set (take ?n ?sorted)) (ls_cache_entries s)"
    using ev big by (auto simp: evict_clean_lru_def Let_def eviction_victims_def)
  then have rt: "r \<in> set (take ?n ?sorted)" using r by auto
  have "q \<in> set ?sorted" "q \<notin> set (take ?n ?sorted)" using q s' by auto
  then have qd: "q \<in> set (drop ?n ?sorted)" by (metis Un_iff append_take_drop_id set_append)
  have "sorted (map cr_last_access_at ?sorted)" by (rule sorted_sort_key)
  from sorted_take_drop_le [OF this rt qd] show ?thesis
    using in_set_takeD [OF rt] by simp
qed

lemma write_cache_rows_ok: "cache_rows_ok s \<Longrightarrow> cache_rows_ok (snd (write_cache L i g bs dirty s))"
  by (erule upsert_cache_rows_ok) (simp_all add: write_cache_def Let_def tick_def, simp)

lemma evict_rows_ok:
  assumes "cache_rows_ok s" "evict_clean_lru k s = (n, s')"
  shows "cache_rows_ok s'"
  using assms by (auto simp: cache_rows_ok_def evict_clean_lru_def Let_def cache_path_def distinct_map_filter split: if_splits)

section \<open>Properties of the local store\<close>

definition toy_dirty_store :: LocalStore where
  "toy_dirty_store = snd (mark_dirty (toy_libs True) 7 1 ''p'' ''h'' 0 4096 (store_open ''c'' Map.empty))"

text \<open>
  C22. The local database is a faithful copy of the manifest: replacing its tables from a manifest
  whose object ids are distinct always succeeds, the stored manifest loads back equal, the
  \<open>remote_refs\<close> table answers with the manifest's reference for every object, and dirty rows, log
  and cache files stay; a manifest with a repeated object id is refused and changes nothing.
\<close>

theorem manifest_store_round_trip:
  assumes "json_round_trips L"
  shows "if distinct (map mo_object_id (m_objects m))
    then \<exists>s'. replace_from_manifest L m s = (Inr (), s') \<and> load_manifest L s' = Inr (Some m) \<and>
      (\<forall>i. remote_ref i s' = (case find (\<lambda>x. mo_object_id x = i) (m_objects m) of None \<Rightarrow> None
         | Some x \<Rightarrow> map_option (\<lambda>r. r\<lparr>ref_object_id := i\<rparr>) (mo_remote x))) \<and>
      ls_dirty_objects s' = ls_dirty_objects s \<and> ls_wal_entries s' = ls_wal_entries s \<and>
      ls_cache_entries s' = ls_cache_entries s \<and> ls_files s' = ls_files s
    else \<exists>e. replace_from_manifest L m s = (Inl e, s)"
proof -
  obtain bs where j: "json_manifest L m = Inr bs" "unjson_manifest L bs = Inr m"
    using assms unfolding json_round_trips_def by blast
  show ?thesis
  proof (cases "distinct (map mo_object_id (m_objects m))")
    case True
    obtain s' where r: "replace_from_manifest L m s = (Inr (), s')" using replace_from_manifest_ok [OF True j(1)] by blast
    from replace_from_manifest_cases [OF r] j
    have s': "ls_remote_refs s' = remote_rows (m_objects m)" "load_manifest L s' = Inr (Some m)"
      "ls_dirty_objects s' = ls_dirty_objects s" "ls_wal_entries s' = ls_wal_entries s"
      "ls_cache_entries s' = ls_cache_entries s" "ls_files s' = ls_files s"
      by (auto simp: tick_def load_manifest_def)
    have upd: "\<lparr>ref_chat_id = ref_chat_id x, ref_message_id = ref_message_id x, ref_object_id = i,
      ref_generation = ref_generation x, ref_sha256 = ref_sha256 x\<rparr> = x\<lparr>ref_object_id := i\<rparr>" for x i by (cases x) simp
    have "remote_ref i s' = (case find (\<lambda>x. mo_object_id x = i) (m_objects m) of None \<Rightarrow> None
         | Some x \<Rightarrow> map_option (\<lambda>r. r\<lparr>ref_object_id := i\<rparr>) (mo_remote x))" for i
      by (simp add: remote_ref_def s'(1) find_remote_rows [OF True] remote_row_of_def option.map_comp comp_def upd split: option.split)
    then show ?thesis using True r s' by auto
  next
    case False
    then obtain e where "insert_objects (m_objects m) [] [] = Inl e" using insert_objects_dup by blast
    then show ?thesis using False by (simp add: replace_from_manifest_def)
  qed
qed

theorem manifest_store_round_trip_witness:
  "\<exists>s'. replace_from_manifest (toy_libs False) (manifest_empty 9 65536 2) (store_open ''c'' Map.empty) = (Inr (), s') \<and>
     load_manifest (toy_libs False) s' = Inr (Some (manifest_empty 9 65536 2))"
proof -
  have "distinct (map mo_object_id (m_objects (manifest_empty 9 65536 2)))"
    by (simp add: manifest_empty_def zero_object_def upt_rec)
  then show ?thesis
    using manifest_store_round_trip [of "toy_libs False" "manifest_empty 9 65536 2" "store_open ''c'' Map.empty"] by auto
qed

text \<open>
  C21. The write-ahead log is exact and coalesced: marking a range of an object dirty succeeds, adds
  exactly that range to the bytes the log covers for the object and generation, leaves every other
  object and generation alone, and keeps the recorded ranges of one object and generation pairwise
  separated by a gap.
\<close>

theorem wal_exact_and_coalesced:
  assumes "wal_ok s" "unat offset + unat len < 2 ^ 62"
  shows "\<exists>s'. mark_dirty L i g path sha offset len s = (Inr (), s') \<and> wal_ok s' \<and>
    wal_cover i g (ls_wal_entries s') =
      wal_cover i g (ls_wal_entries s) \<union> {int (unat offset)..<int (unat offset + unat len)} \<and>
    (\<forall>j h. (j, h) \<noteq> (i, g) \<longrightarrow> wal_cover j h (ls_wal_entries s') = wal_cover j h (ls_wal_entries s)) \<and>
    dirty_object i s' = Some \<lparr>do_object_id = i, do_generation = g, do_cache_path = path, do_sha256 = sha\<rparr>"
proof -
  obtain x s' where md: "mark_dirty L i g path sha offset len s = (x, s')" by force
  have x: "x = Inr ()" and d: "ls_dirty_objects s' = upsert_dirty_row (dirty_row_of L s i g path sha) (ls_dirty_objects s)"
    using md mark_dirty_eq [OF assms, of L i g path sha] by (auto simp: tick_def)
  have "dirty_object i s' = Some \<lparr>do_object_id = i, do_generation = g, do_cache_path = path, do_sha256 = sha\<rparr>"
    by (simp add: dirty_object_upsert [OF d]) (simp add: dirty_of_row_def dirty_row_of_def)
  moreover have "wal_cover j h (ls_wal_entries s') = wal_cover j h (ls_wal_entries s)" if "(j, h) \<noteq> (i, g)" for j h
    using that by (intro mark_dirty_wal(3) [OF assms md]) simp
  ultimately show ?thesis using mark_dirty_wal(1,2) [OF assms md] md x by blast
qed

theorem wal_exact_and_coalesced_witness:
  "\<exists>s'. mark_dirty (toy_libs True) 7 1 ''p'' ''h'' 4096 4096 toy_dirty_store = (Inr (), s') \<and>
     wal_cover 7 1 (ls_wal_entries s') = wal_cover 7 1 (ls_wal_entries toy_dirty_store) \<union> {4096..<8192}"
proof -
  have "wal_ok (store_open ''c'' Map.empty)"
    by (simp add: wal_ok_def wal_bounded_def wal_separated_def wal_ids_ok_def store_open_def)
  then have "wal_ok toy_dirty_store"
    unfolding toy_dirty_store_def
    by (rule mark_dirty_wal(1) [where offset = 0 and len = 4096 and x = "fst (mark_dirty (toy_libs True) 7 1 ''p'' ''h'' 0 4096 (store_open ''c'' Map.empty))"]) simp_all
  from wal_exact_and_coalesced [OF this, of 4096 4096] show ?thesis by fastforce
qed

text \<open>
  C23. Eviction by access text, sparing dirty data: it brings the number of clean cache entries down to
  the limit and reports how many it removed, the removed entries are clean and the texts of their
  last access are not greater than that of any clean entry that stays, and no dirty entry or its file
  goes. (The order is that of the texts; it is not the order of the times, as the next property shows.)
\<close>

theorem eviction_by_access_text:
  assumes "cache_rows_ok s" "evict_clean_lru k s = (n, s')"
  shows "length (filter (\<lambda>r. \<not> cr_dirty r) (ls_cache_entries s')) =
      min k (length (filter (\<lambda>r. \<not> cr_dirty r) (ls_cache_entries s))) \<and>
    n = length (filter (\<lambda>r. \<not> cr_dirty r) (ls_cache_entries s)) - k \<and>
    filter cr_dirty (ls_cache_entries s') = filter cr_dirty (ls_cache_entries s) \<and>
    (\<forall>r\<in>set (ls_cache_entries s). cr_dirty r \<longrightarrow> ls_files s' (cr_cache_path r) = ls_files s (cr_cache_path r)) \<and>
    (\<forall>r\<in>set (ls_cache_entries s) - set (ls_cache_entries s'). \<forall>q\<in>set (ls_cache_entries s').
       \<not> cr_dirty q \<longrightarrow> cr_last_access_at r \<le> cr_last_access_at q) \<and> cache_rows_ok s'"
  using evict_counts [OF assms] evict_keeps_dirty_files [OF assms] evict_lru_order [OF assms] evict_rows_ok [OF assms]
  by blast

definition toy_cache_store :: LocalStore where
  "toy_cache_store = snd (write_cache (toy_libs True) 3 1 [3] False (snd (write_cache (toy_libs True) 2 1 [2] False
     (snd (write_cache (toy_libs True) 1 1 [1] True (store_open ''c'' Map.empty))))))"

theorem eviction_by_access_text_witness:
  "\<exists>n s'. evict_clean_lru 1 toy_cache_store = (n, s') \<and> n = 1 \<and> cache_rows_ok toy_cache_store \<and>
     length (filter (\<lambda>r. \<not> cr_dirty r) (ls_cache_entries s')) = 1 \<and>
     map cr_object_id (filter cr_dirty (ls_cache_entries s')) = [1]"
proof -
  have "cache_rows_ok (store_open ''c'' Map.empty)" by (simp add: cache_rows_ok_def store_open_def)
  then have ok: "cache_rows_ok toy_cache_store"
    unfolding toy_cache_store_def by (intro write_cache_rows_ok)
  have "length (filter (\<lambda>r. \<not> cr_dirty r) (ls_cache_entries toy_cache_store)) = 2"
    "map cr_object_id (filter cr_dirty (ls_cache_entries toy_cache_store)) = [1]"
    by (simp_all add: toy_cache_store_def write_cache_def Let_def tick_def upsert_cache_row_def store_open_def)
  with eviction_by_access_text [OF ok, of 1 "fst (evict_clean_lru 1 toy_cache_store)" "snd (evict_clean_lru 1 toy_cache_store)"] ok
  show ?thesis by (cases "evict_clean_lru 1 toy_cache_store") simp
qed

text \<open>
  The display of a time: the date, a blank, the hour without padding, a colon and the rest. This is
  what the \<open>Display\<close> of \<open>OffsetDateTime\<close> writes; \<open>last_access_at\<close> stores it.
\<close>

definition hours_unpadded :: "libs \<Rightarrow> (int \<Rightarrow> string) \<Rightarrow> (int \<Rightarrow> nat) \<Rightarrow> (int \<Rightarrow> string) \<Rightarrow> bool" where
  "hours_unpadded L date hour rest \<longleftrightarrow> (\<forall>t. show_time L t = date t @ '' '' @ show_nat (hour t) @ '':'' @ rest t)"

lemma show_nat_1_digit: "n < 10 \<Longrightarrow> show_nat n = [digit n]"
  by (simp add: show_nat.simps)

lemma show_nat_2_digits: "10 \<le> n \<Longrightarrow> n < 100 \<Longrightarrow> show_nat n = [digit (n div 10), digit (n mod 10)]"
  by (simp add: show_nat.simps [of n] show_nat_1_digit)

lemma append_less_append: "xs @ ys < xs @ zs \<longleftrightarrow> ys < zs" for xs :: "'a :: order list"
  by (induction xs) auto

lemma unpadded_hours_reverse:
  assumes "hours_unpadded L date hour rest" "date t = date u" "2 \<le> hour t" "hour t \<le> 9" "10 \<le> hour u" "hour u \<le> 19"
  shows "show_time L u < show_time L t"
proof -
  have "hour u div 10 = 1" using assms(5,6) by (intro div_nat_eqI) simp_all
  then have "digit (hour u div 10) < digit (hour t)" using assms(3,4) by (simp add: digit_def less_char_def)
  then show ?thesis
    using assms by (simp add: hours_unpadded_def show_nat_1_digit show_nat_2_digits append_less_append)
qed

text \<open>
  C24. Eviction is not least-recently-used. The texts of the times have unpadded hours, so a time with
  a two-digit hour from 10 to 19 sorts before a time from 2 to 9 o'clock of the same day: of two objects
  cached one after the other across that boundary, eviction down to one entry removes the one that has
  been used last, with its file, and keeps the older one.
\<close>

theorem eviction_not_lru:
  assumes "hours_unpadded L date hour rest"
    and "date (now_utc L (ls_clock s)) = date (now_utc L (Suc (ls_clock s)))"
    and "hour (now_utc L (ls_clock s)) \<in> {2..9}" "hour (now_utc L (Suc (ls_clock s))) \<in> {10..19}"
    and "\<forall>r\<in>set (ls_cache_entries s). cr_dirty r" and "(i, g) \<noteq> (j, k)"
    and "write_cache L i g old False s = (x, s1)" "write_cache L j k recent False s1 = (y, s2)"
  shows "\<exists>s3. evict_clean_lru 1 s2 = (1, s3) \<and>
    ls_files s3 (cache_path s i g) = Some old \<and> ls_files s3 (cache_path s j k) = None \<and>
    map (\<lambda>r. (cr_object_id r, cr_generation r)) (filter (\<lambda>r. \<not> cr_dirty r) (ls_cache_entries s3)) = [(i, g)]"
proof -
  let ?row = "\<lambda>i g bs n. \<lparr>cr_object_id = i, cr_generation = g, cr_cache_path = cache_path s i g, cr_sha256 = sha256_hex L bs,
    cr_dirty = False, cr_last_access_at = show_time L (now_utc L n)\<rparr>"
  let ?ri = "?row i g old (ls_clock s)" and ?rj = "?row j k recent (Suc (ls_clock s))"
  have ne: "cache_path s i g \<noteq> cache_path s j k" "\<not> (i = j \<and> g = k)" using assms(6) by (auto simp: cache_path_def object_path_inj)
  have s1: "s1 = tick (s\<lparr>ls_files := (ls_files s)(cache_path s i g \<mapsto> old), ls_cache_entries := upsert_cache_row ?ri (ls_cache_entries s)\<rparr>)"
    using assms(7) by (simp add: write_cache_def Let_def now_text_def)
  have s2: "s2 = tick (s1\<lparr>ls_files := (ls_files s1)(cache_path s j k \<mapsto> recent), ls_cache_entries := upsert_cache_row ?rj (ls_cache_entries s1)\<rparr>)"
    using assms(8) by (simp add: write_cache_def Let_def now_text_def s1 tick_def cache_path_def)
  have rows: "ls_cache_entries s2 = filter (\<lambda>r. \<not> (cr_object_id r = j \<and> cr_generation r = k))
      (filter (\<lambda>r. \<not> (cr_object_id r = i \<and> cr_generation r = g)) (ls_cache_entries s)) @ [?ri, ?rj]"
    and files: "ls_files s2 = (ls_files s)(cache_path s i g \<mapsto> old, cache_path s j k \<mapsto> recent)"
    using ne(2) by (auto simp: s1 s2 tick_def upsert_cache_row_def)
  have clean: "filter (\<lambda>r. \<not> cr_dirty r) (ls_cache_entries s2) = [?ri, ?rj]"
    using assms(5) unfolding rows by (auto simp: filter_empty_conv)
  have lt: "cr_last_access_at ?rj < cr_last_access_at ?ri"
    using unpadded_hours_reverse [OF assms(1,2)] assms(3,4) by simp
  have v: "eviction_victims 1 (ls_cache_entries s2) = [?rj]"
    unfolding eviction_victims_def clean using lt by (auto simp: not_le)
  have "filter (\<lambda>r. \<not> cr_dirty r) (filter (\<lambda>r. r \<noteq> ?rj) (ls_cache_entries s2)) =
      filter (\<lambda>r. r \<noteq> ?rj) (filter (\<lambda>r. \<not> cr_dirty r) (ls_cache_entries s2))"
    unfolding filter_filter by (rule arg_cong [of _ _ "\<lambda>p. filter p _"]) auto
  then have "filter (\<lambda>r. \<not> cr_dirty r) (filter (\<lambda>r. r \<noteq> ?rj) (ls_cache_entries s2)) = [?ri]"
    unfolding clean using ne(2) by auto
  then show ?thesis
    using ne by (simp add: evict_clean_lru_def clean v [unfolded One_nat_def] files remove_files_def Let_def)
qed

text \<open>A clock that shows the first reading as half past nine and later readings as half past ten.\<close>

definition morning_libs :: libs where
  "morning_libs = (toy_libs True)\<lparr>now_utc := (\<lambda>n. if n = 0 then 34200 else 37800),
     show_time := (\<lambda>t. ''2024-05-01 '' @ show_nat (nat (t div 3600)) @ '':30:00.0 +00:00:00'')\<rparr>"

theorem eviction_not_lru_witness:
  "\<exists>s1 s2 s3. write_cache morning_libs 1 1 [1] False (store_open ''c'' Map.empty) = (Inr (sha256_hex morning_libs [1]), s1) \<and>
     write_cache morning_libs 2 1 [2] False s1 = (Inr (sha256_hex morning_libs [2]), s2) \<and>
     show_time morning_libs (now_utc morning_libs 0) = ''2024-05-01 9:30:00.0 +00:00:00'' \<and>
     show_time morning_libs (now_utc morning_libs 1) = ''2024-05-01 10:30:00.0 +00:00:00'' \<and>
     evict_clean_lru 1 s2 = (1, s3) \<and> ls_files s3 (cache_path s2 2 1) = None"
proof -
  let ?L = morning_libs and ?s = "store_open ''c'' Map.empty"
  have u: "hours_unpadded ?L (\<lambda>_. ''2024-05-01'') (\<lambda>t. nat (t div 3600)) (\<lambda>_. ''30:00.0 +00:00:00'')"
    by (simp add: hours_unpadded_def morning_libs_def)
  have now: "now_utc ?L 0 = 34200" "now_utc ?L (Suc 0) = 37800" by (simp_all add: morning_libs_def)
  have "show_nat 9 = ''9''" "show_nat 10 = ''10''" by code_simp+
  then have t: "show_time ?L 34200 = ''2024-05-01 9:30:00.0 +00:00:00''" "show_time ?L 37800 = ''2024-05-01 10:30:00.0 +00:00:00''"
    by (simp_all add: morning_libs_def)
  obtain s1 where w1: "write_cache ?L 1 1 [1] False ?s = (Inr (sha256_hex ?L [1]), s1)" "ls_cache_dir s1 = ''c''"
    by (simp add: write_cache_def Let_def tick_def store_open_def)
  obtain s2 where w2: "write_cache ?L 2 1 [2] False s1 = (Inr (sha256_hex ?L [2]), s2)" "ls_cache_dir s2 = ''c''"
    using w1(2) by (simp add: write_cache_def Let_def tick_def)
  have "ls_clock ?s = 0" "ls_cache_entries ?s = []" "cache_path ?s = cache_path s2"
    using w2(2) by (simp_all add: store_open_def cache_path_def fun_eq_iff)
  then show ?thesis
    using eviction_not_lru [OF u, of ?s 1 1 2 1 "[1]" _ s1 "[2]" _ s2] w1(1) w2(1) t by (auto simp: now)
qed

text \<open>
  The object cache returns what was written: after a write, reading the same object and
  generation with the returned checksum gives the bytes back, with any other checksum it is an
  error, and every other object and generation has the file it had.
\<close>

theorem cache_read_after_write:
  "\<exists>s' s''. write_cache L i g bs dirty s = (Inr (sha256_hex L bs), s') \<and>
     read_cache L i g (sha256_hex L bs) s' = (Inr (Some bs), s'') \<and>
     (\<forall>h. h \<noteq> sha256_hex L bs \<longrightarrow> (\<exists>e. read_cache L i g h s' = (Inl e, s'))) \<and>
     (\<forall>j k. (j, k) \<noteq> (i, g) \<longrightarrow> ls_files s' (cache_path s' j k) = ls_files s (cache_path s j k))"
  by (auto simp: write_cache_def read_cache_def Let_def tick_def cache_path_def object_path_inj)

theorem cache_read_after_write_witness:
  "\<exists>s' s''. write_cache (toy_libs True) 1 1 [1] True (store_open ''c'' Map.empty) = (Inr (sha256_hex (toy_libs True) [1]), s') \<and>
     read_cache (toy_libs True) 1 1 (sha256_hex (toy_libs True) [1]) s' = (Inr (Some [1]), s'')"
  using cache_read_after_write [of "toy_libs True" 1 1 "[1]" True "store_open ''c'' Map.empty"] by blast

end
