(* ===== verification/Block.thy ===== *)
theory Block
  imports Cache
begin

text \<open>
  The block device (\<open>crates/tgdrive-core/src/block.rs\<close>): offset arithmetic, reads with
  read-ahead, copy-on-write writes into dirty cache files, and the flush that uploads every dirty
  object, commits the manifest and clears the dirty set. A device is a record with the local
  store, the in-memory manifest and the backend's state; each method is a state transformer that
  returns its error together with the state the error leaves behind. The methods of one
  connection run one after the other (\<open>handle_client\<close> awaits each), so a method is one step here;
  \<open>Concurrent\<close> has the same methods cut at their locks, for connections that overlap.
\<close>

section \<open>Block map\<close>

record BlockMap =
  bm_device_size :: u64
  bm_logical_sector_size :: u32
  bm_object_size :: u32

definition block_map_new :: "u64 \<Rightarrow> u32 \<Rightarrow> u32 \<Rightarrow> BlockMap res" where
  "block_map_new device_size logical_sector_size object_size =
     rbind (ensure (is_multiple_of device_size (ucast logical_sector_size))
              (Anyhow ''device size must be sector aligned'')) (\<lambda>_.
     rbind (ensure (is_multiple_of object_size logical_sector_size)
              (Anyhow ''object size must be sector aligned'')) (\<lambda>_.
     Inr \<lparr>bm_device_size = device_size, bm_logical_sector_size = logical_sector_size,
          bm_object_size = object_size\<rparr>))"

definition object_count :: "BlockMap \<Rightarrow> u64 res" where
  "object_count m = div_ceil (bm_device_size m) (ucast (bm_object_size m))"

definition locate :: "BlockMap \<Rightarrow> u64 \<Rightarrow> (u64 \<times> nat) res" where
  "locate m offset =
     rbind (ensure (offset < bm_device_size m) (Anyhow ''offset out of bounds'')) (\<lambda>_.
     if bm_object_size m = 0 then Inl (Panic ''attempt to divide by zero'')
     else Inr (offset div ucast (bm_object_size m), unat (offset mod ucast (bm_object_size m))))"

section \<open>Metrics\<close>

record DeviceMetrics =
  dm_cache_hits :: u64
  dm_cache_misses :: u64
  dm_uploads :: u64
  dm_upload_ms_total :: u64
  dm_downloads :: u64
  dm_download_ms_total :: u64

definition metrics_default :: DeviceMetrics where
  "metrics_default = \<lparr>dm_cache_hits = 0, dm_cache_misses = 0, dm_uploads = 0,
     dm_upload_ms_total = 0, dm_downloads = 0, dm_download_ms_total = 0\<rparr>"

text \<open>\<open>fetch_add\<close> wraps around in every build.\<close>

definition record_upload :: "u64 \<Rightarrow> DeviceMetrics \<Rightarrow> DeviceMetrics" where
  "record_upload ms m = m\<lparr>dm_uploads := dm_uploads m + 1,
                          dm_upload_ms_total := dm_upload_ms_total m + ms\<rparr>"

definition record_download :: "u64 \<Rightarrow> DeviceMetrics \<Rightarrow> DeviceMetrics" where
  "record_download ms m = m\<lparr>dm_downloads := dm_downloads m + 1,
                            dm_download_ms_total := dm_download_ms_total m + ms\<rparr>"

section \<open>The device\<close>

record 'b BlockDevice =
  bd_map :: BlockMap
  bd_backend :: 'b
  bd_store :: LocalStore
  bd_manifest :: Manifest
  bd_metrics :: DeviceMetrics
  bd_committer :: "'b committer option"
  bd_max_dirty_objects :: nat
  bd_read_ahead_objects :: u64

definition device_new :: "BlockMap \<Rightarrow> 'b \<Rightarrow> LocalStore \<Rightarrow> Manifest \<Rightarrow> 'b BlockDevice" where
  "device_new bmap backend store manifest =
     \<lparr>bd_map = bmap, bd_backend = backend, bd_store = store, bd_manifest = manifest,
      bd_metrics = metrics_default, bd_committer = None, bd_max_dirty_objects = 4096,
      bd_read_ahead_objects = 4\<rparr>"

definition with_committer :: "'b committer \<Rightarrow> 'b BlockDevice \<Rightarrow> 'b BlockDevice" where
  "with_committer c d = d\<lparr>bd_committer := Some c\<rparr>"

text \<open>Running a store or backend operation inside the device.\<close>

definition on_store :: "(LocalStore, 'a) st \<Rightarrow> ('b BlockDevice, 'a) st" where
  "on_store m d = (case m (bd_store d) of (x, s) \<Rightarrow> (x, d\<lparr>bd_store := s\<rparr>))"

definition on_backend :: "('b, 'a) st \<Rightarrow> ('b BlockDevice, 'a) st" where
  "on_backend m d = (case m (bd_backend d) of (x, b) \<Rightarrow> (x, d\<lparr>bd_backend := b\<rparr>))"

definition on_metrics :: "(DeviceMetrics \<Rightarrow> DeviceMetrics) \<Rightarrow> ('b BlockDevice, unit) st" where
  "on_metrics f = upd (\<lambda>d. d\<lparr>bd_metrics := f (bd_metrics d)\<rparr>)"

definition device_elapsed :: "libs \<Rightarrow> 'b BlockDevice \<Rightarrow> u64" where
  "device_elapsed L d = elapsed_ms L (ls_clock (bd_store d))"

definition read_file :: "string \<Rightarrow> ('b BlockDevice, bytes) st" where
  "read_file path d = (ok_or (ls_files (bd_store d) path) (IoError ''No such file or directory''), d)"

definition find_object :: "u64 \<Rightarrow> Manifest \<Rightarrow> ManifestObject option" where
  "find_object i m = find (\<lambda>x. mo_object_id x = i) (m_objects m)"

definition pad_object :: "bytes \<Rightarrow> nat \<Rightarrow> bytes" where
  "pad_object payload n = resize n 0 payload"

definition device_object_size :: "'b BlockDevice \<Rightarrow> nat" where
  "device_object_size d = unat (bm_object_size (bd_map d))"

section \<open>Reading an object\<close>

definition read_dirty :: "libs \<Rightarrow> u64 \<Rightarrow> DirtyObject \<Rightarrow> ('b BlockDevice, bytes) st" where
  "read_dirty L object_id dirty =
     bnd (read_file (do_cache_path dirty)) (\<lambda>encoded.
     bnd (lift (ensure (sha256_hex L encoded = do_sha256 dirty)
            (Anyhow (''dirty cache checksum mismatch for object '' @ show_nat (unat object_id))))) (\<lambda>_.
     bnd (lift (decode L encoded object_id (do_generation dirty))) (\<lambda>envelope.
     gets (\<lambda>d. pad_object (env_payload envelope) (device_object_size d)))))"

definition read_remote :: "libs \<Rightarrow> 'b backend \<Rightarrow> u64 \<Rightarrow> u64 \<Rightarrow> RemoteObjectRef \<Rightarrow> string \<Rightarrow> ('b BlockDevice, bytes) st" where
  "read_remote L B object_id generation remote sha =
     bnd (on_metrics (\<lambda>m. m\<lparr>dm_cache_misses := dm_cache_misses m + 1\<rparr>)) (\<lambda>_.
     bnd (on_backend (fetch_object B remote)) (\<lambda>encoded.
     bnd (gets (device_elapsed L)) (\<lambda>ms.
     bnd (on_metrics (record_download ms)) (\<lambda>_.
     bnd (lift (ensure (sha256_hex L encoded = sha)
            (Anyhow (''remote checksum mismatch for object '' @ show_nat (unat object_id))))) (\<lambda>_.
     bnd (on_store (write_cache L object_id generation encoded False)) (\<lambda>_.
     bnd (lift (decode L encoded object_id generation)) (\<lambda>envelope.
     gets (\<lambda>d. pad_object (env_payload envelope) (device_object_size d)))))))))"

definition read_clean :: "libs \<Rightarrow> 'b backend \<Rightarrow> u64 \<Rightarrow> ManifestObject \<Rightarrow> ('b BlockDevice, bytes) st" where
  "read_clean L B object_id entry =
     (if mo_zero entry then gets (\<lambda>d. replicate (device_object_size d) 0)
      else
        bnd (lift (ok_or (mo_remote entry)
               (Anyhow (''object '' @ show_nat (unat object_id) @ '' has no remote ref'')))) (\<lambda>remote.
        bnd (lift (ok_or (mo_sha256 entry)
               (Anyhow (''object '' @ show_nat (unat object_id) @ '' has no checksum'')))) (\<lambda>sha.
        bnd (on_store (read_cache L object_id (mo_generation entry) sha)) (\<lambda>cached.
        case cached of
          Some bs \<Rightarrow>
            bnd (on_metrics (\<lambda>m. m\<lparr>dm_cache_hits := dm_cache_hits m + 1\<rparr>)) (\<lambda>_.
            bnd (lift (decode L bs object_id (mo_generation entry))) (\<lambda>envelope.
            gets (\<lambda>d. pad_object (env_payload envelope) (device_object_size d))))
        | None \<Rightarrow> read_remote L B object_id (mo_generation entry) remote sha))))"

definition read_object :: "libs \<Rightarrow> 'b backend \<Rightarrow> u64 \<Rightarrow> ('b BlockDevice, bytes) st" where
  "read_object L B object_id =
     bnd (gets (\<lambda>d. dirty_object object_id (bd_store d))) (\<lambda>dirty.
     case dirty of
       Some x \<Rightarrow> read_dirty L object_id x
     | None \<Rightarrow>
         bnd (gets (\<lambda>d. find_object object_id (bd_manifest d))) (\<lambda>found.
         bnd (lift (ok_or found
                (Anyhow (''object '' @ show_nat (unat object_id) @ '' out of manifest range'')))) (\<lambda>entry.
         read_clean L B object_id entry)))"

section \<open>Read-ahead\<close>

type_synonym prefetch_entry = "u64 \<times> u64 \<times> string \<times> RemoteObjectRef"

fun prefetch_scan :: "libs \<Rightarrow> u64 list \<Rightarrow> u64 list \<Rightarrow> ('b BlockDevice, prefetch_entry list) st" where
  "prefetch_scan L dirty_ids [] = ret []"
| "prefetch_scan L dirty_ids (i # ids) =
     (if i \<in> set dirty_ids then prefetch_scan L dirty_ids ids
      else bnd (gets (\<lambda>d. find_object i (bd_manifest d))) (\<lambda>found.
        case found of
          None \<Rightarrow> ret []
        | Some entry \<Rightarrow>
            if mo_zero entry then prefetch_scan L dirty_ids ids
            else case (mo_remote entry, mo_sha256 entry) of
              (Some remote, Some sha) \<Rightarrow>
                bnd (on_store (read_cache L i (mo_generation entry) sha)) (\<lambda>cached.
                case cached of
                  Some _ \<Rightarrow>
                    bnd (on_metrics (\<lambda>m. m\<lparr>dm_cache_hits := dm_cache_hits m + 1\<rparr>)) (\<lambda>_.
                    prefetch_scan L dirty_ids ids)
                | None \<Rightarrow>
                    bnd (prefetch_scan L dirty_ids ids) (\<lambda>rest.
                    ret ((i, mo_generation entry, sha, remote) # rest)))
            | _ \<Rightarrow> prefetch_scan L dirty_ids ids))"

fun prefetch_store :: "libs \<Rightarrow> (prefetch_entry \<times> bytes option) list \<Rightarrow> ('b BlockDevice, unit) st" where
  "prefetch_store L [] = ret ()"
| "prefetch_store L (((i, g, sha, remote), None) # rest) = prefetch_store L rest"
| "prefetch_store L (((i, g, sha, remote), Some encoded) # rest) =
     (if sha256_hex L encoded \<noteq> sha then prefetch_store L rest
      else case decode L encoded i g of
        Inr _ \<Rightarrow> bnd (on_store (write_cache L i g encoded False)) (\<lambda>_. prefetch_store L rest)
      | Inl (Panic msg) \<Rightarrow> fail (Panic msg)
      | Inl _ \<Rightarrow> prefetch_store L rest)"

definition prefetch_objects :: "libs \<Rightarrow> 'b backend \<Rightarrow> u64 \<Rightarrow> u64 \<Rightarrow> ('b BlockDevice, unit) st" where
  "prefetch_objects L B start ahead =
     bnd (gets (\<lambda>d. map do_object_id (dirty_objects (bd_store d)))) (\<lambda>dirty_ids.
     bnd (prefetch_scan L dirty_ids
            (map of_nat [unat start..<unat (saturating_add start ahead)])) (\<lambda>entries.
     if entries = [] then ret ()
     else
       bnd (on_metrics (\<lambda>m. m\<lparr>dm_cache_misses := dm_cache_misses m + of_nat (length entries)\<rparr>)) (\<lambda>_.
       bnd (on_backend (get_messages_by_id B (map (\<lambda>(_, _, _, remote). ref_message_id remote) entries))) (\<lambda>messages.
       bnd (gets (device_elapsed L)) (\<lambda>ms.
       bnd (on_metrics (record_download ms)) (\<lambda>_.
       prefetch_store L (zip entries messages)))))))"

section \<open>Reading\<close>

lemma locate_offset_less:
  "locate m offset = Inr (i, off) \<Longrightarrow> off < unat (bm_object_size m)"
proof -
  assume "locate m offset = Inr (i, off)"
  then have nz: "bm_object_size m \<noteq> 0" and off: "off = unat (offset mod ucast (bm_object_size m))"
    by (auto simp: locate_def rbind_Inr_iff split: if_splits)
  have "0 < unat (bm_object_size m)"
    using nz by (simp add: unat_gt_0)
  then show ?thesis
    by (simp add: off unat_mod_distrib)
qed

function read_loop ::
  "libs \<Rightarrow> 'b backend \<Rightarrow> nat \<Rightarrow> u64 \<Rightarrow> bytes \<Rightarrow> ('b BlockDevice, bytes \<times> u64) st" where
  "read_loop L B remaining cursor out d =
     (if remaining = 0 then (Inr (out, cursor), d)
      else case locate (bd_map d) cursor of
        Inl e \<Rightarrow> (Inl e, d)
      | Inr (object_id, object_offset) \<Rightarrow>
          (let n = min remaining (unat (bm_object_size (bd_map d)) - object_offset) in
           case read_object L B object_id d of
             (Inl e, d') \<Rightarrow> (Inl e, d')
           | (Inr object, d') \<Rightarrow>
               if length object < object_offset + n
               then (Inl (Panic ''range end index out of range for slice''), d')
               else case add_w L cursor (of_nat n) of
                 Inl e \<Rightarrow> (Inl e, d')
               | Inr cursor' \<Rightarrow>
                   read_loop L B (remaining - n) cursor'
                     (out @ slice object_offset (object_offset + n) object) d'))"
  by pat_completeness auto
termination
  by (relation "measure (\<lambda>(L, B, remaining, cursor, out, d). remaining)")
    (auto dest: locate_offset_less)

declare read_loop.simps [simp del]

definition read_at :: "libs \<Rightarrow> 'b backend \<Rightarrow> u64 \<Rightarrow> nat \<Rightarrow> ('b BlockDevice, bytes) st" where
  "read_at L B offset len =
     bnd (lift (add_w L offset (of_nat len))) (\<lambda>end_offset.
     bnd (gets (\<lambda>d. ensure (end_offset \<le> bm_device_size (bd_map d)) (Anyhow ''read out of bounds''))) (\<lambda>check.
     bnd (lift check) (\<lambda>_.
     bnd (read_loop L B len offset []) (\<lambda>(out, cursor).
     bnd (gets (\<lambda>d. (cursor < bm_device_size (bd_map d), locate (bd_map d) cursor, bd_read_ahead_objects d)))
       (\<lambda>(inside, next, ahead).
     if inside then
       (case next of
          Inr (next_object_id, 0) \<Rightarrow>
            (\<lambda>d. case prefetch_objects L B next_object_id ahead d of
                   (Inl (Panic msg), d') \<Rightarrow> (Inl (Panic msg), d')
                 | (_, d') \<Rightarrow> (Inr out, d'))
        | _ \<Rightarrow> ret out)
     else ret out)))))"

section \<open>Writing\<close>

definition write_dirty_object ::
  "libs \<Rightarrow> u64 \<Rightarrow> bytes \<Rightarrow> u64 \<Rightarrow> u64 \<Rightarrow> ('b BlockDevice, unit) st" where
  "write_dirty_object L object_id object offset len =
     bnd (gets (\<lambda>d. resize (device_object_size d) 0 object)) (\<lambda>object.
     bnd (gets (\<lambda>d. ensure (st_dirty_objects (stats (bd_store d)) < bd_max_dirty_objects d)
                     (Anyhow ''dirty object backpressure limit reached''))) (\<lambda>check.
     bnd (lift check) (\<lambda>_.
     bnd (gets (\<lambda>d. m_generation (bd_manifest d))) (\<lambda>current.
     bnd (lift (add_w L current 1)) (\<lambda>generation.
     bnd (gets (\<lambda>d. encode L \<lparr>env_object_id = object_id, env_generation = generation,
            env_object_size = bm_object_size (bd_map d), env_flags = 0, env_payload = object\<rparr>)) (\<lambda>encoded.
     bnd (on_store (write_cache L object_id generation encoded True)) (\<lambda>sha.
     bnd (gets (\<lambda>d. cache_path (bd_store d) object_id generation)) (\<lambda>path.
     on_store (mark_dirty L object_id generation path sha offset len)))))))))"

function write_loop ::
  "libs \<Rightarrow> 'b backend \<Rightarrow> bytes \<Rightarrow> nat \<Rightarrow> nat \<Rightarrow> u64 \<Rightarrow> ('b BlockDevice, unit) st" where
  "write_loop L B bs remaining input_offset cursor d =
     (if remaining = 0 then (Inr (), d)
      else case locate (bd_map d) cursor of
        Inl e \<Rightarrow> (Inl e, d)
      | Inr (object_id, object_offset) \<Rightarrow>
          (let size = unat (bm_object_size (bd_map d));
               n = min remaining (size - object_offset);
               full_object = (object_offset = 0 \<and> n = size) in
           case (if full_object then (Inr (replicate size 0), d) else read_object L B object_id d) of
             (Inl e, d') \<Rightarrow> (Inl e, d')
           | (Inr object, d') \<Rightarrow>
               if length object < object_offset + n
               then (Inl (Panic ''range end index out of range for slice''), d')
               else case write_dirty_object L object_id
                      (splice_at object_offset (slice input_offset (input_offset + n) bs) object)
                      (of_nat object_offset) (of_nat n) d' of
                 (Inl e, d'') \<Rightarrow> (Inl e, d'')
               | (Inr _, d'') \<Rightarrow>
                   (case add_w L cursor (of_nat n) of
                      Inl e \<Rightarrow> (Inl e, d'')
                    | Inr cursor' \<Rightarrow> write_loop L B bs (remaining - n) (input_offset + n) cursor' d'')))"
  by pat_completeness auto
termination
  by (relation "measure (\<lambda>(L, B, bs, remaining, input_offset, cursor, d). remaining)")
    (auto dest: locate_offset_less)

declare write_loop.simps [simp del]

definition write_at :: "libs \<Rightarrow> 'b backend \<Rightarrow> u64 \<Rightarrow> bytes \<Rightarrow> ('b BlockDevice, unit) st" where
  "write_at L B offset bs =
     bnd (lift (add_w L offset (of_nat (length bs)))) (\<lambda>end_offset.
     bnd (gets (\<lambda>d. ensure (end_offset \<le> bm_device_size (bd_map d)) (Anyhow ''write out of bounds''))) (\<lambda>check.
     bnd (lift check) (\<lambda>_.
     write_loop L B bs (length bs) 0 offset)))"

section \<open>Flushing\<close>

text \<open>The entry update of the upload loop: the old remote reference becomes garbage.\<close>

definition position_of :: "u64 \<Rightarrow> ManifestObject list \<Rightarrow> nat option" where
  "position_of i xs = (let k = length (takeWhile (\<lambda>x. mo_object_id x \<noteq> i) xs) in
     if k < length xs then Some k else None)"

definition commit_entry :: "nat \<Rightarrow> u64 \<Rightarrow> RemoteObjectRef \<Rightarrow> string \<Rightarrow> Manifest \<Rightarrow> Manifest" where
  "commit_entry idx generation remote sha m =
     (let entry = m_objects m ! idx in
      m\<lparr>m_garbage := m_garbage m @ (case mo_remote entry of None \<Rightarrow> [] | Some old \<Rightarrow> [old]),
        m_objects := (m_objects m)[idx := entry\<lparr>mo_generation := generation,
          mo_remote := Some remote, mo_sha256 := Some sha, mo_zero := False\<rparr>]\<rparr>)"

definition upload_dirty :: "libs \<Rightarrow> 'b backend \<Rightarrow> DirtyObject \<Rightarrow> ('b BlockDevice, unit) st" where
  "upload_dirty L B dirty =
     bnd (read_file (do_cache_path dirty)) (\<lambda>encoded.
     bnd (lift (decode L encoded (do_object_id dirty) (do_generation dirty))) (\<lambda>_.
     bnd (lift (ensure (sha256_hex L encoded = do_sha256 dirty) (Anyhow ''dirty cache checksum mismatch''))) (\<lambda>_.
     bnd (on_backend (send_object B (do_object_id dirty) (do_generation dirty) encoded (sha256_hex L encoded))) (\<lambda>remote.
     bnd (gets (device_elapsed L)) (\<lambda>ms.
     bnd (on_metrics (record_upload ms)) (\<lambda>_.
     bnd (gets (\<lambda>d. position_of (do_object_id dirty) (m_objects (bd_manifest d)))) (\<lambda>position.
     bnd (lift (ok_or position
            (Anyhow (''manifest missing object '' @ show_nat (unat (do_object_id dirty)))))) (\<lambda>idx.
     upd (\<lambda>d. d\<lparr>bd_manifest :=
       commit_entry idx (do_generation dirty) remote (sha256_hex L encoded) (bd_manifest d)\<rparr>)))))))))"

fun upload_all :: "libs \<Rightarrow> 'b backend \<Rightarrow> DirtyObject list \<Rightarrow> ('b BlockDevice, unit) st" where
  "upload_all L B [] = ret ()"
| "upload_all L B (x # xs) = bnd (upload_dirty L B x) (\<lambda>_. upload_all L B xs)"

definition run_committer :: "('b BlockDevice, unit) st" where
  "run_committer d =
     (case bd_committer d of
        None \<Rightarrow> (Inr (), d)
      | Some c \<Rightarrow> on_backend (c (bd_manifest d) (bm_device_size (bd_map d))
                     (bm_logical_sector_size (bd_map d)) (bm_object_size (bd_map d))) d)"

definition max_generation :: "DirtyObject list \<Rightarrow> u64" where
  "max_generation dirty = fold max (map do_generation dirty) 0"

definition flush :: "libs \<Rightarrow> 'b backend \<Rightarrow> ('b BlockDevice, unit) st" where
  "flush L B =
     bnd (gets (\<lambda>d. dirty_objects (bd_store d))) (\<lambda>dirty.
     if dirty = [] then ret ()
     else
       bnd (gets (\<lambda>d. m_generation (bd_manifest d))) (\<lambda>current.
       bnd (lift (add_w L current 1)) (\<lambda>_.
       bnd (upd (\<lambda>d. d\<lparr>bd_manifest := (bd_manifest d)\<lparr>m_generation := max_generation dirty\<rparr>\<rparr>)) (\<lambda>_.
       bnd (upload_all L B dirty) (\<lambda>_.
       bnd run_committer (\<lambda>_.
       bnd (gets bd_manifest) (\<lambda>manifest.
       bnd (on_store (replace_from_manifest L manifest)) (\<lambda>_.
       upd (\<lambda>d. d\<lparr>bd_store := clear_dirty_and_wal (bd_store d)\<rparr>)))))))))"

end
