(* ===== verification/BlockRel.thy ===== *)
theory BlockRel
  imports Block
begin

text \<open>
  What the block device stands for: \<open>dev_rel\<close> relates a device (local store, in-memory manifest,
  backend) to the disk it serves, a plain list of bytes. Every dirty object's file is a sealed
  envelope of its block, every other object is a hole or a stored message holding the sealed
  envelope of its block, and its cache file is absent or the same envelope. The frame lemmas say
  which changes of files, rows and messages keep the relation.
\<close>

section \<open>The abstract disk\<close>

definition block_of :: "nat \<Rightarrow> nat \<Rightarrow> bytes \<Rightarrow> bytes" where
  "block_of n i disk = slice (i * n) (i * n + n) disk"

definition sealed :: "libs \<Rightarrow> u32 \<Rightarrow> u64 \<Rightarrow> u64 \<Rightarrow> bytes \<Rightarrow> bytes" where
  "sealed L osz i g payload = encode L \<lparr>env_object_id = i, env_generation = g,
     env_object_size = osz, env_flags = 0, env_payload = payload\<rparr>"

definition dirty_ok :: "libs \<Rightarrow> u32 \<Rightarrow> LocalStore \<Rightarrow> DirtyObject \<Rightarrow> bytes \<Rightarrow> bool" where
  "dirty_ok L osz s x payload \<longleftrightarrow>
     do_cache_path x = cache_path s (do_object_id x) (do_generation x) \<and>
     ls_files s (do_cache_path x) = Some (sealed L osz (do_object_id x) (do_generation x) payload) \<and>
     do_sha256 x = sha256_hex L (sealed L osz (do_object_id x) (do_generation x) payload)"

definition entry_seal :: "libs \<Rightarrow> u32 \<Rightarrow> ManifestObject \<Rightarrow> bytes \<Rightarrow> bytes" where
  "entry_seal L osz x payload = sealed L osz (mo_object_id x) (mo_generation x) payload"

definition remote_ok :: "libs \<Rightarrow> u32 \<Rightarrow> (i32 \<rightharpoonup> bytes) \<Rightarrow> ManifestObject \<Rightarrow> bytes \<Rightarrow> bool" where
  "remote_ok L osz msgs x payload \<longleftrightarrow>
     (if mo_zero x then payload = replicate (unat osz) 0
      else \<exists>r. mo_remote x = Some r \<and> mo_sha256 x = Some (sha256_hex L (entry_seal L osz x payload)) \<and>
        msgs (ref_message_id r) = Some (entry_seal L osz x payload) \<and>
        ref_object_id r = mo_object_id x \<and> ref_generation r = mo_generation x \<and>
        ref_sha256 r = sha256_hex L (entry_seal L osz x payload))"

definition cached_ok :: "libs \<Rightarrow> u32 \<Rightarrow> LocalStore \<Rightarrow> ManifestObject \<Rightarrow> bytes \<Rightarrow> bool" where
  "cached_ok L osz s x payload \<longleftrightarrow> mo_zero x \<or>
     ls_files s (cache_path s (mo_object_id x) (mo_generation x)) \<in> {None, Some (entry_seal L osz x payload)}"

definition shape_ok :: "'b BlockDevice \<Rightarrow> bytes \<Rightarrow> bool" where
  "shape_ok d disk \<longleftrightarrow>
     0 < device_object_size d \<and> length (m_objects (bd_manifest d)) < 2 ^ 64 \<and>
     map mo_object_id (m_objects (bd_manifest d)) = map of_nat [0..<length (m_objects (bd_manifest d))] \<and>
     unat (bm_device_size (bd_map d)) \<le> length (m_objects (bd_manifest d)) * device_object_size d \<and>
     length disk = length (m_objects (bd_manifest d)) * device_object_size d"

definition store_ok :: "LocalStore \<Rightarrow> bool" where
  "store_ok s \<longleftrightarrow> wal_ok s \<and> dirty_keys_ok s \<and> cache_rows_ok s"

definition objects_ok :: "libs \<Rightarrow> (i32 \<rightharpoonup> bytes) \<Rightarrow> 'b BlockDevice \<Rightarrow> bytes \<Rightarrow> bool" where
  "objects_ok L msgs d disk \<longleftrightarrow>
     (\<forall>i x. dirty_object i (bd_store d) = Some x \<longrightarrow>
        unat i < length (m_objects (bd_manifest d)) \<and>
        dirty_ok L (bm_object_size (bd_map d)) (bd_store d) x (block_of (device_object_size d) (unat i) disk)) \<and>
     (\<forall>i < length (m_objects (bd_manifest d)). dirty_object (of_nat i) (bd_store d) = None \<longrightarrow>
        remote_ok L (bm_object_size (bd_map d)) msgs (m_objects (bd_manifest d) ! i)
          (block_of (device_object_size d) i disk) \<and>
        cached_ok L (bm_object_size (bd_map d)) (bd_store d) (m_objects (bd_manifest d) ! i)
          (block_of (device_object_size d) i disk) \<and>
        mo_generation (m_objects (bd_manifest d) ! i) \<le> m_generation (bd_manifest d)) \<and>
     (ls_dirty_objects (bd_store d) \<noteq> [] \<longrightarrow>
        m_generation (bd_manifest d) \<le> max_generation (dirty_objects (bd_store d)))"

definition dev_rel :: "libs \<Rightarrow> ('b \<Rightarrow> bool) \<Rightarrow> ('b \<Rightarrow> i32 \<rightharpoonup> bytes) \<Rightarrow> 'b BlockDevice \<Rightarrow> bytes \<Rightarrow> bool" where
  "dev_rel L invar stored d disk \<longleftrightarrow>
     shape_ok d disk \<and> store_ok (bd_store d) \<and> invar (bd_backend d) \<and>
     objects_ok L (stored (bd_backend d)) d disk"

text \<open>What a read may change: metrics, the clock, cache rows and cache files.\<close>

definition same_core :: "'b BlockDevice \<Rightarrow> 'b BlockDevice \<Rightarrow> bool" where
  "same_core d d' \<longleftrightarrow> bd_map d' = bd_map d \<and> bd_manifest d' = bd_manifest d \<and>
     bd_committer d' = bd_committer d \<and> bd_max_dirty_objects d' = bd_max_dirty_objects d \<and>
     bd_read_ahead_objects d' = bd_read_ahead_objects d \<and>
     ls_cache_dir (bd_store d') = ls_cache_dir (bd_store d) \<and>
     ls_manifest_state (bd_store d') = ls_manifest_state (bd_store d) \<and>
     ls_dirty_objects (bd_store d') = ls_dirty_objects (bd_store d) \<and>
     ls_wal_entries (bd_store d') = ls_wal_entries (bd_store d) \<and>
     ls_wal_next_id (bd_store d') = ls_wal_next_id (bd_store d)"

text \<open>A step of a read: the disk, the core and what the backend holds are as before.\<close>

definition kept :: "libs \<Rightarrow> ('b \<Rightarrow> bool) \<Rightarrow> ('b \<Rightarrow> nat \<Rightarrow> bool) \<Rightarrow> ('b \<Rightarrow> i32 \<rightharpoonup> bytes) \<Rightarrow> bytes \<Rightarrow>
    'b BlockDevice \<Rightarrow> 'b BlockDevice \<Rightarrow> bool" where
  "kept L invar room stored disk d d' \<longleftrightarrow> dev_rel L invar stored d' disk \<and> same_core d d' \<and>
     room (bd_backend d') = room (bd_backend d) \<and> stored (bd_backend d') = stored (bd_backend d)"

section \<open>Basic lemmas\<close>

lemma device_object_size_upd [simp]:
  "device_object_size (d\<lparr>bd_store := s\<rparr>) = device_object_size d"
  "device_object_size (d\<lparr>bd_metrics := m\<rparr>) = device_object_size d"
  "device_object_size (d\<lparr>bd_backend := b\<rparr>) = device_object_size d"
  "device_object_size (d\<lparr>bd_manifest := mf\<rparr>) = device_object_size d"
  by (simp_all add: device_object_size_def)

lemma dev_upd_commute:
  "d\<lparr>bd_backend := b, bd_metrics := m, bd_store := s\<rparr> = d\<lparr>bd_store := s, bd_metrics := m, bd_backend := b\<rparr>"
  by (cases d) simp

lemma same_core_refl [simp]: "same_core d d"
  by (simp add: same_core_def)

lemma same_core_trans: "same_core a b \<Longrightarrow> same_core b c \<Longrightarrow> same_core a c"
  by (simp add: same_core_def)

lemma kept_refl: "dev_rel L invar stored d disk \<Longrightarrow> kept L invar room stored disk d d"
  by (simp add: kept_def)

lemma kept_trans:
  "kept L invar room stored disk a b \<Longrightarrow> kept L invar room stored disk b c \<Longrightarrow> kept L invar room stored disk a c"
  by (auto simp: kept_def intro: same_core_trans)

lemma keptD:
  assumes "kept L invar room stored disk d d'"
  shows "dev_rel L invar stored d' disk" "same_core d d'" "bd_map d' = bd_map d" "bd_manifest d' = bd_manifest d"
    "device_object_size d' = device_object_size d" "bd_read_ahead_objects d' = bd_read_ahead_objects d"
    "bd_max_dirty_objects d' = bd_max_dirty_objects d" "dirty_object i (bd_store d') = dirty_object i (bd_store d)"
    "ls_dirty_objects (bd_store d') = ls_dirty_objects (bd_store d)"
  using assms by (auto simp: kept_def same_core_def device_object_size_def dirty_object_def)

lemma same_core_store:
  "same_core d d' \<Longrightarrow> dirty_object i (bd_store d') = dirty_object i (bd_store d) \<and>
     dirty_objects (bd_store d') = dirty_objects (bd_store d) \<and>
     cache_path (bd_store d') = cache_path (bd_store d) \<and> device_object_size d' = device_object_size d"
  by (simp add: same_core_def dirty_object_def dirty_objects_def cache_path_def fun_eq_iff device_object_size_def)

lemma length_block_of:
  "length disk = N * n \<Longrightarrow> i < N \<Longrightarrow> length (block_of n i disk) = n"
proof -
  assume l: "length disk = N * n" and "i < N"
  then have "Suc i * n \<le> N * n" by (intro mult_le_mono1) simp
  with l show ?thesis by (simp add: block_of_def)
qed

lemma osize_bound: "device_object_size d < 2 ^ 32"
  using unsigned_less [of "bm_object_size (bd_map d)", where ?'a = nat] by (simp add: device_object_size_def)

lemma decode_sealed:
  "digest32 L \<Longrightarrow> length payload = unat osz \<Longrightarrow>
   decode L (sealed L osz i g payload) i g = Inr \<lparr>env_object_id = i, env_generation = g,
     env_object_size = osz, env_flags = 0, env_payload = payload\<rparr>"
  using decode_encode [of L "\<lparr>env_object_id = i, env_generation = g,
     env_object_size = osz, env_flags = 0, env_payload = payload\<rparr>"] unsigned_less [of osz, where ?'a = nat]
  by (simp add: sealed_def)

lemma ids_nth:
  "map mo_object_id xs = map of_nat [0..<length xs] \<Longrightarrow> k < length xs \<Longrightarrow> mo_object_id (xs ! k) = of_nat k"
proof -
  assume eq: "map mo_object_id xs = map of_nat [0..<length xs]" and k: "k < length xs"
  have "mo_object_id (xs ! k) = map mo_object_id xs ! k" using k by simp
  also have "\<dots> = map of_nat [0..<length xs] ! k" by (simp only: eq)
  also have "\<dots> = of_nat k" using k by simp
  finally show ?thesis .
qed

lemma shape_ids:
  "shape_ok d disk \<Longrightarrow> k < length (m_objects (bd_manifest d)) \<Longrightarrow>
   mo_object_id (m_objects (bd_manifest d) ! k) = of_nat k"
  by (simp add: shape_ok_def ids_nth)

lemma of_nat_eq_small: "a < 2 ^ 64 \<Longrightarrow> b < 2 ^ 64 \<Longrightarrow> (of_nat a :: u64) = of_nat b \<longleftrightarrow> a = b"
  by (metis unat_of_nat_len)

lemma find_object_nth:
  assumes "map mo_object_id (m_objects m) = map of_nat [0..<length (m_objects m)]"
    and "length (m_objects m) < 2 ^ 64" and "unat i < length (m_objects m)"
  shows "find_object i m = Some (m_objects m ! unat i)"
proof -
  have "distinct (map mo_object_id (m_objects m))"
    unfolding assms(1) using assms(2) by (intro map_of_nat_upt_distinct) simp
  then show ?thesis
    using find_distinct_key [of mo_object_id "m_objects m" i] assms(3) ids_nth [OF assms(1,3)]
    by (simp add: find_object_def)
qed

lemma dirty_object_id: "dirty_object i s = Some x \<Longrightarrow> do_object_id x = i"
  by (auto simp: dirty_object_def dirty_of_row_def find_Some_iff)

text \<open>Reads keep the relation: dirty files stay, a clean object's file holds its envelope.\<close>

lemma dev_rel_frame:
  assumes rel: "dev_rel L invar stored d disk" and core: "same_core d d'"
    and inv: "invar (bd_backend d')" and le: "stored (bd_backend d) \<subseteq>\<^sub>m stored (bd_backend d')"
    and rows: "cache_rows_ok (bd_store d')"
    and files: "\<And>p. ls_files (bd_store d') p = ls_files (bd_store d) p \<or>
      (\<exists>i < length (m_objects (bd_manifest d)). dirty_object (of_nat i) (bd_store d) = None \<and>
         p = cache_path (bd_store d) (mo_object_id (m_objects (bd_manifest d) ! i)) (mo_generation (m_objects (bd_manifest d) ! i)) \<and>
         ls_files (bd_store d') p = Some (entry_seal L (bm_object_size (bd_map d)) (m_objects (bd_manifest d) ! i)
           (block_of (device_object_size d) i disk)))"
  shows "dev_rel L invar stored d' disk"
proof -
  let ?objs = "m_objects (bd_manifest d)" and ?n = "device_object_size d" and ?osz = "bm_object_size (bd_map d)"
  have m: "bd_manifest d' = bd_manifest d" "bd_map d' = bd_map d" and
    st: "dirty_object i (bd_store d') = dirty_object i (bd_store d)" "dirty_objects (bd_store d') = dirty_objects (bd_store d)"
    "cache_path (bd_store d') = cache_path (bd_store d)" "device_object_size d' = ?n"
    "ls_dirty_objects (bd_store d') = ls_dirty_objects (bd_store d)" for i
    using core same_core_store [OF core] by (simp_all add: same_core_def)
  have shape: "shape_ok d disk" and so: "store_ok (bd_store d)" and obj: "objects_ok L (stored (bd_backend d)) d disk"
    using rel by (simp_all add: dev_rel_def)
  have "wal_ok (bd_store d')" "dirty_keys_ok (bd_store d')"
    using so core by (simp_all add: store_ok_def wal_ok_def wal_ids_ok_def dirty_keys_ok_def same_core_def)
  moreover have "shape_ok d' disk" using shape by (simp add: shape_ok_def m st)
  moreover have "objects_ok L (stored (bd_backend d')) d' disk"
    unfolding objects_ok_def m st
  proof (intro conjI allI impI)
    fix i x assume x: "dirty_object i (bd_store d) = Some x"
    then show "unat i < length ?objs" using obj by (simp add: objects_ok_def)
    have ok: "dirty_ok L ?osz (bd_store d) x (block_of ?n (unat i) disk)"
      using x obj by (simp add: objects_ok_def)
    have "ls_files (bd_store d') (do_cache_path x) = ls_files (bd_store d) (do_cache_path x)"
    proof (rule ccontr)
      assume "\<not> ?thesis"
      then obtain k where k: "k < length ?objs" "dirty_object (of_nat k) (bd_store d) = None"
        and p: "do_cache_path x = cache_path (bd_store d) (mo_object_id (?objs ! k)) (mo_generation (?objs ! k))"
        using files [of "do_cache_path x"] by auto
      from p ok have "mo_object_id (?objs ! k) = do_object_id x"
        by (auto simp: dirty_ok_def cache_path_def object_path_inj)
      moreover have "mo_object_id (?objs ! k) = of_nat k"
        using shape k(1) by (rule shape_ids)
      ultimately show False using k(2) x dirty_object_id [OF x] by simp
    qed
    with ok show "dirty_ok L ?osz (bd_store d') x (block_of ?n (unat i) disk)"
      unfolding dirty_ok_def st by metis
  next
    fix i assume i: "i < length ?objs" "dirty_object (of_nat i) (bd_store d) = None"
    then have ok: "remote_ok L ?osz (stored (bd_backend d)) (?objs ! i) (block_of ?n i disk)"
      "cached_ok L ?osz (bd_store d) (?objs ! i) (block_of ?n i disk)"
      "mo_generation (?objs ! i) \<le> m_generation (bd_manifest d)"
      using obj by (simp_all add: objects_ok_def)
    from ok(3) show "mo_generation (?objs ! i) \<le> m_generation (bd_manifest d)" .
    from ok(1) le show "remote_ok L ?osz (stored (bd_backend d')) (?objs ! i) (block_of ?n i disk)"
      by (auto simp: remote_ok_def map_le_def dom_def split: if_splits)
    let ?p = "cache_path (bd_store d) (mo_object_id (?objs ! i)) (mo_generation (?objs ! i))"
    from files [of ?p] show "cached_ok L ?osz (bd_store d') (?objs ! i) (block_of ?n i disk)"
    proof (elim disjE exE conjE)
      assume "ls_files (bd_store d') ?p = ls_files (bd_store d) ?p"
      with ok(2) show ?thesis unfolding cached_ok_def st by metis
    next
      fix k assume k: "k < length ?objs"
        and p: "?p = cache_path (bd_store d) (mo_object_id (?objs ! k)) (mo_generation (?objs ! k))"
        and f: "ls_files (bd_store d') ?p = Some (entry_seal L ?osz (?objs ! k) (block_of ?n k disk))"
      have "(of_nat i :: u64) = of_nat k"
        using p shape_ids [OF shape i(1)] shape_ids [OF shape k] by (simp add: cache_path_def object_path_inj)
      then have "i = k" using i(1) k shape by (simp add: of_nat_eq_small shape_ok_def)
      with f show ?thesis unfolding cached_ok_def st by simp
    qed
  next
    assume "ls_dirty_objects (bd_store d) \<noteq> []"
    then show "m_generation (bd_manifest d) \<le> max_generation (dirty_objects (bd_store d))"
      using obj by (simp add: objects_ok_def)
  qed
  ultimately show ?thesis using inv rows by (simp add: dev_rel_def store_ok_def)
qed

section \<open>Store operations inside the device\<close>

definition store_frame :: "LocalStore \<Rightarrow> LocalStore \<Rightarrow> bool" where
  "store_frame s s' \<longleftrightarrow> ls_cache_dir s' = ls_cache_dir s \<and> ls_manifest_state s' = ls_manifest_state s \<and>
     ls_dirty_objects s' = ls_dirty_objects s \<and> ls_wal_entries s' = ls_wal_entries s \<and>
     ls_wal_next_id s' = ls_wal_next_id s \<and> (cache_rows_ok s \<longrightarrow> cache_rows_ok s')"

lemma read_cache_spec:
  assumes "read_cache L i g h s = (x, s')"
  shows "store_frame s s' \<and> ls_files s' = ls_files s \<and>
    (case ls_files s (cache_path s i g) of
       None \<Rightarrow> x = Inr None
     | Some bs \<Rightarrow> if sha256_hex L bs = h then x = Inr (Some bs)
        else x = Inl (Anyhow (''cache checksum mismatch for object '' @ show_nat (unat i))))"
  using assms
  by (auto simp: read_cache_def store_frame_def tick_def cache_path_def Let_def
      intro: upsert_cache_rows_ok split: option.splits if_splits)

lemma write_cache_spec:
  assumes "write_cache L i g bs dirty s = (x, s')"
  shows "store_frame s s' \<and> ls_files s' = (ls_files s)(cache_path s i g \<mapsto> bs) \<and> x = Inr (sha256_hex L bs)"
  using assms
  by (auto simp: write_cache_def store_frame_def tick_def cache_path_def Let_def intro: upsert_cache_rows_ok)

lemma same_core_store_frame:
  "store_frame (bd_store d) s' \<Longrightarrow> same_core d (d\<lparr>bd_store := s', bd_metrics := m', bd_backend := b'\<rparr>)"
  by (simp add: same_core_def store_frame_def)


lemma dev_rel_same_files:
  assumes rel: "dev_rel L invar stored d disk" and fr: "store_frame (bd_store d) s'"
    and files: "ls_files s' = ls_files (bd_store d)"
    and b: "invar b'" "stored (bd_backend d) \<subseteq>\<^sub>m stored b'"
    and d': "d' = d\<lparr>bd_store := s', bd_metrics := m', bd_backend := b'\<rparr>"
  shows "dev_rel L invar stored d' disk \<and> same_core d d'"
proof -
  have core: "same_core d d'" using same_core_store_frame [OF fr] by (simp add: d')
  have "cache_rows_ok s'" using rel fr by (simp add: dev_rel_def store_ok_def store_frame_def)
  then show ?thesis using dev_rel_frame [OF rel core] b files core by (simp add: d')
qed

lemma dev_rel_fill:
  assumes rel: "dev_rel L invar stored d disk" and fr: "store_frame (bd_store d) s'"
    and i: "unat i < length (m_objects (bd_manifest d))" "dirty_object i (bd_store d) = None"
    and files: "ls_files s' = (ls_files (bd_store d))
      (cache_path (bd_store d) i (mo_generation (m_objects (bd_manifest d) ! unat i)) \<mapsto>
       entry_seal L (bm_object_size (bd_map d)) (m_objects (bd_manifest d) ! unat i) (block_of (device_object_size d) (unat i) disk))"
    and b: "invar b'" "stored (bd_backend d) \<subseteq>\<^sub>m stored b'"
    and d': "d' = d\<lparr>bd_store := s', bd_metrics := m', bd_backend := b'\<rparr>"
  shows "dev_rel L invar stored d' disk \<and> same_core d d'"
proof -
  have core: "same_core d d'" using same_core_store_frame [OF fr] by (simp add: d')
  have "shape_ok d disk" using rel by (simp add: dev_rel_def)
  then have id: "mo_object_id (m_objects (bd_manifest d) ! unat i) = i"
    using shape_ids [of d disk, OF _ i(1)] by simp
  have rows: "cache_rows_ok (bd_store d')" using rel fr by (simp add: dev_rel_def store_ok_def store_frame_def d')
  show ?thesis
    using b core i(2) by (intro conjI dev_rel_frame [OF rel core _ _ rows]) (auto simp: d' files id intro!: exI [of _ "unat i"] i(1))
qed

lemma clean_entry:
  assumes rel: "dev_rel L invar stored d disk"
    and i: "unat i < length (m_objects (bd_manifest d))" "dirty_object i (bd_store d) = None"
  defines "x \<equiv> m_objects (bd_manifest d) ! unat i" and "blk \<equiv> block_of (device_object_size d) (unat i) disk"
  shows "find_object i (bd_manifest d) = Some x" "mo_object_id x = i" "length blk = device_object_size d"
    "remote_ok L (bm_object_size (bd_map d)) (stored (bd_backend d)) x blk"
    "cached_ok L (bm_object_size (bd_map d)) (bd_store d) x blk"
    "mo_generation x \<le> m_generation (bd_manifest d)"
proof -
  have shape: "shape_ok d disk" and obj: "objects_ok L (stored (bd_backend d)) d disk"
    using rel by (simp_all add: dev_rel_def)
  show "find_object i (bd_manifest d) = Some x"
    unfolding x_def using shape i(1) by (intro find_object_nth) (simp_all add: shape_ok_def)
  show "mo_object_id x = i" using shape_ids [OF shape i(1)] by (simp add: x_def)
  show "length blk = device_object_size d"
    unfolding blk_def using shape i(1) by (intro length_block_of) (simp_all add: shape_ok_def)
  have "dirty_object (of_nat (unat i)) (bd_store d) = None" using i(2) by simp
  with obj i(1) show "remote_ok L (bm_object_size (bd_map d)) (stored (bd_backend d)) x blk"
    "cached_ok L (bm_object_size (bd_map d)) (bd_store d) x blk"
    "mo_generation x \<le> m_generation (bd_manifest d)"
    unfolding objects_ok_def x_def blk_def by blast+
qed

lemma locate_rel:
  assumes shape: "shape_ok d disk" and c: "unat cursor < unat (bm_device_size (bd_map d))"
  shows "\<exists>i. locate (bd_map d) cursor = Inr (i, unat cursor mod device_object_size d) \<and>
    unat i = unat cursor div device_object_size d \<and> unat i < length (m_objects (bd_manifest d))"
proof -
  have n: "0 < device_object_size d" "unat cursor < length (m_objects (bd_manifest d)) * device_object_size d"
    using shape c by (simp_all add: shape_ok_def)
  then have "unat cursor div device_object_size d < length (m_objects (bd_manifest d))"
    by (simp add: div_less_iff_less_mult)
  moreover have "bm_object_size (bd_map d) \<noteq> 0" using n(1) by (simp add: device_object_size_def unat_gt_0)
  ultimately show ?thesis
    using c by (simp add: locate_def word_less_nat_alt unat_div_distrib unat_mod_distrib device_object_size_def)
qed

lemma slice_block:
  "off + k \<le> n \<Longrightarrow> slice off (off + k) (block_of n i disk) = slice (i * n + off) (i * n + off + k) disk"
  by (simp add: block_of_def slice_def drop_take min_def add.commute)

lemma cursor_step:
  fixes cursor size :: u64
  assumes "unat cursor + k \<le> unat size"
  shows "add_w L cursor (of_nat k) = Inr (cursor + of_nat k)" "unat (cursor + of_nat k) = unat cursor + k"
proof -
  have lt: "unat cursor + k < 2 ^ 64" using assms unsigned_less [of size, where ?'a = nat] by simp
  then have k: "unat (of_nat k :: u64) = k" by (intro unat_of_nat_len) simp
  show "add_w L cursor (of_nat k) = Inr (cursor + of_nat k)" using lt by (intro add_w_Inr) (simp add: k)
  show "unat (cursor + of_nat k) = unat cursor + k" using lt by (simp add: unat_word_ariths k)
qed

lemma read_loop_zero: "read_loop L B 0 cursor out d = (Inr (out, cursor), d)"
  by (simp add: read_loop.simps)

lemma read_loop_step:
  assumes "remaining \<noteq> 0" "locate (bd_map d) cursor = Inr (i, off)" "read_object L B i d = (y, d1)"
  defines "k \<equiv> min remaining (device_object_size d - off)"
  shows "read_loop L B remaining cursor out d =
      (case y of Inl e \<Rightarrow> (Inl e, d1) | Inr object \<Rightarrow>
        if length object < off + k then (Inl (Panic ''range end index out of range for slice''), d1)
        else case add_w L cursor (of_nat k) of Inl e \<Rightarrow> (Inl e, d1)
          | Inr cursor' \<Rightarrow> read_loop L B (remaining - k) cursor' (out @ slice off (off + k) object) d1)"
  using assms(1-3) unfolding k_def device_object_size_def
  by (subst read_loop.simps) (simp add: Let_def split: sum.split)

end
