(* ===== verification/BlockRead.thy ===== *)
theory BlockRead
  imports BlockRel
begin

text \<open>
  Reads of the block device refine reads of the disk: proved once in the backend contract
  \<open>remote_backend\<close>, for reading one object, the read loop, and the read-ahead.
\<close>

lemma find_object_Some:
  assumes shape: "shape_ok d disk" and f: "find_object i (bd_manifest d) = Some x"
  shows "unat i < length (m_objects (bd_manifest d)) \<and> m_objects (bd_manifest d) ! unat i = x"
proof -
  let ?xs = "m_objects (bd_manifest d)"
  from f obtain k where k: "k < length ?xs" "?xs ! k = x" "mo_object_id x = i"
    unfolding find_object_def find_Some_iff by blast
  then have "i = of_nat k" using shape_ids [OF shape k(1)] by simp
  moreover have "k < 2 ^ 64" using shape k(1) by (simp add: shape_ok_def)
  ultimately show ?thesis using k by (simp add: unat_of_nat_len)
qed

text \<open>What the scan collects: clean objects with a stored message.\<close>

definition fetchable :: "'b BlockDevice \<Rightarrow> prefetch_entry \<Rightarrow> bool" where
  "fetchable d p \<longleftrightarrow> (case p of (i, g, sha, r) \<Rightarrow>
     unat i < length (m_objects (bd_manifest d)) \<and> dirty_object i (bd_store d) = None \<and>
     (let x = m_objects (bd_manifest d) ! unat i in
      \<not> mo_zero x \<and> g = mo_generation x \<and> mo_sha256 x = Some sha \<and> mo_remote x = Some r))"

lemma fetchable_kept: "kept L invar room stored disk d d' \<Longrightarrow> fetchable d' p = fetchable d p"
  by (auto simp: fetchable_def keptD split: prod.splits)

lemma dirty_ids_None: "i \<notin> do_object_id ` set (dirty_objects s) \<Longrightarrow> dirty_object i s = None"
  by (auto simp: dirty_objects_def dirty_object_def dirty_of_row_def find_None_iff image_iff)

text \<open>A dirty object is read from its file, with any backend.\<close>

lemma read_object_dirty:
  assumes L: "digest32 L" and x: "dirty_object i (bd_store d) = Some x"
    and ok: "dirty_ok L (bm_object_size (bd_map d)) (bd_store d) x blk" and len: "length blk = device_object_size d"
  shows "read_object L B i d = (Inr blk, d)"
proof -
  have id: "do_object_id x = i" using x by (rule dirty_object_id)
  let ?enc = "sealed L (bm_object_size (bd_map d)) i (do_generation x) blk"
  have f: "ls_files (bd_store d) (do_cache_path x) = Some ?enc" and h: "do_sha256 x = sha256_hex L ?enc"
    using ok unfolding dirty_ok_def id by blast+
  have dec: "decode L ?enc i (do_generation x) = Inr \<lparr>env_object_id = i, env_generation = do_generation x,
     env_object_size = bm_object_size (bd_map d), env_flags = 0, env_payload = blk\<rparr>"
    using L len by (simp add: decode_sealed device_object_size_def)
  show ?thesis
    using x len by (simp add: read_object_def read_dirty_def read_file_def bnd_apply f h dec pad_object_def)
qed

lemma dirty_block:
  assumes rel: "dev_rel L invar stored d disk" and x: "dirty_object i (bd_store d) = Some x"
  shows "dirty_ok L (bm_object_size (bd_map d)) (bd_store d) x (block_of (device_object_size d) (unat i) disk)"
    "length (block_of (device_object_size d) (unat i) disk) = device_object_size d"
proof -
  have shape: "shape_ok d disk" and i: "unat i < length (m_objects (bd_manifest d))"
    using rel x by (auto simp: dev_rel_def objects_ok_def)
  show "dirty_ok L (bm_object_size (bd_map d)) (bd_store d) x (block_of (device_object_size d) (unat i) disk)"
    using rel x by (auto simp: dev_rel_def objects_ok_def)
  show "length (block_of (device_object_size d) (unat i) disk) = device_object_size d"
    using shape i by (intro length_block_of) (simp_all add: shape_ok_def)
qed

context remote_backend
begin

lemma read_dirty_eq:
  assumes rel: "dev_rel L invar stored d disk" and L: "digest32 L" and x: "dirty_object i (bd_store d) = Some x"
  shows "read_object L B i d = (Inr (block_of (device_object_size d) (unat i) disk), d)"
  by (rule read_object_dirty [OF L x dirty_block [OF rel x]])

lemma read_object_rel:
  assumes rel: "dev_rel L invar stored d disk" and L: "digest32 L"
    and i: "unat i < length (m_objects (bd_manifest d))"
    and rd: "read_object L B i d = (x, d')"
  shows "kept L invar room stored disk d d' \<and>
    (\<forall>bs. x = Inr bs \<longrightarrow> bs = block_of (device_object_size d) (unat i) disk)"
proof (cases "dirty_object i (bd_store d)")
  case (Some y)
  then show ?thesis using rd read_dirty_eq [OF rel L Some] rel by (auto simp: kept_refl)
next
  case None
  let ?x = "m_objects (bd_manifest d) ! unat i" and ?blk = "block_of (device_object_size d) (unat i) disk"
  let ?enc = "entry_seal L (bm_object_size (bd_map d)) ?x ?blk"
  note ce = clean_entry [OF rel i None]
  have inv: "invar (bd_backend d)" using rel by (simp add: dev_rel_def)
  have dec: "decode L ?enc i (mo_generation ?x) = Inr \<lparr>env_object_id = i, env_generation = mo_generation ?x,
     env_object_size = bm_object_size (bd_map d), env_flags = 0, env_payload = ?blk\<rparr>"
    using L ce(2,3) by (simp add: entry_seal_def decode_sealed device_object_size_def)
  have rc: "read_object L B i d = read_clean L B i ?x d"
    using None ce(1) by (simp add: read_object_def)
  show ?thesis
  proof (cases "mo_zero ?x")
    case True
    then show ?thesis using rd rel ce(4) by (auto simp: rc read_clean_def remote_ok_def device_object_size_def kept_refl)
  next
    case False
    then obtain r where r: "mo_remote ?x = Some r" "mo_sha256 ?x = Some (sha256_hex L ?enc)"
      "stored (bd_backend d) (ref_message_id r) = Some ?enc"
      using ce(4) by (auto simp: remote_ok_def)
    obtain y s' where cache: "read_cache L i (mo_generation ?x) (sha256_hex L ?enc) (bd_store d) = (y, s')" by force
    have fr: "store_frame (bd_store d) s'" and fs: "ls_files s' = ls_files (bd_store d)"
      using read_cache_spec [OF cache] by simp_all
    have path: "cache_path s' = cache_path (bd_store d)" using fr by (simp add: store_frame_def cache_path_def fun_eq_iff)
    from ce(2,5) False consider (hit) "y = Inr (Some ?enc)" | (miss) "y = Inr None"
      using read_cache_spec [OF cache] by (auto simp: cached_ok_def)
    then show ?thesis
    proof cases
      case hit
      have "read_object L B i d = (Inr ?blk, d\<lparr>bd_store := s',
          bd_metrics := (bd_metrics d)\<lparr>dm_cache_hits := dm_cache_hits (bd_metrics d) + 1\<rparr>, bd_backend := bd_backend d\<rparr>)"
        using False r cache ce(3)
        by (simp add: rc read_clean_def bnd_apply on_store_def hit on_metrics_def dec pad_object_def)
      then show ?thesis
        using rd dev_rel_same_files [OF rel fr fs inv map_le_refl refl] by (auto simp: kept_def)
    next
      case miss
      obtain z b' where fetch_eq: "fetch_object B r (bd_backend d) = (z, b')" by force
      note ft = fetch [OF inv fetch_eq]
      show ?thesis
      proof (cases z)
        case (Inl e)
        have "read_object L B i d = (Inl e, d\<lparr>bd_store := s',
          bd_metrics := (bd_metrics d)\<lparr>dm_cache_misses := dm_cache_misses (bd_metrics d) + 1\<rparr>, bd_backend := b'\<rparr>)"
          using False r cache fetch_eq
          by (simp add: rc read_clean_def read_remote_def bnd_apply on_store_def on_backend_def miss on_metrics_def Inl)
        then show ?thesis using rd ft dev_rel_same_files [OF rel fr fs _ _ refl, of b'] by (auto simp: kept_def)
      next
        case (Inr bs)
        then have bs: "bs = ?enc" using ft r(3) by simp
        obtain w s'' where wc: "write_cache L i (mo_generation ?x) ?enc False s' = (w, s'')" by force
        note wcs = write_cache_spec [OF wc]
        have fr2: "store_frame (bd_store d) s''" using fr wcs by (simp add: store_frame_def)
        have fs2: "ls_files s'' = (ls_files (bd_store d))(cache_path (bd_store d) i (mo_generation ?x) \<mapsto> ?enc)"
          using wcs fs path by simp
        have "\<exists>m'. read_object L B i d = (Inr ?blk, d\<lparr>bd_store := s'', bd_metrics := m', bd_backend := b'\<rparr>)"
          using False r cache fetch_eq wc wcs ce(3)
          by (simp add: rc read_clean_def read_remote_def bnd_apply on_store_def on_backend_def miss on_metrics_def
              Inr bs dec pad_object_def) (rule exI, rule dev_upd_commute)
        then show ?thesis
          using rd ft dev_rel_fill [OF rel fr2 i None fs2 _ _ refl, of b'] by (auto simp: kept_def)
      qed
    qed
  qed
qed


lemma read_loop_rel:
  assumes "dev_rel L invar stored d disk" and L: "digest32 L" and "unat cursor + remaining \<le> unat (bm_device_size (bd_map d))"
    and "read_loop L B remaining cursor out d = (x, d')"
  shows "kept L invar room stored disk d d' \<and>
    (case x of
       Inr (out', cursor') \<Rightarrow> out' = out @ slice (unat cursor) (unat cursor + remaining) disk \<and>
         unat cursor' = unat cursor + remaining
     | Inl e \<Rightarrow> \<exists>i d1. kept L invar room stored disk d d1 \<and> unat i < length (m_objects (bd_manifest d)) \<and>
         fst (read_object L B i d1) = Inl e)"
  using assms(1,3,4)
proof (induction remaining arbitrary: cursor out d rule: less_induct)
  case (less remaining)
  show ?case
  proof (cases "remaining = 0")
    case True
    then show ?thesis using less.prems by (auto simp: read_loop_zero kept_refl slice_def)
  next
    case False
    let ?n = "device_object_size d"
    have shape: "shape_ok d disk" using less.prems(1) by (simp add: dev_rel_def)
    let ?off = "unat cursor mod ?n"
    let ?k = "min remaining (?n - ?off)"
    have n: "0 < ?n" using shape by (simp add: shape_ok_def)
    obtain i where i: "locate (bd_map d) cursor = Inr (i, ?off)" "unat i = unat cursor div ?n"
      "unat i < length (m_objects (bd_manifest d))"
      using locate_rel [OF shape, of cursor] less.prems(2) False by auto
    have "?off < ?n" using n by simp
    then have k: "0 < ?k" "?off + ?k \<le> ?n" "?k \<le> remaining" using False by auto
    obtain y d1 where ro: "read_object L B i d = (y, d1)" by force
    note ror = read_object_rel [OF less.prems(1) L i(3) ro]
    have rl: "read_loop L B remaining cursor out d =
      (case y of Inl e \<Rightarrow> (Inl e, d1) | Inr object \<Rightarrow>
        if length object < ?off + ?k then (Inl (Panic ''range end index out of range for slice''), d1)
        else case add_w L cursor (of_nat ?k) of Inl e \<Rightarrow> (Inl e, d1)
          | Inr cursor' \<Rightarrow> read_loop L B (remaining - ?k) cursor' (out @ slice ?off (?off + ?k) object) d1)"
      by (rule read_loop_step [OF False i(1) ro])
    show ?thesis
    proof (cases y)
      case (Inl e)
      then show ?thesis using less.prems(3) ror ro i(3) kept_refl [OF less.prems(1), of room] by (auto simp: rl intro!: exI [of _ i] exI [of _ d])
    next
      case (Inr object)
      let ?blk = "block_of ?n (unat i) disk"
      have obj: "object = ?blk" "length ?blk = ?n"
        using ror Inr length_block_of [of disk _ ?n "unat i"] shape i(3) by (auto simp: shape_ok_def)
      have cs: "add_w L cursor (of_nat ?k) = Inr (cursor + of_nat ?k)" "unat (cursor + of_nat ?k) = unat cursor + ?k"
        using less.prems(2) k(3) by (auto intro!: cursor_step [where size = "bm_device_size (bd_map d)"])
      have sl: "slice ?off (?off + ?k) ?blk = slice (unat cursor) (unat cursor + ?k) disk"
        using slice_block [OF k(2), of "unat i" disk] by (simp add: i(2))
      have rl': "read_loop L B (remaining - ?k) (cursor + of_nat ?k) (out @ slice (unat cursor) (unat cursor + ?k) disk) d1 = (x, d')"
        using less.prems(3) k(2) obj unfolding rl Inr by (simp add: cs sl)
      have kp: "kept L invar room stored disk d d1" using ror by simp
      note kd = keptD [OF kp]
      have "unat (cursor + of_nat ?k) + (remaining - ?k) \<le> unat (bm_device_size (bd_map d1))"
        using less.prems(2) k(3) by (simp add: cs(2) kd)
      from less.IH [OF _ kd(1) this rl'] k show ?thesis
        using kp kept_trans [OF kp]
        by (auto simp: cs(2) kd slice_append_split split: sum.splits)
    qed
  qed
qed

lemma hit_kept:
  assumes "dev_rel L invar stored d disk" "read_cache L i g sha (bd_store d) = (y, s')"
  shows "kept L invar room stored disk d (d\<lparr>bd_store := s', bd_metrics := m\<rparr>)"
    and "kept L invar room stored disk d (d\<lparr>bd_store := s'\<rparr>)"
proof -
  have inv: "invar (bd_backend d)" using assms(1) by (simp add: dev_rel_def)
  note fr = read_cache_spec [OF assms(2), THEN conjunct1]
  have fs: "ls_files s' = ls_files (bd_store d)" using read_cache_spec [OF assms(2)] by simp
  note rel = dev_rel_same_files [OF assms(1) fr fs inv map_le_refl refl]
  from rel [of m] show "kept L invar room stored disk d (d\<lparr>bd_store := s', bd_metrics := m\<rparr>)"
    by (simp add: kept_def)
  from rel [of "bd_metrics d"] show "kept L invar room stored disk d (d\<lparr>bd_store := s'\<rparr>)"
    by (simp add: kept_def)
qed

lemma prefetch_scan_rel:
  assumes "dev_rel L invar stored d disk" "set dirty_ids = do_object_id ` set (dirty_objects (bd_store d))"
    and "prefetch_scan L dirty_ids ids d = (x, d')"
  shows "kept L invar room stored disk d d' \<and> (\<forall>entries. x = Inr entries \<longrightarrow> (\<forall>p\<in>set entries. fetchable d p)) \<and>
    (\<forall>msg. x \<noteq> Inl (Panic msg))"
  using assms
proof (induction ids arbitrary: d x)
  case Nil
  then show ?case by (auto simp: kept_refl)
next
  case (Cons i ids)
  note rel = Cons.prems(1) and ids = Cons.prems(2)
  note stop = kept_refl [OF rel, of room]
  have step: "kept L invar room stored disk d d1 \<Longrightarrow> prefetch_scan L dirty_ids ids d1 = (y, d') \<Longrightarrow>
     kept L invar room stored disk d d' \<and> (\<forall>entries. y = Inr entries \<longrightarrow> (\<forall>p\<in>set entries. fetchable d p)) \<and>
     (\<forall>msg. y \<noteq> Inl (Panic msg))" for d1 y
  proof -
    assume k: "kept L invar room stored disk d d1" and s: "prefetch_scan L dirty_ids ids d1 = (y, d')"
    have "set dirty_ids = do_object_id ` set (dirty_objects (bd_store d1))"
      using ids same_core_store [OF keptD(2) [OF k]] by simp
    from Cons.IH [OF keptD(1) [OF k] this s] show ?thesis
      using kept_trans [OF k] fetchable_kept [OF k] by blast
  qed
  show ?case
  proof (cases "i \<in> set dirty_ids")
    case True
    then show ?thesis using Cons.prems(3) step [OF stop] by simp
  next
    case clean: False
    have nd: "dirty_object i (bd_store d) = None" using clean ids by (intro dirty_ids_None) simp
    show ?thesis
    proof (cases "find_object i (bd_manifest d)")
      case None
      then show ?thesis using Cons.prems(3) clean stop by auto
    next
      case (Some entry)
      show ?thesis
      proof (cases "\<not> mo_zero entry \<and> mo_remote entry \<noteq> None \<and> mo_sha256 entry \<noteq> None")
        case False
        then show ?thesis
          using Cons.prems(3) clean Some step [OF stop] by (auto split: option.splits)
      next
        case True
        then obtain r sha where e: "\<not> mo_zero entry" "mo_remote entry = Some r" "mo_sha256 entry = Some sha" by auto
        obtain y s' where rc: "read_cache L i (mo_generation entry) sha (bd_store d) = (y, s')" by force
        have shape: "shape_ok d disk" using rel by (simp add: dev_rel_def)
        have fe: "fetchable d (i, mo_generation entry, sha, r)"
          using find_object_Some [OF shape Some] nd e by (simp add: fetchable_def Let_def)
        note hk = hit_kept [OF rel rc]
        have np: "y \<noteq> Inl (Panic msg)" for msg using read_cache_spec [OF rc] by (auto split: option.splits if_splits)
        show ?thesis
          using Cons.prems(3) clean Some e hk fe np step [OF hk(2)] step [OF hk(1)]
          by (auto simp: bnd_apply on_store_def rc on_metrics_def split: sum.splits option.splits prod.splits)
      qed
    qed
  qed
qed

lemma prefetch_store_rel:
  assumes "dev_rel L invar stored d disk" and L: "digest32 L"
    and "\<And>p bs. (p, Some bs) \<in> set pairs \<Longrightarrow> fetchable d p \<and> stored (bd_backend d) (ref_message_id (snd (snd (snd p)))) = Some bs"
    and "prefetch_store L pairs d = (x, d')"
  shows "kept L invar room stored disk d d' \<and> x = Inr ()"
  using assms(1,3,4)
proof (induction pairs arbitrary: d)
  case Nil
  then show ?case by (auto simp: kept_refl)
next
  case (Cons q rest)
  note rel = Cons.prems(1)
  obtain i g sha r m where q: "q = ((i, g, sha, r), m)" by (cases q) auto
  show ?case
  proof (cases m)
    case None
    then show ?thesis using Cons.IH [OF rel Cons.prems(2)] Cons.prems(3) by (simp add: q)
  next
    case (Some bs)
    let ?x = "m_objects (bd_manifest d) ! unat i"
    have f: "fetchable d (i, g, sha, r)" and st: "stored (bd_backend d) (ref_message_id r) = Some bs"
      using Cons.prems(2) [of "(i, g, sha, r)" bs] by (simp_all add: q Some)
    then have i: "unat i < length (m_objects (bd_manifest d))" "dirty_object i (bd_store d) = None"
      and x: "\<not> mo_zero ?x" "g = mo_generation ?x" "mo_sha256 ?x = Some sha" "mo_remote ?x = Some r"
      by (simp_all add: fetchable_def Let_def)
    let ?blk = "block_of (device_object_size d) (unat i) disk"
    note ce = clean_entry [OF rel i]
    have bs: "bs = entry_seal L (bm_object_size (bd_map d)) ?x ?blk" "sha256_hex L bs = sha"
      using ce(4) x st by (auto simp: remote_ok_def)
    have dec: "\<exists>e. decode L bs i g = Inr e"
      using L ce(2,3) x(2) by (simp add: bs(1) entry_seal_def decode_sealed device_object_size_def)
    obtain w s' where wc: "write_cache L i g bs False (bd_store d) = (w, s')" by force
    note wcs = write_cache_spec [OF wc]
    have inv: "invar (bd_backend d)" using rel by (simp add: dev_rel_def)
    have fs: "ls_files s' = (ls_files (bd_store d))(cache_path (bd_store d) i (mo_generation ?x) \<mapsto>
        entry_seal L (bm_object_size (bd_map d)) ?x ?blk)" using wcs bs(1) x(2) by simp
    from dev_rel_fill [OF rel wcs [THEN conjunct1] i fs inv map_le_refl refl, of "bd_metrics d"]
    have k: "kept L invar room stored disk d (d\<lparr>bd_store := s'\<rparr>)" by (simp add: kept_def)
    have run: "prefetch_store L rest (d\<lparr>bd_store := s'\<rparr>) = (x, d')"
      using Cons.prems(3) dec wcs bs(2) wc by (auto simp: q Some bnd_apply on_store_def)
    have "fetchable (d\<lparr>bd_store := s'\<rparr>) p \<and>
        stored (bd_backend (d\<lparr>bd_store := s'\<rparr>)) (ref_message_id (snd (snd (snd p)))) = Some bs'"
      if "(p, Some bs') \<in> set rest" for p bs'
      using Cons.prems(2) [of p bs'] that fetchable_kept [OF k] by simp
    from Cons.IH [OF keptD(1) [OF k] this run] show ?thesis using kept_trans [OF k] by blast
  qed
qed

lemma prefetch_objects_rel:
  assumes rel: "dev_rel L invar stored d disk" and L: "digest32 L"
    and pf: "prefetch_objects L B start ahead d = (x, d')"
  shows "kept L invar room stored disk d d' \<and>
    (\<forall>msg. x = Inl (Panic msg) \<longrightarrow> (\<exists>ids b b'. invar b \<and> get_messages_by_id B ids b = (Inl (Panic msg), b')))"
proof -
  let ?dirty = "map do_object_id (dirty_objects (bd_store d))"
  let ?ids = "map of_nat [unat start..<unat (saturating_add start ahead)]"
  obtain y d1 where sc: "prefetch_scan L ?dirty ?ids d = (y, d1)" by force
  note scr = prefetch_scan_rel [OF rel _ sc]
  have k1: "kept L invar room stored disk d d1" and np: "y \<noteq> Inl (Panic msg)" for msg using scr by simp_all
  show ?thesis
  proof (cases y)
    case (Inl e)
    then show ?thesis using pf k1 np by (auto simp: prefetch_objects_def bnd_apply sc)
  next
    case (Inr entries)
    show ?thesis
    proof (cases "entries = []")
      case True
      then show ?thesis using pf k1 by (auto simp: prefetch_objects_def bnd_apply sc Inr)
    next
      case False
      let ?ref = "\<lambda>p. ref_message_id (snd (snd (snd p)))"
      let ?mids = "map (\<lambda>(_, _, _, remote). ref_message_id remote) entries"
      have mids: "?mids = map ?ref entries" by (simp add: case_prod_beta)
      obtain z b' where gm: "get_messages_by_id B ?mids (bd_backend d1) = (z, b')" by force
      have inv: "invar (bd_backend d1)" using keptD(1) [OF k1] by (simp add: dev_rel_def)
      note gmr = get_messages [OF inv gm]
      have km: "kept L invar room stored disk d1 (d1\<lparr>bd_metrics := m, bd_backend := b'\<rparr>)" for m
        using dev_rel_same_files [OF keptD(1) [OF k1], of "bd_store d1" b' _ m] gmr
        by (simp add: kept_def store_frame_def)
      show ?thesis
      proof (cases z)
        case (Inl e)
        then have "x = Inl e" "\<exists>m. d' = d1\<lparr>bd_metrics := m, bd_backend := b'\<rparr>"
          using pf gm False by (auto simp: prefetch_objects_def bnd_apply sc Inr on_metrics_def on_backend_def)
        then show ?thesis using km kept_trans [OF k1] gm inv Inl by blast
      next
        case (Inr messages)
        define m where "m = record_download (device_elapsed L d1)
          ((bd_metrics d1)\<lparr>dm_cache_misses := dm_cache_misses (bd_metrics d1) + of_nat (length entries)\<rparr>)"
        let ?d2 = "d1\<lparr>bd_metrics := m, bd_backend := b'\<rparr>"
        have k2: "kept L invar room stored disk d ?d2" using km kept_trans [OF k1] by blast
        have el: "device_elapsed L (d1\<lparr>bd_metrics := q, bd_backend := b'\<rparr>) = device_elapsed L d1" for q
          by (simp add: device_elapsed_def)
        have upd: "d1\<lparr>bd_backend := b', bd_metrics := q\<rparr> = d1\<lparr>bd_metrics := q, bd_backend := b'\<rparr>" for q
          by (cases d1) simp
        have run: "prefetch_store L (zip entries messages) ?d2 = (x, d')"
          using pf gm False by (simp add: prefetch_objects_def bnd_apply sc \<open>y = Inr entries\<close> Inr
            on_metrics_def on_backend_def el upd m_def)
        have "fetchable ?d2 p \<and> stored (bd_backend ?d2) (?ref p) = Some bs"
          if mem: "(p, Some bs) \<in> set (zip entries messages)" for p bs
        proof -
          have "p \<in> set entries" using mem by (rule set_zip_leftD)
          then have "fetchable d p" using scr \<open>y = Inr entries\<close> by simp
          moreover have "(?ref p, Some bs) \<in> set (zip (map ?ref entries) messages)"
            using mem unfolding zip_map1 by force
          then have "stored (bd_backend d1) (?ref p) = Some bs" using gmr Inr unfolding mids by blast
          ultimately show ?thesis using fetchable_kept [OF k2] gmr by simp
        qed
        from prefetch_store_rel [OF keptD(1) [OF k2] L this run]
        show ?thesis using kept_trans [OF k2] by simp
      qed
    qed
  qed
qed

end

context remote_backend
begin

lemma read_at_rel:
  assumes rel: "dev_rel L invar stored d disk" and L: "digest32 L"
    and b: "unat offset + len \<le> unat (bm_device_size (bd_map d))"
    and rd: "read_at L B offset len d = (x, d')"
  shows "kept L invar room stored disk d d' \<and>
    (case x of
       Inr bs \<Rightarrow> bs = slice (unat offset) (unat offset + len) disk
     | Inl e \<Rightarrow> (\<exists>i d1. kept L invar room stored disk d d1 \<and> unat i < length (m_objects (bd_manifest d)) \<and>
           fst (read_object L B i d1) = Inl e) \<or>
         (\<exists>ids b b' msg. e = Panic msg \<and> invar b \<and> get_messages_by_id B ids b = (Inl (Panic msg), b')))"
proof -
  obtain y d1 where rl: "read_loop L B len offset [] d = (y, d1)" by force
  note rlr = read_loop_rel [OF rel L b rl]
  have k1: "kept L invar room stored disk d d1" using rlr by simp
  have add: "add_w L offset (of_nat len) = Inr (offset + of_nat len)"
    "unat (offset + of_nat len) = unat offset + len"
    using b by (auto intro!: cursor_step [where size = "bm_device_size (bd_map d)"])
  then have le: "offset + of_nat len \<le> bm_device_size (bd_map d)" using b by (simp add: word_le_nat_alt)
  show ?thesis
  proof (cases y)
    case (Inl e)
    then have "x = Inl e" "d' = d1" using rd by (simp_all add: read_at_def bnd_apply add le rl)
    then show ?thesis using rlr Inl by auto
  next
    case (Inr z)
    then obtain cursor where z: "z = (slice (unat offset) (unat offset + len) disk, cursor)" using rlr by (cases z) simp
    let ?out = "slice (unat offset) (unat offset + len) disk"
    consider (plain) "x = Inr ?out" "d' = d1"
      | (ahead) nid p where "prefetch_objects L B nid (bd_read_ahead_objects d1) d1 = (p, d')"
        "x = (case p of Inl (Panic msg) \<Rightarrow> Inl (Panic msg) | _ \<Rightarrow> Inr ?out)"
      using rd by (auto simp: read_at_def bnd_apply add le rl Inr z split: if_splits sum.splits prod.splits nat.splits err.splits)
    then show ?thesis
    proof cases
      case plain
      then show ?thesis using k1 by simp
    next
      case ahead
      from prefetch_objects_rel [OF keptD(1) [OF k1] L ahead(1)] show ?thesis
        using kept_trans [OF k1] ahead(2) by (auto split: sum.splits err.splits)
    qed
  qed
qed

end

context readable_backend
begin

lemma read_object_live:
  assumes rel: "dev_rel L invar stored d disk" and L: "digest32 L"
    and i: "unat i < length (m_objects (bd_manifest d))"
  shows "fst (read_object L B i d) \<noteq> Inl e"
proof (cases "dirty_object i (bd_store d)")
  case (Some x)
  then show ?thesis using read_dirty_eq [OF rel L Some] by simp
next
  case None
  let ?x = "m_objects (bd_manifest d) ! unat i" and ?blk = "block_of (device_object_size d) (unat i) disk"
  let ?enc = "entry_seal L (bm_object_size (bd_map d)) ?x ?blk"
  note ce = clean_entry [OF rel i None]
  have inv: "invar (bd_backend d)" using rel by (simp add: dev_rel_def)
  have dec: "\<exists>e. decode L ?enc i (mo_generation ?x) = Inr e"
    using L ce(2,3) by (simp add: entry_seal_def decode_sealed device_object_size_def)
  show ?thesis
  proof (cases "mo_zero ?x")
    case True
    then show ?thesis using None ce(1) by (simp add: read_object_def read_clean_def)
  next
    case False
    then obtain r where r: "mo_remote ?x = Some r" "mo_sha256 ?x = Some (sha256_hex L ?enc)"
      "stored (bd_backend d) (ref_message_id r) = Some ?enc" "ref_object_id r = i" "ref_generation r = mo_generation ?x"
      "ref_sha256 r = sha256_hex L ?enc"
      using ce(2,4) by (auto simp: remote_ok_def)
    obtain b' where fe: "fetch_object B r (bd_backend d) = (Inr ?enc, b')"
      using fetch_live [OF inv r(3)] dec r by auto
    obtain y s' where cache: "read_cache L i (mo_generation ?x) (sha256_hex L ?enc) (bd_store d) = (y, s')" by force
    from ce(2,5) False have "y = Inr (Some ?enc) \<or> y = Inr None"
      using read_cache_spec [OF cache] by (auto simp: cached_ok_def)
    then show ?thesis
      using None ce(1) False r cache dec fe
      by (auto simp: read_object_def read_clean_def read_remote_def bnd_apply on_store_def on_backend_def
          on_metrics_def write_cache_def Let_def)
  qed
qed

lemma read_at_live:
  assumes rel: "dev_rel L invar stored d disk" and L: "digest32 L"
    and b: "unat offset + len \<le> unat (bm_device_size (bd_map d))"
  shows "\<exists>d'. read_at L B offset len d = (Inr (slice (unat offset) (unat offset + len) disk), d') \<and>
    kept L invar room stored disk d d'"
proof -
  obtain x d' where rd: "read_at L B offset len d = (x, d')" by force
  note rr = read_at_rel [OF rel L b rd]
  have "x = Inr (slice (unat offset) (unat offset + len) disk)"
  proof (cases x)
    case (Inl e)
    have no: "fst (read_object L B i d1) \<noteq> Inl e"
      if "kept L invar room stored disk d d1" "unat i < length (m_objects (bd_manifest d))" for i d1
      using read_object_live [OF keptD(1) [OF that(1)] L] that keptD(4) [OF that(1)] by simp
    from rr Inl show ?thesis using no get_messages_no_panic by (auto simp: Inl)
  qed (use rr in simp)
  with rd rr show ?thesis by blast
qed

end

end
