(* ===== verification/BlockWrite.thy ===== *)
theory BlockWrite
  imports BlockRead
begin

text \<open>
  Writes of the block device refine writes of the disk: a successful \<open>write_at\<close> replaces
  exactly the written bytes, and one that fails half-way leaves a prefix of them written.
\<close>

section \<open>Splicing blocks\<close>

lemma nth_splice_at:
  "a + length ys \<le> length xs \<Longrightarrow> k < length xs \<Longrightarrow>
   splice_at a ys xs ! k = (if a \<le> k \<and> k < a + length ys then ys ! (k - a) else xs ! k)"
  by (auto simp: splice_at_def nth_append min_def)

lemma nth_slice: "k < b - a \<Longrightarrow> b \<le> length xs \<Longrightarrow> slice a b xs ! k = xs ! (a + k)"
  by (simp add: slice_def)

lemma nth_block_of: "i * n + n \<le> length disk \<Longrightarrow> k < n \<Longrightarrow> block_of n i disk ! k = disk ! (i * n + k)"
  by (simp add: block_of_def nth_slice)

lemma block_bound: "length disk = N * n \<Longrightarrow> i < N \<Longrightarrow> i * n + n \<le> length disk"
  using mult_le_mono1 [of "Suc i" N n] by simp

lemma block_splice:
  assumes l: "length disk = N * n" and i: "i < N" and j: "j < N" and ys: "length ys = n"
  shows "block_of n j (splice_at (i * n) ys disk) = (if j = i then ys else block_of n j disk)"
proof (rule nth_equalityI)
  note bi = block_bound [OF l i] and bj = block_bound [OF l j]
  have ls: "length (splice_at (i * n) ys disk) = N * n" using bi ys l by simp
  show "length (block_of n j (splice_at (i * n) ys disk)) = length (if j = i then ys else block_of n j disk)"
    using length_block_of [OF ls j] length_block_of [OF l j] ys by simp
  fix k assume "k < length (block_of n j (splice_at (i * n) ys disk))"
  then have k: "k < n" using length_block_of [OF ls j] by simp
  have "j * n + n \<le> i * n \<or> i * n + n \<le> j * n" if "j \<noteq> i"
    using that mult_le_mono1 [of "Suc i" j n] mult_le_mono1 [of "Suc j" i n] by (cases i j rule: linorder_cases) auto
  then show "block_of n j (splice_at (i * n) ys disk) ! k = (if j = i then ys else block_of n j disk) ! k"
    using k bi bj ls l ys by (auto simp: nth_block_of nth_splice_at)
qed

lemma splice_block:
  assumes "off + length ys \<le> n" "i * n + n \<le> length disk"
  shows "splice_at (i * n) (splice_at off ys (block_of n i disk)) disk = splice_at (i * n + off) ys disk"
proof (rule nth_equalityI)
  have b: "length (block_of n i disk) = n" using assms(2) by (simp add: block_of_def)
  then show "length (splice_at (i * n) (splice_at off ys (block_of n i disk)) disk) = length (splice_at (i * n + off) ys disk)"
    using assms by simp
  fix k assume "k < length (splice_at (i * n) (splice_at off ys (block_of n i disk)) disk)"
  then have "k < length disk" using assms b by simp
  then show "splice_at (i * n) (splice_at off ys (block_of n i disk)) disk ! k = splice_at (i * n + off) ys disk ! k"
    using assms b by (auto simp: nth_splice_at nth_block_of)
qed

lemma splice_splice:
  "a + length ys \<le> length xs \<Longrightarrow>
   splice_at (a + length ys) zs (splice_at a ys xs) = splice_at a (ys @ zs) xs"
  by (simp add: splice_at_def ac_simps)

section \<open>Writing one object\<close>

lemma max_generation_ge: "x \<in> set xs \<Longrightarrow> do_generation x \<le> max_generation xs"
proof -
  have "max_generation xs = foldr max (map do_generation xs) 0"
    unfolding max_generation_def by (rule foldr_fold [symmetric, THEN fun_cong]) (simp add: fun_eq_iff max.left_commute)
  moreover have "x \<in> set xs \<Longrightarrow> do_generation x \<le> foldr max (map do_generation xs) 0"
    by (induction xs) (auto simp: le_max_iff_disj)
  ultimately show "x \<in> set xs \<Longrightarrow> do_generation x \<le> max_generation xs" by simp
qed

lemma length_upsert_dirty: "length (upsert_dirty_row r rows) \<le> Suc (length rows)"
  by (simp add: upsert_dirty_row_def)

text \<open>The file and the rows one write of an object leaves.\<close>

lemma dirty_write:
  assumes ok: "store_ok s" and b: "unat offset + unat len < 2 ^ 62"
    and wc: "write_cache L i g bs True s = (x, s1)"
    and md: "mark_dirty L i g (cache_path s i g) (sha256_hex L bs) offset len s1 = (y, s2)"
  shows "x = Inr (sha256_hex L bs) \<and> y = Inr () \<and> store_ok s2 \<and> ls_cache_dir s2 = ls_cache_dir s \<and>
    ls_manifest_state s2 = ls_manifest_state s \<and> ls_files s2 = (ls_files s)(cache_path s i g \<mapsto> bs) \<and>
    ls_dirty_objects s2 = upsert_dirty_row (dirty_row_of L s1 i g (cache_path s i g) (sha256_hex L bs)) (ls_dirty_objects s)"
proof -
  note w = write_cache_spec [OF wc]
  have ok1: "store_ok s1" using ok w
    by (auto simp: store_ok_def store_frame_def wal_ok_def wal_ids_ok_def dirty_keys_ok_def)
  then have wal: "wal_ok s1" by (simp add: store_ok_def)
  have s2: "y = Inr ()" "ls_dirty_objects s2 = upsert_dirty_row (dirty_row_of L s1 i g (cache_path s i g) (sha256_hex L bs)) (ls_dirty_objects s1)"
    "ls_files s2 = ls_files s1" "ls_cache_dir s2 = ls_cache_dir s1" "ls_cache_entries s2 = ls_cache_entries s1"
    "ls_manifest_state s2 = ls_manifest_state s1"
    using md mark_dirty_eq [OF wal b, of L i g "cache_path s i g" "sha256_hex L bs"] by (auto simp: tick_def)
  have "wal_ok s2" by (rule mark_dirty_wal(1) [OF wal b md])
  moreover have "dirty_keys_ok s2" using ok1 s2(2) by (auto simp: store_ok_def intro: dirty_keys_upsert)
  moreover have "cache_rows_ok s2" using ok1 s2 by (simp add: store_ok_def cache_rows_ok_def cache_path_def)
  ultimately show ?thesis using w s2 by (simp add: store_ok_def store_frame_def)
qed

lemma dev_rel_write:
  assumes rel: "dev_rel L invar stored d disk" and i: "unat i < length (m_objects (bd_manifest d))"
    and obj: "length object = device_object_size d" and g: "m_generation (bd_manifest d) < g"
    and ok: "store_ok s2" and dir: "ls_cache_dir s2 = ls_cache_dir (bd_store d)"
    and files: "ls_files s2 = (ls_files (bd_store d))(cache_path (bd_store d) i g \<mapsto>
      sealed L (bm_object_size (bd_map d)) i g object)"
    and dirty: "ls_dirty_objects s2 = upsert_dirty_row row (ls_dirty_objects (bd_store d))"
    and row: "dirty_of_row row = \<lparr>do_object_id = i, do_generation = g, do_cache_path = cache_path (bd_store d) i g,
      do_sha256 = sha256_hex L (sealed L (bm_object_size (bd_map d)) i g object)\<rparr>"
  shows "dev_rel L invar stored (d\<lparr>bd_store := s2\<rparr>) (splice_at (unat i * device_object_size d) object disk)"
proof -
  let ?n = "device_object_size d" and ?objs = "m_objects (bd_manifest d)" and ?osz = "bm_object_size (bd_map d)"
  let ?disk = "splice_at (unat i * ?n) object disk"
  have shape: "shape_ok d disk" and o: "objects_ok L (stored (bd_backend d)) d disk"
    and inv: "invar (bd_backend d)" using rel by (simp_all add: dev_rel_def)
  have len: "length disk = length ?objs * ?n" using shape by (simp add: shape_ok_def)
  have path: "cache_path s2 = cache_path (bd_store d)" using dir by (simp add: cache_path_def fun_eq_iff)
  have rid: "dr_object_id row = i" using row by (simp add: dirty_of_row_def)
  have dob: "dirty_object j s2 = (if j = i then Some (dirty_of_row row) else dirty_object j (bd_store d))" for j
    using dirty_object_upsert [OF dirty] by (simp add: rid)
  have blk: "block_of ?n j ?disk = (if j = unat i then object else block_of ?n j disk)" if "j < length ?objs" for j
    using block_splice [OF len i that obj] by simp
  have other: "ls_files s2 (cache_path (bd_store d) j h) = ls_files (bd_store d) (cache_path (bd_store d) j h)" if "j \<noteq> i" for j h
    using that by (simp add: files cache_path_def object_path_inj)
  have sel: "bd_store (d\<lparr>bd_store := s2\<rparr>) = s2" "bd_manifest (d\<lparr>bd_store := s2\<rparr>) = bd_manifest d"
    "bd_map (d\<lparr>bd_store := s2\<rparr>) = bd_map d" "device_object_size (d\<lparr>bd_store := s2\<rparr>) = ?n"
    by simp_all
  have "shape_ok (d\<lparr>bd_store := s2\<rparr>) ?disk"
    using shape block_bound [OF len i] obj by (simp add: shape_ok_def)
  moreover have "objects_ok L (stored (bd_backend d)) (d\<lparr>bd_store := s2\<rparr>) ?disk"
    unfolding objects_ok_def sel
  proof (intro conjI allI impI)
    fix j x assume x: "dirty_object j s2 = Some x"
    show "unat j < length ?objs" using x o i by (auto simp: dob objects_ok_def split: if_splits)
    show "dirty_ok L ?osz s2 x (block_of ?n (unat j) ?disk)"
    proof (cases "j = i")
      case True
      then show ?thesis using x row blk [OF i] by (auto simp: dob dirty_ok_def path files)
    next
      case False
      then have x': "dirty_object j (bd_store d) = Some x" using x by (simp add: dob)
      then have dk: "dirty_ok L ?osz (bd_store d) x (block_of ?n (unat j) disk)" "unat j < length ?objs"
        using o by (simp_all add: objects_ok_def)
      have jd: "do_object_id x = j" using x' by (rule dirty_object_id)
      have "block_of ?n (unat j) ?disk = block_of ?n (unat j) disk" using blk [OF dk(2)] False by (simp add: word_unat_eq_iff)
      then show ?thesis using dk(1) other [OF False] unfolding dirty_ok_def path jd by metis
    qed
  next
    fix j assume j: "j < length ?objs" and cl: "dirty_object (of_nat j) s2 = None"
    then have ne: "of_nat j \<noteq> i" and cl': "dirty_object (of_nat j) (bd_store d) = None"
      by (auto simp: dob split: if_splits)
    have "j \<noteq> unat i" using ne by auto
    then have bj: "block_of ?n j ?disk = block_of ?n j disk" using blk [OF j] by simp
    have c: "remote_ok L ?osz (stored (bd_backend d)) (?objs ! j) (block_of ?n j disk)"
      "cached_ok L ?osz (bd_store d) (?objs ! j) (block_of ?n j disk)"
      "mo_generation (?objs ! j) \<le> m_generation (bd_manifest d)"
      using o j cl' by (simp_all add: objects_ok_def)
    show "remote_ok L ?osz (stored (bd_backend d)) (?objs ! j) (block_of ?n j ?disk)" using c(1) by (simp only: bj)
    show "mo_generation (?objs ! j) \<le> m_generation (bd_manifest d)" by (rule c(3))
    show "cached_ok L ?osz s2 (?objs ! j) (block_of ?n j ?disk)"
      using c(2) other [OF ne] shape_ids [OF shape j] by (simp add: cached_ok_def bj path)
  next
    have "dirty_of_row row \<in> set (dirty_objects s2)"
      using ok row dob [of i] mem_dirty_objects [of s2 "dirty_of_row row"] by (simp add: store_ok_def)
    then have "g \<le> max_generation (dirty_objects s2)" using max_generation_ge [of "dirty_of_row row"] row by simp
    then show "m_generation (bd_manifest d) \<le> max_generation (dirty_objects s2)" using g by simp
  qed
  ultimately show ?thesis using ok inv by (simp add: dev_rel_def)
qed

definition same_config :: "'b BlockDevice \<Rightarrow> 'b BlockDevice \<Rightarrow> bool" where
  "same_config d d' \<longleftrightarrow> bd_map d' = bd_map d \<and> bd_manifest d' = bd_manifest d \<and>
     bd_committer d' = bd_committer d \<and> bd_max_dirty_objects d' = bd_max_dirty_objects d \<and>
     bd_read_ahead_objects d' = bd_read_ahead_objects d"

lemma same_config_refl [simp]: "same_config d d"
  by (simp add: same_config_def)

lemma same_config_trans: "same_config a b \<Longrightarrow> same_config b c \<Longrightarrow> same_config a c"
  by (simp add: same_config_def)

lemma kept_same_config: "kept L invar room stored disk d d' \<Longrightarrow> same_config d d'"
  by (simp add: kept_def same_core_def same_config_def)

lemma write_dirty_object_rel:
  assumes rel: "dev_rel L invar stored d disk" and i: "unat i < length (m_objects (bd_manifest d))"
    and obj: "length object = device_object_size d" and g: "unat (m_generation (bd_manifest d)) + 1 < 2 ^ 64"
    and b: "unat offset + unat len < 2 ^ 62"
    and wr: "write_dirty_object L i object offset len d = (x, d')"
  shows "if st_dirty_objects (stats (bd_store d)) < bd_max_dirty_objects d
    then x = Inr () \<and> dev_rel L invar stored d' (splice_at (unat i * device_object_size d) object disk) \<and>
      same_config d d' \<and> bd_backend d' = bd_backend d \<and>
      st_dirty_objects (stats (bd_store d')) \<le> Suc (st_dirty_objects (stats (bd_store d)))
    else x = Inl (Anyhow ''dirty object backpressure limit reached'') \<and> d' = d"
proof (cases "st_dirty_objects (stats (bd_store d)) < bd_max_dirty_objects d")
  case False
  then show ?thesis using wr obj by (auto simp: write_dirty_object_def)
next
  case True
  let ?s = "bd_store d" and ?g = "m_generation (bd_manifest d) + 1"
  let ?enc = "sealed L (bm_object_size (bd_map d)) i ?g object"
  have add: "add_w L (m_generation (bd_manifest d)) 1 = Inr ?g" using g by (intro add_w_Inr) simp
  have lt: "m_generation (bd_manifest d) < ?g" using g by (simp add: word_less_nat_alt unat_word_ariths)
  obtain y s1 where wc: "write_cache L i ?g ?enc True ?s = (y, s1)" by force
  obtain z s2 where md: "mark_dirty L i ?g (cache_path ?s i ?g) (sha256_hex L ?enc) offset len s1 = (z, s2)" by force
  have so: "store_ok ?s" using rel by (simp add: dev_rel_def)
  note dw = dirty_write [OF so b wc md]
  have cp: "cache_path s1 = cache_path ?s"
    using write_cache_spec [OF wc] by (simp add: store_frame_def cache_path_def fun_eq_iff)
  have eq: "write_dirty_object L i object offset len d = (Inr (), d\<lparr>bd_store := s2\<rparr>)"
    using obj True dw wc md
    by (simp add: write_dirty_object_def add bnd_apply on_store_def sealed_def [symmetric] cp)
  have "dev_rel L invar stored (d\<lparr>bd_store := s2\<rparr>) (splice_at (unat i * device_object_size d) object disk)"
    using dw by (intro dev_rel_write [OF rel i obj lt]) (auto simp: dirty_of_row_def dirty_row_of_def)
  moreover have "st_dirty_objects (stats s2) \<le> Suc (st_dirty_objects (stats ?s))"
    using dw by (simp add: stats_def length_upsert_dirty)
  ultimately show ?thesis using wr True by (auto simp: eq same_config_def)
qed

section \<open>The write loop\<close>

abbreviation backpressure :: err where
  "backpressure \<equiv> Anyhow ''dirty object backpressure limit reached''"

lemma write_loop_zero: "write_loop L B bs 0 input_offset cursor d = (Inr (), d)"
  by (simp add: write_loop.simps)

lemma write_loop_step:
  fixes d :: "'b BlockDevice"
  assumes "remaining \<noteq> 0" "locate (bd_map d) cursor = Inr (i, off)"
  defines "k \<equiv> min remaining (device_object_size d - off)"
  assumes "(if off = 0 \<and> k = device_object_size d then (Inr (replicate (device_object_size d) 0), d)
      else read_object L B i d) = (y, d1)"
  shows "write_loop L B bs remaining io cursor d =
      (case y of Inl e \<Rightarrow> (Inl e, d1) | Inr object \<Rightarrow>
        if length object < off + k then (Inl (Panic ''range end index out of range for slice''), d1)
        else case write_dirty_object L i (splice_at off (slice io (io + k) bs) object) (of_nat off) (of_nat k) d1 of
          (Inl e, d2) \<Rightarrow> (Inl e, d2)
        | (Inr _, d2) \<Rightarrow> (case add_w L cursor (of_nat k) of Inl e \<Rightarrow> (Inl e, d2)
            | Inr cursor' \<Rightarrow> write_loop L B bs (remaining - k) (io + k) cursor' d2))"
  using assms(1,2,4) unfolding k_def device_object_size_def
  by (subst write_loop.simps) (simp only: Let_def sum.case prod.case if_False split: sum.split prod.split)

text \<open>The state after (part of) a write, and the errors a write may end with.\<close>

definition wrote :: "libs \<Rightarrow> ('b \<Rightarrow> bool) \<Rightarrow> ('b \<Rightarrow> nat \<Rightarrow> bool) \<Rightarrow> ('b \<Rightarrow> i32 \<rightharpoonup> bytes) \<Rightarrow>
    'b BlockDevice \<Rightarrow> 'b BlockDevice \<Rightarrow> bytes \<Rightarrow> bool" where
  "wrote L invar room stored d d' disk' \<longleftrightarrow> dev_rel L invar stored d' disk' \<and> same_config d d' \<and>
     room (bd_backend d') = room (bd_backend d) \<and> stored (bd_backend d') = stored (bd_backend d)"

definition write_error :: "libs \<Rightarrow> 'b backend \<Rightarrow> ('b \<Rightarrow> bool) \<Rightarrow> ('b \<Rightarrow> i32 \<rightharpoonup> bytes) \<Rightarrow>
    'b BlockDevice \<Rightarrow> 'b BlockDevice \<Rightarrow> err \<Rightarrow> bool" where
  "write_error L B invar stored d d' e \<longleftrightarrow>
     (\<exists>i d1 disk1. dev_rel L invar stored d1 disk1 \<and> same_config d d1 \<and>
        unat i < length (m_objects (bd_manifest d)) \<and> fst (read_object L B i d1) = Inl e) \<or>
     e = backpressure \<and> bd_max_dirty_objects d' \<le> st_dirty_objects (stats (bd_store d'))"

lemma wrote_trans:
  "wrote L invar room stored a b disk1 \<Longrightarrow> wrote L invar room stored b c disk2 \<Longrightarrow> wrote L invar room stored a c disk2"
  by (auto simp: wrote_def intro: same_config_trans)

lemma write_error_mono:
  "wrote L invar room stored a b disk1 \<Longrightarrow> write_error L B invar stored b c e \<Longrightarrow> write_error L B invar stored a c e"
  by (auto simp: wrote_def write_error_def same_config_def)

context remote_backend
begin

lemma object_for_write:
  assumes rel: "dev_rel L invar stored d disk" and L: "digest32 L"
    and i: "unat i < length (m_objects (bd_manifest d))" and chunk: "off + length chunk \<le> device_object_size d"
    and rd: "(if off = 0 \<and> length chunk = device_object_size d then (Inr (replicate (device_object_size d) 0), d)
      else read_object L B i d) = (y, d1)"
  shows "kept L invar room stored disk d d1 \<and>
    (case y of Inl e \<Rightarrow> fst (read_object L B i d) = Inl e
     | Inr object \<Rightarrow> length object = device_object_size d \<and>
         splice_at (unat i * device_object_size d) (splice_at off chunk object) disk =
           splice_at (unat i * device_object_size d + off) chunk disk)"
proof -
  have len: "length disk = length (m_objects (bd_manifest d)) * device_object_size d"
    using rel by (simp add: dev_rel_def shape_ok_def)
  note bb = block_bound [OF len i]
  note sb = splice_block [OF chunk bb] and lb = length_block_of [OF len i]
  show ?thesis
  proof (cases "off = 0 \<and> length chunk = device_object_size d")
    case True
    then have "d1 = d" "y = Inr (replicate (device_object_size d) 0)" using rd by auto
    then show ?thesis using True kept_refl [OF rel, of room] by (simp add: splice_at_def)
  next
    case False
    then have "read_object L B i d = (y, d1)" using rd by (simp only: if_False)
    from read_object_rel [OF rel L i this] this show ?thesis using sb lb by (auto split: sum.splits)
  qed
qed

text \<open>One round of the loop: it stops with an error, or goes on from a disk with the chunk written.\<close>

lemma write_round:
  fixes cursor :: u64
  assumes rel: "dev_rel L invar stored d disk" and L: "digest32 L"
    and gen: "unat (m_generation (bd_manifest d)) + 1 < 2 ^ 64" and r: "0 < remaining"
    and fit: "unat cursor + remaining \<le> unat (bm_device_size (bd_map d))" and io: "io + remaining = length bs"
  defines "k \<equiv> min remaining (device_object_size d - unat cursor mod device_object_size d)"
  shows "0 < k \<and>
    ((\<exists>e d'. write_loop L B bs remaining io cursor d = (Inl e, d') \<and> kept L invar room stored disk d d' \<and>
        write_error L B invar stored d d' e) \<or>
     (\<exists>d'. write_loop L B bs remaining io cursor d = write_loop L B bs (remaining - k) (io + k) (cursor + of_nat k) d' \<and>
        wrote L invar room stored d d' (splice_at (unat cursor) (slice io (io + k) bs) disk) \<and>
        st_dirty_objects (stats (bd_store d')) \<le> Suc (st_dirty_objects (stats (bd_store d)))))"
proof -
  let ?n = "device_object_size d"
  let ?off = "unat cursor mod ?n" and ?chunk = "slice io (io + k) bs"
  have shape: "shape_ok d disk" using rel by (simp add: dev_rel_def)
  have "0 < ?n" using shape by (simp add: shape_ok_def)
  then have off: "?off < ?n" by simp
  then have k: "0 < k" "?off + k \<le> ?n" "k \<le> remaining" using r by (auto simp: k_def)
  obtain i where i: "locate (bd_map d) cursor = Inr (i, ?off)" "unat i = unat cursor div ?n"
    "unat i < length (m_objects (bd_manifest d))"
    using locate_rel [OF shape, of cursor] fit r by auto
  have lc: "length ?chunk = k" using io k(3) by simp
  have pos: "unat i * ?n + ?off = unat cursor" by (simp add: i(2))
  obtain y d1 where ro: "(if ?off = 0 \<and> k = ?n then (Inr (replicate ?n 0), d) else read_object L B i d) = (y, d1)"
    by force
  have ofw: "kept L invar room stored disk d d1 \<and>
    (case y of Inl e \<Rightarrow> fst (read_object L B i d) = Inl e
     | Inr object \<Rightarrow> length object = ?n \<and>
       splice_at (unat i * ?n) (splice_at ?off ?chunk object) disk = splice_at (unat cursor) ?chunk disk)"
    using object_for_write [OF rel L i(3), of ?off ?chunk y d1] k(2) ro unfolding lc pos by simp
  then have kp: "kept L invar room stored disk d d1" by simp
  note kd = keptD [OF kp] and step = write_loop_step [OF _ i(1) ro [unfolded k_def], of bs io, folded k_def]
  show ?thesis
  proof (cases y)
    case (Inl e)
    then have "write_error L B invar stored d d1 e"
      using ofw rel i(3) unfolding write_error_def by (intro disjI1 exI [of _ i] exI [of _ d] exI [of _ disk]) simp
    then show ?thesis using kp k(1) r by (auto simp: step Inl)
  next
    case (Inr object)
    let ?obj = "splice_at ?off ?chunk object" and ?disk = "splice_at (unat cursor) ?chunk disk"
    have lo: "length object = ?n" and eq: "splice_at (unat i * ?n) ?obj disk = ?disk" using ofw Inr by simp_all
    have lobj: "length ?obj = device_object_size d1" using lo k(2) lc by (simp add: kd(5))
    obtain z d2 where wd: "write_dirty_object L i ?obj (of_nat ?off) (of_nat k) d1 = (z, d2)" by force
    have small: "unat (of_nat ?off :: u64) + unat (of_nat k :: u64) < 2 ^ 62"
      using k(2) osize_bound [of d] off by (simp add: unat_of_nat_len)
    have i1: "unat i < length (m_objects (bd_manifest d1))" "unat (m_generation (bd_manifest d1)) + 1 < 2 ^ 64"
      using i(3) gen by (simp_all add: kd(4))
    note wr = write_dirty_object_rel [OF kd(1) i1(1) lobj i1(2) small wd, unfolded kd(5) eq]
    have ge: "\<not> length object < ?off + k" using lo k(2) by simp
    have cs: "add_w L cursor (of_nat k) = Inr (cursor + of_nat k)"
      using fit k(3) by (intro cursor_step(1) [where size = "bm_device_size (bd_map d)"]) simp
    show ?thesis
    proof (cases "st_dirty_objects (stats (bd_store d1)) < bd_max_dirty_objects d1")
      case False
      then have "write_loop L B bs remaining io cursor d = (Inl backpressure, d1)" "write_error L B invar stored d d1 backpressure"
        using wr wd ge r by (simp_all add: step Inr write_error_def)
      then show ?thesis using kp k(1) by blast
    next
      case True
      then have "write_loop L B bs remaining io cursor d = write_loop L B bs (remaining - k) (io + k) (cursor + of_nat k) d2"
        "wrote L invar room stored d d2 ?disk" "st_dirty_objects (stats (bd_store d2)) \<le> Suc (st_dirty_objects (stats (bd_store d)))"
        using wr wd ge r cs kp kept_same_config [OF kp]
        by (auto simp: step Inr wrote_def kept_def stats_def kd(9) intro: same_config_trans)
      then show ?thesis using k(1) by blast
    qed
  qed
qed

lemma write_loop_rel:
  assumes "dev_rel L invar stored d disk" and L: "digest32 L"
    and "unat (m_generation (bd_manifest d)) + 1 < 2 ^ 64"
    and "unat cursor + remaining \<le> unat (bm_device_size (bd_map d))" and "io + remaining = length bs"
    and "write_loop L B bs remaining io cursor d = (x, d')"
  shows "\<exists>j \<le> remaining. wrote L invar room stored d d' (splice_at (unat cursor) (slice io (io + j) bs) disk) \<and>
    (case x of Inr _ \<Rightarrow> j = remaining | Inl e \<Rightarrow> write_error L B invar stored d d' e)"
  using assms(1,3-)
proof (induction remaining arbitrary: cursor io d disk rule: less_induct)
  case (less remaining)
  note rel = less.prems(1)
  show ?case
  proof (cases "remaining = 0")
    case True
    then show ?thesis using less.prems by (auto simp: write_loop_zero slice_def splice_at_def wrote_def)
  next
    case False
    let ?k = "min remaining (device_object_size d - unat cursor mod device_object_size d)"
    let ?disk = "splice_at (unat cursor) (slice io (io + ?k) bs) disk"
    have shape: "shape_ok d disk" using rel by (simp add: dev_rel_def)
    have r: "0 < remaining" using False by simp
    from write_round [OF rel L less.prems(2) r less.prems(3,4)]
    consider (stop) e where "x = Inl e" "kept L invar room stored disk d d'" "write_error L B invar stored d d' e"
      | (go) d2 where "write_loop L B bs (remaining - ?k) (io + ?k) (cursor + of_nat ?k) d2 = (x, d')"
        "wrote L invar room stored d d2 ?disk" "0 < ?k"
      using less.prems(5) by auto
    then show ?thesis
    proof cases
      case stop
      then show ?thesis using kept_same_config [OF stop(2)]
        by (intro exI [of _ 0]) (simp add: kept_def wrote_def slice_def splice_at_def)
    next
      case go
      have k: "?k \<le> remaining" by simp
      have cs: "unat (cursor + of_nat ?k) = unat cursor + ?k"
        using less.prems(3) k by (intro cursor_step(2) [where size = "bm_device_size (bd_map d)"]) linarith
      have cf: "bd_map d2 = bd_map d" "bd_manifest d2 = bd_manifest d" and rel2: "dev_rel L invar stored d2 ?disk"
        using go(2) by (simp_all add: wrote_def same_config_def)
      have lc: "length (slice io (io + ?k) bs) = ?k" using less.prems(4) k by simp
      have fit: "unat cursor + length (slice io (io + ?k) bs) \<le> length disk"
        using less.prems(3) k shape unfolding lc shape_ok_def by linarith
      have pr: "remaining - ?k < remaining" "unat (m_generation (bd_manifest d2)) + 1 < 2 ^ 64"
        "unat (cursor + of_nat ?k) + (remaining - ?k) \<le> unat (bm_device_size (bd_map d2))"
        "io + ?k + (remaining - ?k) = length bs"
        using go(3) less.prems(2-4) r by (simp_all add: cs cf)
      from less.IH [OF pr(1) rel2 pr(2-4) go(1)] obtain j where j: "j \<le> remaining - ?k"
        "wrote L invar room stored d2 d' (splice_at (unat cursor + ?k) (slice (io + ?k) (io + ?k + j) bs) ?disk)"
        "case x of Inr _ \<Rightarrow> j = remaining - ?k | Inl e \<Rightarrow> write_error L B invar stored d2 d' e"
        unfolding cs by blast
      have sp: "splice_at (unat cursor + ?k) (slice (io + ?k) (io + ?k + j) bs) ?disk =
          splice_at (unat cursor) (slice io (io + (?k + j)) bs) disk"
        using splice_splice [OF fit, of "slice (io + ?k) (io + ?k + j) bs"] slice_append_split [of io "io + ?k" "io + ?k + j" bs]
        by (simp only: lc) (simp add: add.assoc)
      from j(2) have "wrote L invar room stored d d' (splice_at (unat cursor) (slice io (io + (?k + j)) bs) disk)"
        unfolding sp using go(2) by (rule wrote_trans [rotated])
      then show ?thesis
        using j k write_error_mono [OF go(2)]
        by (intro exI [of _ "?k + j"]) (auto split: sum.splits)
    qed
  qed
qed

lemma write_at_rel:
  assumes rel: "dev_rel L invar stored d disk" and L: "digest32 L"
    and gen: "unat (m_generation (bd_manifest d)) + 1 < 2 ^ 64"
    and b: "unat offset + length bs \<le> unat (bm_device_size (bd_map d))"
    and wr: "write_at L B offset bs d = (x, d')"
  shows "\<exists>j \<le> length bs. wrote L invar room stored d d' (splice_at (unat offset) (take j bs) disk) \<and>
    (case x of Inr _ \<Rightarrow> j = length bs | Inl e \<Rightarrow> write_error L B invar stored d d' e)"
proof -
  have add: "add_w L offset (of_nat (length bs)) = Inr (offset + of_nat (length bs))"
    "unat (offset + of_nat (length bs)) = unat offset + length bs"
    using b by (auto intro!: cursor_step [where size = "bm_device_size (bd_map d)"])
  then have "offset + of_nat (length bs) \<le> bm_device_size (bd_map d)" using b by (simp add: word_le_nat_alt)
  then have "write_loop L B bs (length bs) 0 offset d = (x, d')" using wr by (simp add: write_at_def add)
  from write_loop_rel [OF rel L gen b _ this] show ?thesis by (auto simp: slice_def)
qed

end

context readable_backend
begin

lemma write_at_live:
  assumes rel: "dev_rel L invar stored d disk" and L: "digest32 L"
    and gen: "unat (m_generation (bd_manifest d)) + 1 < 2 ^ 64"
    and b: "unat offset + length bs \<le> unat (bm_device_size (bd_map d))"
    and wr: "write_at L B offset bs d = (Inl e, d')"
  shows "e = backpressure \<and> bd_max_dirty_objects d' \<le> st_dirty_objects (stats (bd_store d'))"
proof -
  have we: "write_error L B invar stored d d' e" using write_at_rel [OF rel L gen b wr] by auto
  have "fst (read_object L B i d1) \<noteq> Inl e"
    if "dev_rel L invar stored d1 disk1" "same_config d d1" "unat i < length (m_objects (bd_manifest d))" for i d1 disk1
    using read_object_live [OF that(1) L, of i e] that by (simp add: same_config_def)
  then show ?thesis using we unfolding write_error_def by blast
qed

text \<open>A write that touches \<open>r\<close> objects succeeds when the dirty set has room for \<open>r\<close> more.\<close>

lemma write_loop_live:
  assumes "dev_rel L invar stored d disk" and L: "digest32 L"
    and "unat (m_generation (bd_manifest d)) + 1 < 2 ^ 64"
    and "unat cursor + remaining \<le> unat (bm_device_size (bd_map d))" and "io + remaining = length bs"
    and "unat cursor mod device_object_size d + remaining \<le> r * device_object_size d"
    and "st_dirty_objects (stats (bd_store d)) + r \<le> bd_max_dirty_objects d"
  shows "\<exists>d'. write_loop L B bs remaining io cursor d = (Inr (), d')"
  using assms(1,3-)
proof (induction r arbitrary: remaining cursor io d disk)
  case 0
  then show ?case by (simp add: write_loop_zero)
next
  case (Suc r)
  let ?n = "device_object_size d"
  let ?k = "min remaining (?n - unat cursor mod ?n)"
  let ?disk = "splice_at (unat cursor) (slice io (io + ?k) bs) disk"
  show ?case
  proof (cases "remaining = 0")
    case False
    then have pos: "0 < remaining" by simp
    have no_err: "\<not> write_error L B invar stored d d' e" if "kept L invar room stored disk d d'" for d' e
    proof -
      have "st_dirty_objects (stats (bd_store d')) < bd_max_dirty_objects d'"
        using Suc.prems(6) keptD [OF that] by (simp add: stats_def)
      moreover have "fst (read_object L B i d1) \<noteq> Inl e"
        if "dev_rel L invar stored d1 disk1" "same_config d d1" "unat i < length (m_objects (bd_manifest d))" for i d1 disk1
        using read_object_live [OF that(1) L, of i e] that by (simp add: same_config_def)
      ultimately show ?thesis unfolding write_error_def by force
    qed
    from write_round [OF Suc.prems(1) L Suc.prems(2) pos Suc.prems(3,4)] no_err
    obtain d2 where go: "write_loop L B bs remaining io cursor d =
        write_loop L B bs (remaining - ?k) (io + ?k) (cursor + of_nat ?k) d2"
      "wrote L invar room stored d d2 ?disk"
      "st_dirty_objects (stats (bd_store d2)) \<le> Suc (st_dirty_objects (stats (bd_store d)))" by blast
    have sel: "bd_map d2 = bd_map d" "bd_manifest d2 = bd_manifest d" "bd_max_dirty_objects d2 = bd_max_dirty_objects d"
      "device_object_size d2 = ?n" and rel2: "dev_rel L invar stored d2 ?disk"
      using go(2) by (simp_all add: wrote_def same_config_def device_object_size_def)
    show ?thesis
    proof (cases "remaining \<le> ?n - unat cursor mod ?n")
      case True
      then show ?thesis using go(1) by (simp add: write_loop_zero)
    next
      case big: False
      have "0 < ?n" using Suc.prems(1) by (simp add: dev_rel_def shape_ok_def)
      then have k: "?k = ?n - unat cursor mod ?n" "unat cursor mod ?n < ?n" using big by simp_all
      have cs: "unat (cursor + of_nat ?k) = unat cursor + ?k"
        using Suc.prems(3) by (intro cursor_step(2) [where size = "bm_device_size (bd_map d)"]) linarith
      have "unat cursor + ?k = unat cursor div ?n * ?n + ?n"
        unfolding k(1) using k(2) div_mult_mod_eq [of "unat cursor" ?n] by linarith
      then have aligned: "(unat cursor + ?k) mod ?n = 0" by simp
      have "remaining - ?k \<le> r * ?n" using Suc.prems(5) k by simp
      moreover have "unat (cursor + of_nat ?k) + (remaining - ?k) \<le> unat (bm_device_size (bd_map d2))"
        using Suc.prems(3) by (simp add: cs sel)
      ultimately show ?thesis
        unfolding go(1) using Suc.prems(2,4,6) go(3)
        by (intro Suc.IH [OF rel2]) (simp_all add: sel cs aligned)
    qed
  qed (simp add: write_loop_zero)
qed

lemma write_at_succeeds:
  assumes rel: "dev_rel L invar stored d disk" and L: "digest32 L"
    and gen: "unat (m_generation (bd_manifest d)) + 1 < 2 ^ 64"
    and b: "unat offset + length bs \<le> unat (bm_device_size (bd_map d))"
    and r: "unat offset mod device_object_size d + length bs \<le> r * device_object_size d"
      "st_dirty_objects (stats (bd_store d)) + r \<le> bd_max_dirty_objects d"
  shows "\<exists>d'. write_at L B offset bs d = (Inr (), d')"
proof -
  have add: "add_w L offset (of_nat (length bs)) = Inr (offset + of_nat (length bs))"
    "unat (offset + of_nat (length bs)) = unat offset + length bs"
    using b by (auto intro!: cursor_step [where size = "bm_device_size (bd_map d)"])
  then have "offset + of_nat (length bs) \<le> bm_device_size (bd_map d)" using b by (simp add: word_le_nat_alt)
  then have "write_at L B offset bs d = write_loop L B bs (length bs) 0 offset d" by (simp add: write_at_def add)
  then show ?thesis using write_loop_live [OF rel L gen b _ r, of 0] by simp
qed

end

end
