(* ===== verification/BlockFlush.thy ===== *)
theory BlockFlush
  imports BlockWrite
begin

text \<open>
  Flushing: every dirty object is uploaded, the manifest is committed and stored, and the dirty
  set is cleared. A flush that fails at any point keeps the disk and the dirty set, one that
  succeeds makes every object recoverable from the backend and the committed manifest alone.
\<close>

section \<open>Uploaded objects\<close>

definition uploaded :: "libs \<Rightarrow> (i32 \<rightharpoonup> bytes) \<Rightarrow> 'b BlockDevice \<Rightarrow> bytes \<Rightarrow> nat \<Rightarrow> bool" where
  "uploaded L msgs d disk i \<longleftrightarrow>
     remote_ok L (bm_object_size (bd_map d)) msgs (m_objects (bd_manifest d) ! i) (block_of (device_object_size d) i disk) \<and>
     cached_ok L (bm_object_size (bd_map d)) (bd_store d) (m_objects (bd_manifest d) ! i) (block_of (device_object_size d) i disk) \<and>
     mo_generation (m_objects (bd_manifest d) ! i) \<le> m_generation (bd_manifest d)"

text \<open>The fields of a manifest that describe the device, which no operation changes.\<close>

definition manifest_head :: "Manifest \<Rightarrow> string \<times> u16 \<times> 128 word \<times> u32 \<times> u64" where
  "manifest_head m = (m_magic m, m_format_version m, m_device_uuid m, m_object_size m, m_object_count m)"

definition same_but_manifest :: "'b BlockDevice \<Rightarrow> 'b BlockDevice \<Rightarrow> bool" where
  "same_but_manifest d d' \<longleftrightarrow> bd_map d' = bd_map d \<and> bd_store d' = bd_store d \<and>
     bd_committer d' = bd_committer d \<and> bd_max_dirty_objects d' = bd_max_dirty_objects d \<and>
     bd_read_ahead_objects d' = bd_read_ahead_objects d \<and>
     m_generation (bd_manifest d') = m_generation (bd_manifest d) \<and> manifest_head (bd_manifest d') = manifest_head (bd_manifest d) \<and>
     map mo_object_id (m_objects (bd_manifest d')) = map mo_object_id (m_objects (bd_manifest d)) \<and>
     (\<forall>j. dirty_object (of_nat j) (bd_store d) = None \<longrightarrow>
        m_objects (bd_manifest d') ! j = m_objects (bd_manifest d) ! j)"

lemma same_but_manifest_trans: "same_but_manifest a b \<Longrightarrow> same_but_manifest b c \<Longrightarrow> same_but_manifest a c"
  by (simp add: same_but_manifest_def)

lemma same_but_manifestD:
  "same_but_manifest d d' \<Longrightarrow> length (m_objects (bd_manifest d')) = length (m_objects (bd_manifest d))"
  by (metis length_map same_but_manifest_def)

lemma position_of_nth:
  assumes ids: "map mo_object_id xs = map of_nat [0..<length xs]" and l: "length xs < 2 ^ 64" and i: "unat i < length xs"
  shows "position_of i xs = Some (unat i)"
proof -
  have "takeWhile (\<lambda>x. mo_object_id x \<noteq> i) xs = take (unat i) xs"
  proof (rule takeWhile_eq_take_P_nth)
    fix k assume k: "k < unat i" "k < length xs"
    then have "unat (of_nat k :: u64) = k" using l by (intro unat_of_nat_len) simp
    then have "of_nat k \<noteq> i" using k(1) by auto
    then show "mo_object_id (xs ! k) \<noteq> i" using ids_nth [OF ids k(2)] by simp
  next
    show "\<not> mo_object_id (xs ! unat i) \<noteq> i" using ids_nth [OF ids i] by simp
  qed
  then show ?thesis using i by (simp add: position_of_def)
qed

lemma commit_entry_objects:
  "m_objects (commit_entry k g r sha m) = (m_objects m)[k := (m_objects m ! k)\<lparr>mo_generation := g,
     mo_remote := Some r, mo_sha256 := Some sha, mo_zero := False\<rparr>]"
  "m_generation (commit_entry k g r sha m) = m_generation m" "manifest_head (commit_entry k g r sha m) = manifest_head m"
  by (simp_all add: commit_entry_def Let_def manifest_head_def)

lemma map_update_same: "f y = f (xs ! k) \<Longrightarrow> map f (xs[k := y]) = map f xs"
  by (metis list_update_id map_update)

lemma commit_entry_ids: "map mo_object_id (m_objects (commit_entry k g r sha m)) = map mo_object_id (m_objects m)"
  by (simp add: commit_entry_objects map_update_same)

lemma remote_ok_mono: "remote_ok L osz msgs x blk \<Longrightarrow> msgs \<subseteq>\<^sub>m msgs' \<Longrightarrow> remote_ok L osz msgs' x blk"
  by (auto simp: remote_ok_def map_le_def dom_def split: if_splits)

lemma dev_rel_backend:
  assumes "dev_rel L invar stored d disk" "invar b'" "stored (bd_backend d) \<subseteq>\<^sub>m stored b'"
  shows "dev_rel L invar stored (d\<lparr>bd_backend := b', bd_metrics := m\<rparr>) disk"
proof -
  have eq: "d\<lparr>bd_backend := b', bd_metrics := m\<rparr> = d\<lparr>bd_store := bd_store d, bd_metrics := m, bd_backend := b'\<rparr>"
    by (cases d) simp
  have "store_frame (bd_store d) (bd_store d)" by (simp add: store_frame_def)
  from dev_rel_same_files [OF assms(1) this refl assms(2,3) eq] show ?thesis ..
qed

lemma commit_entry_clean:
  assumes "dirty_object i s = Some x" "dirty_object (of_nat j) s = None"
  shows "m_objects (commit_entry (unat i) g r sha m) ! j = m_objects m ! j"
proof -
  have "unat i \<noteq> j" using assms by auto
  then show ?thesis by (simp add: commit_entry_objects)
qed

text \<open>Changing the entry of a dirty object keeps the relation.\<close>

lemma dev_rel_commit_entry:
  assumes rel: "dev_rel L invar stored d disk" and i: "dirty_object i (bd_store d) = Some x"
  shows "dev_rel L invar stored (d\<lparr>bd_manifest := commit_entry (unat i) g r sha (bd_manifest d)\<rparr>) disk"
proof -
  let ?m = "commit_entry (unat i) g r sha (bd_manifest d)"
  have len: "length (m_objects ?m) = length (m_objects (bd_manifest d))" by (simp add: commit_entry_objects)
  note same = commit_entry_clean [OF i]
  have "shape_ok (d\<lparr>bd_manifest := ?m\<rparr>) disk"
    using rel unfolding dev_rel_def shape_ok_def by (simp add: len commit_entry_ids)
  moreover have "objects_ok L (stored (bd_backend d)) (d\<lparr>bd_manifest := ?m\<rparr>) disk"
    using rel unfolding dev_rel_def objects_ok_def by (auto simp: len same commit_entry_objects(2))
  ultimately show ?thesis using rel by (simp add: dev_rel_def)
qed

context remote_backend
begin

lemma upload_dirty_rel:
  assumes rel: "dev_rel L invar stored d disk" and L: "digest32 L"
    and x: "dirty_object (do_object_id x) (bd_store d) = Some x"
    and gx: "do_generation x \<le> m_generation (bd_manifest d)" and rm: "room (bd_backend d) (Suc n)"
    and up: "upload_dirty L B x d = (y, d')"
  shows "dev_rel L invar stored d' disk \<and> same_but_manifest d d' \<and> room (bd_backend d') n \<and>
    stored (bd_backend d) \<subseteq>\<^sub>m stored (bd_backend d') \<and>
    (\<forall>j < length (m_objects (bd_manifest d)). uploaded L (stored (bd_backend d)) d disk j \<longrightarrow>
       uploaded L (stored (bd_backend d')) d' disk j) \<and>
    (y = Inr () \<longrightarrow> uploaded L (stored (bd_backend d')) d' disk (unat (do_object_id x)))"
proof -
  let ?i = "do_object_id x" and ?objs = "m_objects (bd_manifest d)" and ?osz = "bm_object_size (bd_map d)"
  let ?blk = "block_of (device_object_size d) (unat ?i) disk"
  let ?enc = "sealed L ?osz ?i (do_generation x) ?blk"
  have shape: "shape_ok d disk" and i: "unat ?i < length ?objs" and dk: "dirty_ok L ?osz (bd_store d) x ?blk"
    and inv: "invar (bd_backend d)"
    using rel x by (auto simp: dev_rel_def objects_ok_def)
  have ids: "map mo_object_id ?objs = map of_nat [0..<length ?objs]" "length ?objs < 2 ^ 64"
    using shape by (simp_all add: shape_ok_def)
  have path: "do_cache_path x = cache_path (bd_store d) ?i (do_generation x)"
    and fl: "ls_files (bd_store d) (do_cache_path x) = Some ?enc" and sha: "do_sha256 x = sha256_hex L ?enc"
    using dk unfolding dirty_ok_def by blast+
  have lb: "length ?blk = unat ?osz"
    using shape i length_block_of [of disk _ "device_object_size d" "unat ?i"] by (auto simp: shape_ok_def device_object_size_def)
  obtain z b' where send: "send_object B ?i (do_generation x) ?enc (sha256_hex L ?enc) (bd_backend d) = (z, b')" by force
  note sa = send_any [OF inv rm send]
  have relb: "dev_rel L invar stored (d\<lparr>bd_backend := b', bd_metrics := m\<rparr>) disk" for m
    using dev_rel_backend [OF rel] sa by blast
  show ?thesis
  proof (cases z)
    case (Inl e)
    then have "y = Inl e" "d' = d\<lparr>bd_backend := b'\<rparr>"
      using up send fl L lb by (simp_all add: upload_dirty_def bnd_apply read_file_def sha decode_sealed on_backend_def)
    then show ?thesis using relb [of "bd_metrics d"] sa
      by (auto simp: same_but_manifest_def uploaded_def intro: remote_ok_mono)
  next
    case (Inr r)
    note so = send_ok [OF inv rm send [unfolded Inr]]
    define d2 where "d2 = d\<lparr>bd_backend := b', bd_metrics := record_upload (device_elapsed L (d\<lparr>bd_backend := b'\<rparr>)) (bd_metrics d)\<rparr>"
    let ?m = "commit_entry (unat ?i) (do_generation x) r (sha256_hex L ?enc) (bd_manifest d2)"
    have sel2: "bd_manifest d2 = bd_manifest d" "bd_store d2 = bd_store d" "bd_map d2 = bd_map d" "bd_backend d2 = b'"
      by (simp_all add: d2_def)
    have res: "y = Inr () \<and> d' = d2\<lparr>bd_manifest := ?m\<rparr>"
      using up send fl L lb position_of_nth [OF ids i]
      by (simp add: upload_dirty_def bnd_apply read_file_def sha decode_sealed on_backend_def Inr on_metrics_def d2_def)
    have rel': "dev_rel L invar stored d' disk"
      using dev_rel_commit_entry [of L invar stored d2 disk ?i x] relb x res by (simp add: d2_def)
    have new: "uploaded L (stored b') d' disk (unat ?i)"
      using so i gx ids_nth [OF ids(1) i] res fl path
      by (auto simp: uploaded_def commit_entry_objects sel2 remote_ok_def cached_ok_def entry_seal_def device_object_size_def)
    have other: "uploaded L (stored b') d' disk j" if "uploaded L (stored (bd_backend d)) d disk j" "j \<noteq> unat ?i" for j
      using that so res by (auto simp: uploaded_def commit_entry_objects sel2 device_object_size_def intro: remote_ok_mono)
    have "same_but_manifest d d'" using res by (simp add: same_but_manifest_def commit_entry_ids commit_entry_objects(2,3) commit_entry_clean [OF x] d2_def)
    then show ?thesis using rel' new other so res by (auto simp: sel2)
  qed
qed

lemma upload_all_rel:
  assumes "dev_rel L invar stored d disk" and L: "digest32 L"
    and "\<And>x. x \<in> set xs \<Longrightarrow> dirty_object (do_object_id x) (bd_store d) = Some x \<and>
      do_generation x \<le> m_generation (bd_manifest d)"
    and "room (bd_backend d) (length xs + n)" and "upload_all L B xs d = (y, d')"
  shows "dev_rel L invar stored d' disk \<and> same_but_manifest d d' \<and>
    stored (bd_backend d) \<subseteq>\<^sub>m stored (bd_backend d') \<and>
    (\<forall>j < length (m_objects (bd_manifest d)). uploaded L (stored (bd_backend d)) d disk j \<longrightarrow>
       uploaded L (stored (bd_backend d')) d' disk j) \<and>
    room (bd_backend d') n \<and>
    (y = Inr () \<longrightarrow> (\<forall>x\<in>set xs. uploaded L (stored (bd_backend d')) d' disk (unat (do_object_id x))))"
  using assms(1,3-)
proof (induction xs arbitrary: d)
  case Nil
  then show ?case by (auto simp: same_but_manifest_def)
next
  case (Cons x xs)
  obtain z d1 where up: "upload_dirty L B x d = (z, d1)" by force
  have x: "dirty_object (do_object_id x) (bd_store d) = Some x" "do_generation x \<le> m_generation (bd_manifest d)"
    using Cons.prems(2) by auto
  have "room (bd_backend d) (Suc (length xs + n))" using Cons.prems(3) by simp
  note u = upload_dirty_rel [OF Cons.prems(1) L x this up]
  show ?case
  proof (cases z)
    case (Inl e)
    then have "y = Inl e" "d' = d1" using up Cons.prems(4) by (simp_all add: bnd_apply)
    then show ?thesis using u room_le [of "bd_backend d1" "length xs + n" n] by simp
  next
    case (Inr w)
    then have run: "upload_all L B xs d1 = (y, d')" using up Cons.prems(4) by (simp add: bnd_apply)
    have sb: "same_but_manifest d d1" using u by simp
    then have pre: "dirty_object (do_object_id q) (bd_store d1) = Some q \<and> do_generation q \<le> m_generation (bd_manifest d1)"
      if "q \<in> set xs" for q
      using Cons.prems(2) [of q] that by (simp add: same_but_manifest_def)
    have ih: "dev_rel L invar stored d' disk \<and> same_but_manifest d1 d' \<and>
      stored (bd_backend d1) \<subseteq>\<^sub>m stored (bd_backend d') \<and>
      (\<forall>j < length (m_objects (bd_manifest d1)). uploaded L (stored (bd_backend d1)) d1 disk j \<longrightarrow>
         uploaded L (stored (bd_backend d')) d' disk j) \<and>
      room (bd_backend d') n \<and>
      (y = Inr () \<longrightarrow> (\<forall>x\<in>set xs. uploaded L (stored (bd_backend d')) d' disk (unat (do_object_id x))))"
      using u by (intro Cons.IH pre run) simp_all
    have "unat (do_object_id x) < length (m_objects (bd_manifest d))"
      using Cons.prems(1) x(1) by (auto simp: dev_rel_def objects_ok_def)
    then show ?thesis
      using ih u same_but_manifest_trans [OF sb] same_but_manifestD [OF sb] map_le_trans Inr by auto
  qed
qed

end

section \<open>The steps around the uploads\<close>

lemma dev_rel_generation:
  assumes rel: "dev_rel L invar stored d disk" and g: "m_generation (bd_manifest d) \<le> g"
    and le: "ls_dirty_objects (bd_store d) \<noteq> [] \<Longrightarrow> g \<le> max_generation (dirty_objects (bd_store d))"
  shows "dev_rel L invar stored (d\<lparr>bd_manifest := (bd_manifest d)\<lparr>m_generation := g\<rparr>\<rparr>) disk"
proof -
  have "objects_ok L (stored (bd_backend d)) (d\<lparr>bd_manifest := (bd_manifest d)\<lparr>m_generation := g\<rparr>\<rparr>) disk"
    using rel g le unfolding dev_rel_def objects_ok_def by (auto intro: order_trans)
  then show ?thesis using rel by (simp add: dev_rel_def shape_ok_def)
qed

lemma dev_rel_tables:
  assumes rel: "dev_rel L invar stored d disk" and rm: "replace_from_manifest L m (bd_store d) = (x, s')"
  shows "dev_rel L invar stored (d\<lparr>bd_store := s'\<rparr>) disk"
proof -
  have s': "ls_cache_dir s' = ls_cache_dir (bd_store d)" "ls_files s' = ls_files (bd_store d)"
    "ls_dirty_objects s' = ls_dirty_objects (bd_store d)" "ls_wal_entries s' = ls_wal_entries (bd_store d)"
    "ls_wal_next_id s' = ls_wal_next_id (bd_store d)" "ls_cache_entries s' = ls_cache_entries (bd_store d)"
    using replace_from_manifest_cases [OF rm] by (auto simp: tick_def)
  have eqs: "dirty_object i s' = dirty_object i (bd_store d)" "dirty_objects s' = dirty_objects (bd_store d)"
    "cache_path s' = cache_path (bd_store d)" for i
    by (simp_all add: dirty_object_def dirty_objects_def cache_path_def fun_eq_iff s')
  have oks: "dirty_ok L osz s' q blk = dirty_ok L osz (bd_store d) q blk"
    "cached_ok L osz s' z blk = cached_ok L osz (bd_store d) z blk" for osz q z blk
    by (simp_all only: dirty_ok_def cached_ok_def eqs s')
  have "store_ok s'" using rel
    by (simp add: dev_rel_def store_ok_def wal_ok_def wal_ids_ok_def dirty_keys_ok_def cache_rows_ok_def s' eqs)
  moreover have "objects_ok L (stored (bd_backend d)) (d\<lparr>bd_store := s'\<rparr>) disk"
    using rel unfolding dev_rel_def objects_ok_def by (simp add: eqs s'(3) oks)
  ultimately show ?thesis using rel by (simp add: dev_rel_def shape_ok_def)
qed

lemma dev_rel_clear:
  assumes rel: "dev_rel L invar stored d disk"
    and up: "\<And>i. i < length (m_objects (bd_manifest d)) \<Longrightarrow> uploaded L (stored (bd_backend d)) d disk i"
  shows "dev_rel L invar stored (d\<lparr>bd_store := clear_dirty_and_wal (bd_store d)\<rparr>) disk"
proof -
  let ?s = "clear_dirty_and_wal (bd_store d)"
  have eqs: "dirty_object i ?s = None" "cache_path ?s = cache_path (bd_store d)" "ls_files ?s = ls_files (bd_store d)"
    "ls_dirty_objects ?s = []" for i
    by (simp_all add: clear_dirty_and_wal_def dirty_object_def cache_path_def fun_eq_iff)
  have "store_ok ?s" using rel
    by (simp add: dev_rel_def store_ok_def wal_ok_def wal_ids_ok_def wal_bounded_def wal_separated_def dirty_keys_ok_def
        cache_rows_ok_def eqs) (simp add: clear_dirty_and_wal_def comp_def)
  moreover have "objects_ok L (stored (bd_backend d)) (d\<lparr>bd_store := ?s\<rparr>) disk"
    using up by (simp add: objects_ok_def uploaded_def eqs cached_ok_def)
  ultimately show ?thesis using rel by (simp add: dev_rel_def shape_ok_def)
qed

section \<open>The flush\<close>

text \<open>
  What a manifest committer must not do: lose a stored message, or send more than \<open>n\<close> messages.
\<close>

definition commits_safely :: "('b \<Rightarrow> bool) \<Rightarrow> ('b \<Rightarrow> nat \<Rightarrow> bool) \<Rightarrow> ('b \<Rightarrow> i32 \<rightharpoonup> bytes) \<Rightarrow> nat \<Rightarrow> 'b committer option \<Rightarrow> bool" where
  "commits_safely invar room stored n co \<longleftrightarrow>
     (\<forall>c m dsz lsz osz b k y b'. co = Some c \<longrightarrow> invar b \<longrightarrow> room b (n + k) \<longrightarrow> c m dsz lsz osz b = (y, b') \<longrightarrow>
        invar b' \<and> room b' k \<and> stored b \<subseteq>\<^sub>m stored b')"

lemma commits_safely_None [simp]: "commits_safely invar room stored n None"
  by (simp add: commits_safely_def)

text \<open>Every object of the device can be read back from the backend with the device's manifest.\<close>

definition durable :: "libs \<Rightarrow> ('b \<Rightarrow> i32 \<rightharpoonup> bytes) \<Rightarrow> 'b BlockDevice \<Rightarrow> bytes \<Rightarrow> bool" where
  "durable L stored d disk \<longleftrightarrow> ls_dirty_objects (bd_store d) = [] \<and>
     (\<forall>i < length (m_objects (bd_manifest d)). uploaded L (stored (bd_backend d)) d disk i)"

definition manifest_saved :: "libs \<Rightarrow> 'b BlockDevice \<Rightarrow> bool" where
  "manifest_saved L d \<longleftrightarrow> (\<exists>row. ls_manifest_state (bd_store d) = Some row \<and>
     json_manifest L (bd_manifest d) = Inr (mr_manifest_json row))"

lemma run_committer_rel:
  assumes rel: "dev_rel L invar stored d disk" and c: "commits_safely invar room stored n (bd_committer d)"
    and rm: "room (bd_backend d) (n + k)" and le: "\<And>b. room b (n + k) \<Longrightarrow> room b k"
    and run: "run_committer d = (y, d')"
  shows "\<exists>b'. d' = d\<lparr>bd_backend := b'\<rparr> \<and> room b' k \<and> dev_rel L invar stored d' disk \<and> stored (bd_backend d) \<subseteq>\<^sub>m stored b'"
proof (cases "bd_committer d")
  case None
  then show ?thesis using rel run le [OF rm] by (intro exI [of _ "bd_backend d"]) (simp add: run_committer_def)
next
  case (Some com)
  obtain z b' where com: "com (bd_manifest d) (bm_device_size (bd_map d)) (bm_logical_sector_size (bd_map d))
      (bm_object_size (bd_map d)) (bd_backend d) = (z, b')" by force
  have inv: "invar (bd_backend d)" using rel by (simp add: dev_rel_def)
  have b': "invar b'" "stored (bd_backend d) \<subseteq>\<^sub>m stored b'" "room b' k"
    using c Some rm inv com unfolding commits_safely_def by blast+
  have "d' = d\<lparr>bd_backend := b'\<rparr>" using run com Some by (auto simp: run_committer_def on_backend_def)
  then show ?thesis using dev_rel_backend [OF rel b'(1,2), of "bd_metrics d"] b' by auto
qed

text \<open>What a flush leaves alone: everything but the entries of dirty objects and the generation.\<close>

definition same_setup :: "'b BlockDevice \<Rightarrow> 'b BlockDevice \<Rightarrow> bool" where
  "same_setup d d' \<longleftrightarrow> bd_map d' = bd_map d \<and> bd_committer d' = bd_committer d \<and>
     bd_max_dirty_objects d' = bd_max_dirty_objects d \<and> bd_read_ahead_objects d' = bd_read_ahead_objects d \<and>
     ls_cache_dir (bd_store d') = ls_cache_dir (bd_store d) \<and> bd_manifest d' = bd_manifest d"

definition flush_frame :: "'b BlockDevice \<Rightarrow> 'b BlockDevice \<Rightarrow> bool" where
  "flush_frame d d' \<longleftrightarrow> bd_map d' = bd_map d \<and> bd_committer d' = bd_committer d \<and>
     bd_max_dirty_objects d' = bd_max_dirty_objects d \<and> bd_read_ahead_objects d' = bd_read_ahead_objects d \<and>
     manifest_head (bd_manifest d') = manifest_head (bd_manifest d) \<and>
     map mo_object_id (m_objects (bd_manifest d')) = map mo_object_id (m_objects (bd_manifest d)) \<and>
     (\<forall>j. dirty_object (of_nat j) (bd_store d) = None \<longrightarrow> m_objects (bd_manifest d') ! j = m_objects (bd_manifest d) ! j) \<and>
     m_generation (bd_manifest d') \<in> {m_generation (bd_manifest d), max_generation (dirty_objects (bd_store d))}"

text \<open>The part of a flush after the uploads.\<close>

abbreviation after_uploads :: "libs \<Rightarrow> ('b BlockDevice, unit) st" where
  "after_uploads L \<equiv> bnd run_committer (\<lambda>_. bnd (gets bd_manifest) (\<lambda>manifest. bnd (on_store (replace_from_manifest L manifest)) (\<lambda>_.
       upd (\<lambda>d. d\<lparr>bd_store := clear_dirty_and_wal (bd_store d)\<rparr>))))"

lemma finish_rel:
  assumes rel: "dev_rel L invar stored d disk" and c: "commits_safely invar room stored n (bd_committer d)"
    and rm: "room (bd_backend d) (n + k)" and le: "\<And>b. room b (n + k) \<Longrightarrow> room b k"
    and up: "\<And>i. i < length (m_objects (bd_manifest d)) \<Longrightarrow> uploaded L (stored (bd_backend d)) d disk i"
    and run: "after_uploads L d = (y, d')"
  shows "dev_rel L invar stored d' disk \<and> stored (bd_backend d) \<subseteq>\<^sub>m stored (bd_backend d') \<and>
    room (bd_backend d') k \<and> same_setup d d' \<and>
    (case y of Inr _ \<Rightarrow> durable L stored d' disk \<and> manifest_saved L d'
     | Inl _ \<Rightarrow> ls_dirty_objects (bd_store d') = ls_dirty_objects (bd_store d) \<and>
         ls_manifest_state (bd_store d') = ls_manifest_state (bd_store d))"
proof -
  obtain w d2 where rc: "run_committer d = (w, d2)" by force
  from run_committer_rel [OF rel c rm le rc]
  obtain b' where d2: "d2 = d\<lparr>bd_backend := b'\<rparr>" and room2: "room b' k" and rel2: "dev_rel L invar stored d2 disk"
    and le2: "stored (bd_backend d) \<subseteq>\<^sub>m stored b'" by blast
  obtain v s' where rfm: "replace_from_manifest L (bd_manifest d2) (bd_store d2) = (v, s')" by force
  show ?thesis
  proof (cases "w = Inr () \<and> v = Inr ()")
    case False
    then have "y \<noteq> Inr () \<and> (d' = d2 \<or> d' = d2\<lparr>bd_store := s'\<rparr> \<and> s' = bd_store d2)"
      using run replace_from_manifest_cases [OF rfm]
      by (cases w; cases v) (auto simp: bnd_apply rc on_store_def rfm)
    then show ?thesis using rel2 le2 room2 by (cases y) (auto simp: d2 same_setup_def)
  next
    case True
    define d3 where "d3 = d2\<lparr>bd_store := s'\<rparr>"
    have y: "y = Inr ()" and d': "d' = d3\<lparr>bd_store := clear_dirty_and_wal (bd_store d3)\<rparr>"
      using run True by (auto simp: bnd_apply rc on_store_def rfm d3_def)
    have rel3: "dev_rel L invar stored d3 disk" unfolding d3_def by (rule dev_rel_tables [OF rel2 rfm])
    obtain hash json where json: "json_manifest L (bd_manifest d) = Inr json"
      and s': "ls_files s' = ls_files (bd_store d)" "ls_cache_dir s' = ls_cache_dir (bd_store d)"
      "\<exists>row. ls_manifest_state s' = Some row \<and> mr_manifest_json row = json"
      using replace_from_manifest_cases [OF rfm] True by (auto simp: d2 tick_def)
    have up3: "uploaded L (stored (bd_backend d3)) d3 disk i" if "i < length (m_objects (bd_manifest d3))" for i
      using up [of i] that le2 s'(1,2)
      by (auto simp: uploaded_def d3_def d2 device_object_size_def cached_ok_def cache_path_def intro: remote_ok_mono)
    have "dev_rel L invar stored d' disk" unfolding d' by (rule dev_rel_clear [OF rel3 up3])
    moreover have "durable L stored d' disk"
      using up3 by (auto simp: durable_def d' clear_dirty_and_wal_def uploaded_def cached_ok_def cache_path_def device_object_size_def)
    moreover have "manifest_saved L d'"
      using json s'(3) by (auto simp: manifest_saved_def d' d3_def d2 clear_dirty_and_wal_def)
    ultimately show ?thesis using le2 room2 y by (simp add: d' d3_def d2 same_setup_def clear_dirty_and_wal_def s'(2))
  qed
qed

context remote_backend
begin

text \<open>
  A flush of dirty objects first uploads them; only when every object of the manifest is stored in
  the backend does the rest run.
\<close>

lemma flush_split:
  assumes rel: "dev_rel L invar stored d disk" and L: "digest32 L"
    and gen: "unat (m_generation (bd_manifest d)) + 1 < 2 ^ 64"
    and rm: "room (bd_backend d) (length (dirty_objects (bd_store d)) + k)" and ne: "ls_dirty_objects (bd_store d) \<noteq> []"
  shows "\<exists>z d1. flush L B d = (case z of Inl e \<Rightarrow> (Inl e, d1) | Inr _ \<Rightarrow> after_uploads L d1) \<and>
    dev_rel L invar stored d1 disk \<and> room (bd_backend d1) k \<and> stored (bd_backend d) \<subseteq>\<^sub>m stored (bd_backend d1) \<and>
    bd_store d1 = bd_store d \<and> flush_frame d d1 \<and> m_generation (bd_manifest d1) = max_generation (dirty_objects (bd_store d)) \<and>
    (z = Inr () \<longrightarrow> (\<forall>j < length (m_objects (bd_manifest d1)). uploaded L (stored (bd_backend d1)) d1 disk j))"
proof -
  let ?dirty = "dirty_objects (bd_store d)"
  let ?g = "max_generation ?dirty"
  define d0 where "d0 = d\<lparr>bd_manifest := (bd_manifest d)\<lparr>m_generation := ?g\<rparr>\<rparr>"
  have rel0: "dev_rel L invar stored d0 disk"
    using rel ne unfolding d0_def by (intro dev_rel_generation) (auto simp: dev_rel_def objects_ok_def)
  have sel: "bd_store d0 = bd_store d" "bd_backend d0 = bd_backend d" "bd_committer d0 = bd_committer d"
    by (simp_all add: d0_def)
  have pre: "dirty_object (do_object_id x) (bd_store d0) = Some x \<and> do_generation x \<le> m_generation (bd_manifest d0)"
    if "x \<in> set ?dirty" for x
    using that rel mem_dirty_objects [of "bd_store d" x] max_generation_ge [OF that]
    by (simp add: d0_def dev_rel_def store_ok_def)
  obtain z d1 where up: "upload_all L B ?dirty d0 = (z, d1)" by force
  note ua = upload_all_rel [OF rel0 L pre rm [folded sel(2)] up]
  have sb: "same_but_manifest d0 d1" using ua by simp
  have all: "uploaded L (stored (bd_backend d1)) d1 disk j" if z: "z = Inr ()" and "j < length (m_objects (bd_manifest d1))" for j
  proof -
    have j: "j < length (m_objects (bd_manifest d0))" using that same_but_manifestD [OF sb] by simp
    then have "j < 2 ^ 64" using rel0 by (simp add: dev_rel_def shape_ok_def)
    then have uj: "unat (of_nat j :: u64) = j" by (rule unat_of_nat_len)
    show ?thesis
    proof (cases "dirty_object (of_nat j) (bd_store d0)")
      case None
      then have "uploaded L (stored (bd_backend d0)) d0 disk j"
        using rel0 j by (simp add: dev_rel_def objects_ok_def uploaded_def)
      then show ?thesis using ua j by blast
    next
      case (Some x)
      have "do_object_id x = of_nat j" using Some by (rule dirty_object_id)
      moreover have "x \<in> set ?dirty"
        using Some rel mem_dirty_objects [of "bd_store d" x] calculation by (simp add: sel dev_rel_def store_ok_def)
      ultimately show ?thesis using ua z uj by force
    qed
  qed
  have "flush L B d = (case z of Inl e \<Rightarrow> (Inl e, d1) | Inr _ \<Rightarrow> after_uploads L d1)"
    using ne gen up by (simp add: flush_def add_w_Inr d0_def [symmetric] bnd_apply split: sum.split)
  moreover have "flush_frame d d1" "bd_store d1 = bd_store d" "m_generation (bd_manifest d1) = ?g"
    using sb by (auto simp: flush_frame_def same_but_manifest_def d0_def manifest_head_def)
  moreover have "dev_rel L invar stored d1 disk" "room (bd_backend d1) k" "stored (bd_backend d) \<subseteq>\<^sub>m stored (bd_backend d1)"
    using ua by (simp_all add: sel)
  ultimately show ?thesis using all by blast
qed

lemma flush_rel:
  assumes rel: "dev_rel L invar stored d disk" and L: "digest32 L"
    and gen: "unat (m_generation (bd_manifest d)) + 1 < 2 ^ 64"
    and rm: "room (bd_backend d) (length (dirty_objects (bd_store d)) + (n + k))"
    and com: "commits_safely invar room stored n (bd_committer d)"
    and fl: "flush L B d = (y, d')"
  shows "dev_rel L invar stored d' disk \<and> stored (bd_backend d) \<subseteq>\<^sub>m stored (bd_backend d') \<and>
    room (bd_backend d') k \<and> flush_frame d d' \<and>
    (case y of
       Inr _ \<Rightarrow> durable L stored d' disk \<and> (ls_dirty_objects (bd_store d) \<noteq> [] \<longrightarrow> manifest_saved L d')
     | Inl _ \<Rightarrow> ls_dirty_objects (bd_store d') = ls_dirty_objects (bd_store d) \<and>
         ls_manifest_state (bd_store d') = ls_manifest_state (bd_store d))"
proof (cases "ls_dirty_objects (bd_store d) = []")
  case True
  then have "\<And>i. dirty_object i (bd_store d) = None" by (simp add: dirty_object_def)
  moreover have "room (bd_backend d) k" using rm by (rule room_le) simp
  ultimately show ?thesis using rel fl True
    by (auto simp: flush_def durable_def uploaded_def dev_rel_def objects_ok_def flush_frame_def)
next
  case False
  obtain z d1 where run: "flush L B d = (case z of Inl e \<Rightarrow> (Inl e, d1) | Inr _ \<Rightarrow> after_uploads L d1)"
    and d1: "dev_rel L invar stored d1 disk" "room (bd_backend d1) (n + k)" "stored (bd_backend d) \<subseteq>\<^sub>m stored (bd_backend d1)"
      "bd_store d1 = bd_store d" "flush_frame d d1"
    and up: "z = Inr () \<longrightarrow> (\<forall>j < length (m_objects (bd_manifest d1)). uploaded L (stored (bd_backend d1)) d1 disk j)"
    using flush_split [OF rel L gen rm False] by blast
  show ?thesis
  proof (cases z)
    case (Inl e)
    then show ?thesis using fl run d1 room_le [of "bd_backend d1" "n + k" k] by auto
  next
    case (Inr u)
    have c1: "commits_safely invar room stored n (bd_committer d1)" using com d1(5) by (simp add: flush_frame_def)
    have "after_uploads L d1 = (y, d')" using fl run Inr by simp
    from finish_rel [OF d1(1) c1 d1(2) _ _ this] show ?thesis
      using up Inr d1 map_le_trans room_le [of _ "n + k" k]
      by (auto simp: flush_frame_def same_setup_def split: sum.splits)
  qed
qed

text \<open>What the committer of a successful flush was given, and what it left.\<close>

lemma flush_commits:
  assumes rel: "dev_rel L invar stored d disk" and L: "digest32 L"
    and gen: "unat (m_generation (bd_manifest d)) + 1 < 2 ^ 64"
    and rm: "room (bd_backend d) (length (dirty_objects (bd_store d)) + k)" and ne: "ls_dirty_objects (bd_store d) \<noteq> []"
    and com: "bd_committer d = Some c" and fl: "flush L B d = (Inr (), d')"
  shows "\<exists>d1. c (bd_manifest d') (bm_device_size (bd_map d)) (bm_logical_sector_size (bd_map d)) (bm_object_size (bd_map d))
      (bd_backend d1) = (Inr (), bd_backend d') \<and>
    dev_rel L invar stored d1 disk \<and> room (bd_backend d1) k \<and> flush_frame d d1 \<and> bd_manifest d1 = bd_manifest d' \<and>
    m_generation (bd_manifest d1) = max_generation (dirty_objects (bd_store d)) \<and>
    (\<forall>j < length (m_objects (bd_manifest d1)). uploaded L (stored (bd_backend d1)) d1 disk j)"
proof -
  obtain z d1 where run: "flush L B d = (case z of Inl e \<Rightarrow> (Inl e, d1) | Inr _ \<Rightarrow> after_uploads L d1)"
    and d1: "dev_rel L invar stored d1 disk" "room (bd_backend d1) k" "flush_frame d d1"
      "m_generation (bd_manifest d1) = max_generation (dirty_objects (bd_store d))"
    and up: "z = Inr () \<longrightarrow> (\<forall>j < length (m_objects (bd_manifest d1)). uploaded L (stored (bd_backend d1)) d1 disk j)"
    using flush_split [OF rel L gen rm ne] by blast
  have z: "z = Inr ()" and r: "after_uploads L d1 = (Inr (), d')" using run fl by (cases z; simp)+
  have c1: "bd_committer d1 = Some c" "bd_map d1 = bd_map d" using d1(3) com by (simp_all add: flush_frame_def)
  obtain y b where cm: "c (bd_manifest d1) (bm_device_size (bd_map d)) (bm_logical_sector_size (bd_map d)) (bm_object_size (bd_map d))
      (bd_backend d1) = (y, b)" by force
  then have "y = Inr ()" "bd_manifest d' = bd_manifest d1" "bd_backend d' = b"
    using r c1 by (cases y; auto simp: bnd_apply run_committer_def on_backend_def on_store_def split: prod.splits sum.splits)+
  then show ?thesis using cm d1 up z by auto
qed

end

section \<open>Flushing succeeds on an available backend\<close>

definition commits_live :: "('b \<Rightarrow> bool) \<Rightarrow> ('b \<Rightarrow> nat \<Rightarrow> bool) \<Rightarrow> nat \<Rightarrow> 'b committer option \<Rightarrow> bool" where
  "commits_live invar room n co \<longleftrightarrow>
     (\<forall>c m dsz lsz osz b k. co = Some c \<longrightarrow> invar b \<longrightarrow> room b (n + k) \<longrightarrow> fst (c m dsz lsz osz b) = Inr ())"

lemma commits_live_None [simp]: "commits_live invar room n None"
  by (simp add: commits_live_def)

context live_backend
begin

lemma upload_dirty_live:
  assumes rel: "dev_rel L invar stored d disk" and L: "digest32 L"
    and x: "dirty_object (do_object_id x) (bd_store d) = Some x" and rm: "room (bd_backend d) (Suc n)"
  shows "\<exists>d'. upload_dirty L B x d = (Inr (), d')"
proof -
  let ?i = "do_object_id x" and ?objs = "m_objects (bd_manifest d)" and ?osz = "bm_object_size (bd_map d)"
  let ?blk = "block_of (device_object_size d) (unat ?i) disk"
  let ?enc = "sealed L ?osz ?i (do_generation x) ?blk"
  have shape: "shape_ok d disk" and i: "unat ?i < length ?objs" and dk: "dirty_ok L ?osz (bd_store d) x ?blk"
    and inv: "invar (bd_backend d)"
    using rel x by (auto simp: dev_rel_def objects_ok_def)
  have ids: "map mo_object_id ?objs = map of_nat [0..<length ?objs]" "length ?objs < 2 ^ 64"
    using shape by (simp_all add: shape_ok_def)
  have fl: "ls_files (bd_store d) (do_cache_path x) = Some ?enc" and sha: "do_sha256 x = sha256_hex L ?enc"
    using dk unfolding dirty_ok_def by blast+
  have lb: "length ?blk = unat ?osz"
    using shape i length_block_of [of disk _ "device_object_size d" "unat ?i"] by (auto simp: shape_ok_def device_object_size_def)
  note dec = decode_sealed [OF L lb, of ?i "do_generation x"]
  obtain r b' where "send_object B ?i (do_generation x) ?enc (sha256_hex L ?enc) (bd_backend d) = (Inr r, b')"
    using send_live [OF inv rm dec] by blast
  then show ?thesis
    using fl position_of_nth [OF ids i]
    by (simp add: upload_dirty_def bnd_apply read_file_def sha dec on_backend_def on_metrics_def)
qed

lemma upload_all_live:
  assumes "dev_rel L invar stored d disk" and L: "digest32 L"
    and "\<And>x. x \<in> set xs \<Longrightarrow> dirty_object (do_object_id x) (bd_store d) = Some x \<and>
      do_generation x \<le> m_generation (bd_manifest d)"
    and "room (bd_backend d) (length xs + n)"
  shows "\<exists>d'. upload_all L B xs d = (Inr (), d')"
  using assms(1,3-)
proof (induction xs arbitrary: d)
  case (Cons x xs)
  have x: "dirty_object (do_object_id x) (bd_store d) = Some x" "do_generation x \<le> m_generation (bd_manifest d)"
    and rm: "room (bd_backend d) (Suc (length xs + n))"
    using Cons.prems(2,3) by auto
  obtain d1 where up: "upload_dirty L B x d = (Inr (), d1)" using upload_dirty_live [OF Cons.prems(1) L x(1) rm] by blast
  note u = upload_dirty_rel [OF Cons.prems(1) L x rm up]
  then have "dirty_object (do_object_id q) (bd_store d1) = Some q \<and> do_generation q \<le> m_generation (bd_manifest d1)"
    if "q \<in> set xs" for q
    using Cons.prems(2) [of q] that by (simp add: same_but_manifest_def)
  then have "\<exists>d'. upload_all L B xs d1 = (Inr (), d')" using u by (intro Cons.IH) simp_all
  then show ?case using up by (simp add: bnd_apply)
qed simp

lemma flush_live:
  assumes rel: "dev_rel L invar stored d disk" and L: "digest32 L" "json_writes L"
    and gen: "unat (m_generation (bd_manifest d)) + 1 < 2 ^ 64"
    and rm: "room (bd_backend d) (length (dirty_objects (bd_store d)) + (n + k))"
    and com: "commits_safely invar room stored n (bd_committer d)" "commits_live invar room n (bd_committer d)"
  shows "\<exists>d'. flush L B d = (Inr (), d')"
proof (cases "ls_dirty_objects (bd_store d) = []")
  case True
  then show ?thesis by (simp add: flush_def)
next
  case False
  let ?dirty = "dirty_objects (bd_store d)"
  define d0 where "d0 = d\<lparr>bd_manifest := (bd_manifest d)\<lparr>m_generation := max_generation ?dirty\<rparr>\<rparr>"
  have rel0: "dev_rel L invar stored d0 disk"
    using rel False unfolding d0_def by (intro dev_rel_generation) (auto simp: dev_rel_def objects_ok_def)
  have pre: "dirty_object (do_object_id x) (bd_store d0) = Some x \<and> do_generation x \<le> m_generation (bd_manifest d0)"
    if "x \<in> set ?dirty" for x
    using that rel mem_dirty_objects [of "bd_store d" x] max_generation_ge [OF that]
    by (simp add: d0_def dev_rel_def store_ok_def)
  have rm0: "room (bd_backend d0) (length ?dirty + (n + k))" using rm by (simp add: d0_def)
  obtain d1 where up: "upload_all L B ?dirty d0 = (Inr (), d1)" using upload_all_live [OF rel0 L(1) pre rm0] by blast
  note u = upload_all_rel [OF rel0 L(1) pre rm0 up]
  have c1: "bd_committer d1 = bd_committer d" using u by (simp add: same_but_manifest_def d0_def)
  obtain y d2 where rc: "run_committer d1 = (y, d2)" by force
  have rel1: "dev_rel L invar stored d1 disk" and room1: "room (bd_backend d1) (n + k)" using u by simp_all
  from run_committer_rel [OF rel1 com(1) [folded c1] room1 _ rc] room_le [of _ "n + k" k]
  have rel2: "dev_rel L invar stored d2 disk" by auto
  have y: "y = Inr ()"
  proof (cases "bd_committer d1")
    case (Some c)
    have "invar (bd_backend d1)" using rel1 by (simp add: dev_rel_def)
    then have "fst (c (bd_manifest d1) (bm_device_size (bd_map d1)) (bm_logical_sector_size (bd_map d1))
        (bm_object_size (bd_map d1)) (bd_backend d1)) = Inr ()"
      using com(2) Some c1 room1 unfolding commits_live_def by (metis (no_types))
    then show ?thesis using rc Some by (auto simp: run_committer_def on_backend_def split: prod.splits)
  qed (use rc in \<open>simp add: run_committer_def\<close>)
  have "map mo_object_id (m_objects (bd_manifest d2)) = map of_nat [0..<length (m_objects (bd_manifest d2))]"
    "length (m_objects (bd_manifest d2)) < 2 ^ 64"
    using rel2 by (simp_all add: dev_rel_def shape_ok_def)
  then have "distinct (map mo_object_id (m_objects (bd_manifest d2)))" by (simp add: map_of_nat_upt_distinct)
  moreover obtain json where "json_manifest L (bd_manifest d2) = Inr json" using L(2) unfolding json_writes_def by blast
  ultimately obtain s' where "replace_from_manifest L (bd_manifest d2) (bd_store d2) = (Inr (), s')"
    using replace_from_manifest_ok by blast
  then show ?thesis
    using False gen up rc y by (simp add: flush_def add_w_Inr d0_def [symmetric] bnd_apply on_store_def)
qed

end

end
