(* ===== verification/Config.thy ===== *)
theory Config
  imports Block
begin

text \<open>
  Configuration (\<open>crates/tgdrive-core/src/config.rs\<close>): the file and environment settings, their
  merging, defaulting and validation, and the integer parsing of \<open>str::parse\<close>. The process
  environment, the TOML reader and the user's cache directory are the record \<open>environment\<close>.
\<close>

section \<open>Data\<close>

record TgDriveConfigFile =
  cf_device_size :: "u64 option"
  cf_logical_sector_size :: "u32 option"
  cf_object_size :: "u32 option"
  cf_cache_dir :: "string option"
  cf_sqlite_path :: "string option"
  cf_telegram_api_id :: "i32 option"
  cf_telegram_api_hash :: "string option"
  cf_telegram_session_path :: "string option"
  cf_telegram_channel_id :: "i64 option"
  cf_telegram_channel_access_hash :: "i64 option"
  cf_telegram_channel_title :: "string option"
  cf_read_only :: "bool option"

definition config_file_default :: TgDriveConfigFile where
  "config_file_default = \<lparr>cf_device_size = None, cf_logical_sector_size = None, cf_object_size = None,
     cf_cache_dir = None, cf_sqlite_path = None, cf_telegram_api_id = None, cf_telegram_api_hash = None,
     cf_telegram_session_path = None, cf_telegram_channel_id = None,
     cf_telegram_channel_access_hash = None, cf_telegram_channel_title = None, cf_read_only = None\<rparr>"

record TgDriveConfig =
  cfg_device_size :: u64
  cfg_logical_sector_size :: u32
  cfg_object_size :: u32
  cfg_cache_dir :: string
  cfg_sqlite_path :: string
  cfg_telegram_api_id :: "i32 option"
  cfg_telegram_api_hash :: "string option"
  cfg_telegram_session_path :: string
  cfg_telegram_channel_id :: "i64 option"
  cfg_telegram_channel_access_hash :: "i64 option"
  cfg_telegram_channel_title :: "string option"
  cfg_read_only :: bool

text \<open>An environment variable: \<open>env::var\<close> fails on a value that is not Unicode, \<open>env::var_os\<close> does not.\<close>

datatype env_value = NotPresent | NotUnicode string | Value string

record environment =
  en_var :: "string \<Rightarrow> env_value"
  en_read_toml :: "string \<Rightarrow> TgDriveConfigFile res"
  en_user_cache_dir :: "string option"

section \<open>Parsing integers\<close>

definition digit_value :: "char \<Rightarrow> nat option" where
  "digit_value c = (let n = of_char c in if 48 \<le> n \<and> n \<le> 57 then Some (n - 48) else None)"

text \<open>The digit loop of \<open>from_str_radix\<close>: an invalid digit and an overflow are seen in input order.\<close>

fun parse_digits :: "bool \<Rightarrow> int \<Rightarrow> int \<Rightarrow> int \<Rightarrow> string \<Rightarrow> int res" where
  "parse_digits neg lo hi acc [] = Inr acc"
| "parse_digits neg lo hi acc (c # cs) =
     (case digit_value c of
        None \<Rightarrow> Inl (ParseError ''invalid digit found in string'')
      | Some d \<Rightarrow>
          let v = (if neg then 10 * acc - int d else 10 * acc + int d) in
          if v < lo then Inl (ParseError ''number too small to fit in target type'')
          else if hi < v then Inl (ParseError ''number too large to fit in target type'')
          else parse_digits neg lo hi v cs)"

definition strip_sign :: "bool \<Rightarrow> string \<Rightarrow> bool \<times> string" where
  "strip_sign is_signed s = (case s of
      [] \<Rightarrow> (False, [])
    | c # cs \<Rightarrow> if cs \<noteq> [] \<and> c = CHR ''+'' then (False, cs)
                else if cs \<noteq> [] \<and> is_signed \<and> c = CHR ''-'' then (True, cs)
                else (False, s))"

definition parse_int :: "bool \<Rightarrow> int \<Rightarrow> int \<Rightarrow> string \<Rightarrow> int res" where
  "parse_int is_signed lo hi s =
     (if s = [] then Inl (ParseError ''cannot parse integer from empty string'')
      else case strip_sign is_signed s of (neg, digits) \<Rightarrow> parse_digits neg lo hi 0 digits)"

definition parse_u64 :: "string \<Rightarrow> u64 res" where
  "parse_u64 s = rbind (parse_int False 0 (2 ^ 64 - 1) s) (\<lambda>v. Inr (word_of_int v))"

definition parse_u32 :: "string \<Rightarrow> u32 res" where
  "parse_u32 s = rbind (parse_int False 0 (2 ^ 32 - 1) s) (\<lambda>v. Inr (word_of_int v))"

definition parse_i32 :: "string \<Rightarrow> i32 res" where
  "parse_i32 s = rbind (parse_int True (- (2 ^ 31)) (2 ^ 31 - 1) s) (\<lambda>v. Inr (word_of_int v))"

definition parse_i64 :: "string \<Rightarrow> i64 res" where
  "parse_i64 s = rbind (parse_int True (- (2 ^ 63)) (2 ^ 63 - 1) s) (\<lambda>v. Inr (word_of_int v))"

section \<open>Reading the environment\<close>

definition env_parse :: "(string \<Rightarrow> 'a res) \<Rightarrow> environment \<Rightarrow> string \<Rightarrow> 'a option res" where
  "env_parse parse E name = (case en_var E name of
      Value v \<Rightarrow> rbind (parse v) (\<lambda>x. Inr (Some x))
    | NotPresent \<Rightarrow> Inr None
    | NotUnicode _ \<Rightarrow> Inl (Anyhow ''environment variable was not valid unicode''))"

definition env_u64 :: "environment \<Rightarrow> string \<Rightarrow> u64 option res" where
  "env_u64 = env_parse parse_u64"

definition env_u32 :: "environment \<Rightarrow> string \<Rightarrow> u32 option res" where
  "env_u32 = env_parse parse_u32"

definition env_i32 :: "environment \<Rightarrow> string \<Rightarrow> i32 option res" where
  "env_i32 = env_parse parse_i32"

definition env_i64 :: "environment \<Rightarrow> string \<Rightarrow> i64 option res" where
  "env_i64 = env_parse parse_i64"

definition env_bool :: "environment \<Rightarrow> string \<Rightarrow> bool option res" where
  "env_bool = env_parse (\<lambda>v. Inr (v \<in> {''1'', ''true'', ''TRUE'', ''yes'', ''YES''}))"

definition env_path :: "environment \<Rightarrow> string \<Rightarrow> string option" where
  "env_path E name = (case en_var E name of NotPresent \<Rightarrow> None | NotUnicode v \<Rightarrow> Some v | Value v \<Rightarrow> Some v)"

text \<open>\<open>env::var(..).ok()\<close>\<close>

definition env_text :: "environment \<Rightarrow> string \<Rightarrow> string option" where
  "env_text E name = (case en_var E name of Value v \<Rightarrow> Some v | _ \<Rightarrow> None)"

definition or_else :: "'a option \<Rightarrow> 'a option \<Rightarrow> 'a option" where
  "or_else x y = (case x of None \<Rightarrow> y | Some _ \<Rightarrow> x)"

definition default_cache_dir :: "environment \<Rightarrow> string option" where
  "default_cache_dir E = map_option (\<lambda>dir. path_join dir ''tgdrive'') (en_user_cache_dir E)"

definition merge_env :: "environment \<Rightarrow> TgDriveConfigFile \<Rightarrow> TgDriveConfigFile res" where
  "merge_env E f =
     rbind (env_u64 E ''TGDRIVE_DEVICE_SIZE'') (\<lambda>device_size.
     rbind (env_u32 E ''TGDRIVE_LOGICAL_SECTOR_SIZE'') (\<lambda>logical_sector_size.
     rbind (env_u32 E ''TGDRIVE_OBJECT_SIZE'') (\<lambda>object_size.
     rbind (env_i32 E ''TELEGRAM_API_ID'') (\<lambda>api_id.
     rbind (env_i64 E ''TELEGRAM_CHANNEL_ID'') (\<lambda>channel_id.
     rbind (env_i64 E ''TELEGRAM_CHANNEL_ACCESS_HASH'') (\<lambda>access_hash.
     rbind (env_bool E ''TGDRIVE_READ_ONLY'') (\<lambda>read_only.
     Inr \<lparr>cf_device_size = or_else device_size (cf_device_size f),
          cf_logical_sector_size = or_else logical_sector_size (cf_logical_sector_size f),
          cf_object_size = or_else object_size (cf_object_size f),
          cf_cache_dir = or_else (env_path E ''TGDRIVE_CACHE_DIR'') (cf_cache_dir f),
          cf_sqlite_path = or_else (env_path E ''TGDRIVE_SQLITE_PATH'') (cf_sqlite_path f),
          cf_telegram_api_id = or_else api_id (cf_telegram_api_id f),
          cf_telegram_api_hash = or_else (env_text E ''TELEGRAM_API_HASH'') (cf_telegram_api_hash f),
          cf_telegram_session_path = or_else (env_path E ''TELEGRAM_SESSION_PATH'') (cf_telegram_session_path f),
          cf_telegram_channel_id = or_else channel_id (cf_telegram_channel_id f),
          cf_telegram_channel_access_hash = or_else access_hash (cf_telegram_channel_access_hash f),
          cf_telegram_channel_title = or_else (env_text E ''TELEGRAM_CHANNEL_TITLE'') (cf_telegram_channel_title f),
          cf_read_only = or_else read_only (cf_read_only f)\<rparr>)))))))"

section \<open>Loading and validating\<close>

definition validate :: "TgDriveConfig \<Rightarrow> unit res" where
  "validate cfg =
     (if \<not> is_multiple_of (cfg_device_size cfg) (ucast (cfg_logical_sector_size cfg))
      then Inl (Config DeviceSizeAlignment)
      else if \<not> is_multiple_of (cfg_object_size cfg) (cfg_logical_sector_size cfg)
      then Inl (Config ObjectSizeAlignment)
      else if cfg_object_size cfg < 64 * 1024 then Inl (Config ObjectSizeTooSmall)
      else if \<not> cfg_read_only cfg \<and> cfg_cache_dir cfg = [] then Inl (Config CacheRequired)
      else Inr ())"

definition unwrap_or :: "'a option \<Rightarrow> 'a \<Rightarrow> 'a" where
  "unwrap_or x y = (case x of None \<Rightarrow> y | Some z \<Rightarrow> z)"

definition config_load :: "environment \<Rightarrow> string option \<Rightarrow> bool option \<Rightarrow> TgDriveConfig res" where
  "config_load E config_path read_only_override =
     rbind (case config_path of Some path \<Rightarrow> en_read_toml E path | None \<Rightarrow> Inr config_file_default) (\<lambda>file0.
     rbind (merge_env E file0) (\<lambda>f.
     rbind (ok_or (or_else (cf_cache_dir f) (default_cache_dir E)) (Config (Missing ''cache_dir''))) (\<lambda>cache_dir.
     let cfg = \<lparr>cfg_device_size = unwrap_or (cf_device_size f) (64 * 1024 * 1024),
           cfg_logical_sector_size = unwrap_or (cf_logical_sector_size f) 4096,
           cfg_object_size = unwrap_or (cf_object_size f) (256 * 1024),
           cfg_cache_dir = cache_dir,
           cfg_sqlite_path = unwrap_or (cf_sqlite_path f) (path_join cache_dir ''metadata.sqlite3''),
           cfg_telegram_api_id = cf_telegram_api_id f,
           cfg_telegram_api_hash = cf_telegram_api_hash f,
           cfg_telegram_session_path = unwrap_or (cf_telegram_session_path f) (path_join cache_dir ''telegram.session''),
           cfg_telegram_channel_id = cf_telegram_channel_id f,
           cfg_telegram_channel_access_hash = cf_telegram_channel_access_hash f,
           cfg_telegram_channel_title = cf_telegram_channel_title f,
           cfg_read_only = unwrap_or read_only_override (unwrap_or (cf_read_only f) False)\<rparr> in
     rbind (validate cfg) (\<lambda>_. Inr cfg))))"

definition config_object_count :: "TgDriveConfig \<Rightarrow> u64 res" where
  "config_object_count cfg = div_ceil (cfg_device_size cfg) (ucast (cfg_object_size cfg))"

section \<open>Parsing is the inverse of printing\<close>

lemma digit_value_digit: "d < 10 \<Longrightarrow> digit_value (digit d) = Some d"
  by (auto simp: digit_value_def digit_def Let_def of_char_of)

lemma parse_digits_append:
  "parse_digits neg lo hi acc (xs @ ys) = rbind (parse_digits neg lo hi acc xs) (\<lambda>v. parse_digits neg lo hi v ys)"
  by (induction xs arbitrary: acc) (auto simp: Let_def split: option.split)

lemma parse_show_nat:
  assumes "(if neg then - int n else int n) \<in> {lo..hi}" "lo \<le> 0" "0 \<le> hi"
  shows "parse_digits neg lo hi 0 (show_nat n) = Inr (if neg then - int n else int n)"
  using assms(1)
proof (induction n rule: show_nat.induct)
  case (1 n)
  show ?case
  proof (cases "n < 10")
    case True
    then show ?thesis using 1 by (auto simp: show_nat.simps [of n] digit_value_digit Let_def)
  next
    case False
    have le: "int (n div 10) \<le> int n" by (simp add: div_le_dividend)
    then have "(if neg then - int (n div 10) else int (n div 10)) \<in> {lo..hi}"
      using "1.prems" assms(2,3) by (auto split: if_splits)
    then have ih: "parse_digits neg lo hi 0 (show_nat (n div 10)) = Inr (if neg then - int (n div 10) else int (n div 10))"
      using 1 False by blast
    have "10 * int (n div 10) + int (n mod 10) = int n"
      by (metis mult_div_mod_eq of_nat_add of_nat_mult of_nat_numeral)
    then have v: "(if neg then 10 * (if neg then - int (n div 10) else int (n div 10)) - int (n mod 10)
       else 10 * (if neg then - int (n div 10) else int (n div 10)) + int (n mod 10)) = (if neg then - int n else int n)"
      by auto
    show ?thesis
      using False "1.prems" unfolding show_nat.simps [of n] if_not_P [OF False] parse_digits_append ih
      by (simp add: digit_value_digit Let_def v)
  qed
qed

lemma show_nat_hd: "\<exists>c cs. show_nat n = c # cs \<and> c \<noteq> CHR ''+'' \<and> c \<noteq> CHR ''-''"
proof -
  have "set (show_nat n) \<subseteq> digit ` {..<10}"
    by (induction n rule: show_nat.induct) (subst show_nat.simps, auto)
  moreover have "show_nat n \<noteq> []" by (subst show_nat.simps) simp
  moreover have "digit d \<noteq> CHR ''+'' \<and> digit d \<noteq> CHR ''-''" if "d < 10" for d
    using that by (auto simp: digit_def char_of_eq_iff of_char_def take_bit_eq_mod)
  ultimately show ?thesis by (cases "show_nat n") auto
qed

lemma strip_sign_show_nat: "strip_sign b (show_nat n) = (False, show_nat n)"
  using show_nat_hd [of n] by (auto simp: strip_sign_def)

lemma parse_int_show_nat:
  "int n \<le> hi \<Longrightarrow> lo \<le> 0 \<Longrightarrow> parse_int b lo hi (show_nat n) = Inr (int n)"
  using show_nat_hd [of n] parse_show_nat [of False n lo hi] by (auto simp: parse_int_def strip_sign_show_nat)

lemma parse_int_show_int:
  assumes "lo \<le> i" "i \<le> hi" "lo \<le> 0" "0 \<le> hi"
  shows "parse_int True lo hi (show_int i) = Inr i"
proof (cases "i < 0")
  case True
  have "show_nat (nat (- i)) \<noteq> []" using show_nat_hd [of "nat (- i)"] by auto
  then show ?thesis using True assms parse_show_nat [of True "nat (- i)" lo hi]
    by (simp add: parse_int_def show_int_def strip_sign_def)
next
  case False
  then show ?thesis using assms parse_int_show_nat [of "nat i" hi lo True] by (simp add: show_int_def)
qed

section \<open>A valid configuration\<close>

lemma validate_iff:
  "validate cfg = Inr () \<longleftrightarrow>
     cfg_logical_sector_size cfg \<noteq> 0 \<and>
     unat (cfg_logical_sector_size cfg) dvd unat (cfg_device_size cfg) \<and>
     unat (cfg_logical_sector_size cfg) dvd unat (cfg_object_size cfg) \<and>
     64 * 1024 \<le> unat (cfg_object_size cfg) \<and> (cfg_read_only cfg \<or> cfg_cache_dir cfg \<noteq> [])"
proof (cases "cfg_logical_sector_size cfg = 0")
  case True
  then show ?thesis by (auto simp: validate_def is_multiple_of_def)
next
  case False
  have "(ucast (cfg_logical_sector_size cfg) :: u64) \<noteq> 0"
  proof
    assume "(ucast (cfg_logical_sector_size cfg) :: u64) = 0"
    then have "unat (ucast (cfg_logical_sector_size cfg) :: u64) = 0" by (simp only: unat_0)
    then show False using False by (simp add: word_unat_eq_iff)
  qed
  then have "is_multiple_of (cfg_device_size cfg) (ucast (cfg_logical_sector_size cfg)) \<longleftrightarrow>
      unat (cfg_logical_sector_size cfg) dvd unat (cfg_device_size cfg)"
    by (simp add: is_multiple_of_unat)
  then show ?thesis using False
    by (auto simp: validate_def is_multiple_of_unat word_less_nat_alt not_less)
qed

text \<open>The number of objects is the least that covers the device.\<close>

lemma div_ceil_spec:
  assumes "(b :: u64) \<noteq> 0" "div_ceil a b = Inr q"
  shows "unat a \<le> unat q * unat b \<and> unat q * unat b < unat a + unat b"
proof -
  have b: "0 < unat b" using assms(1) by (simp add: unat_gt_0)
  have dm: "unat a = unat a div unat b * unat b + unat a mod unat b" by simp
  show ?thesis
  proof (cases "a mod b = 0")
    case True
    then have "unat a mod unat b = 0" by (simp add: word_unat_eq_iff unat_mod_distrib)
    moreover have "unat q = unat a div unat b" using assms True by (auto simp: div_ceil_def unat_div_distrib)
    ultimately show ?thesis using b dm by simp
  next
    case False
    then have m: "0 < unat a mod unat b" by (simp add: word_unat_eq_iff unat_mod_distrib)
    have "unat b \<noteq> 1" using m by auto
    then have "2 * (unat a div unat b) \<le> unat b * (unat a div unat b)" using b by (intro mult_le_mono1) simp
    also have "\<dots> \<le> unat a" by simp
    finally have "2 * (unat a div unat b) \<le> unat a" .
    then have "unat a div unat b + 1 < 2 ^ 64" using unsigned_less [of a, where ?'a = nat] by simp
    then have "unat q = unat a div unat b + 1"
      using assms False by (auto simp: div_ceil_def unat_div_distrib unat_word_ariths)
    then have "unat q * unat b = unat a div unat b * unat b + unat b" by simp
    then show ?thesis using dm m mod_less_divisor [OF b, of "unat a"] by linarith
  qed
qed

lemma config_load_validated: "config_load E path ov = Inr cfg \<Longrightarrow> validate cfg = Inr ()"
  by (auto simp: config_load_def rbind_Inr_iff Let_def)

lemma valid_block_map:
  assumes "validate cfg = Inr ()"
  shows "block_map_new (cfg_device_size cfg) (cfg_logical_sector_size cfg) (cfg_object_size cfg) =
    Inr \<lparr>bm_device_size = cfg_device_size cfg, bm_logical_sector_size = cfg_logical_sector_size cfg,
         bm_object_size = cfg_object_size cfg\<rparr>"
  using assms by (auto simp: validate_def block_map_new_def split: if_splits)

lemma valid_object_count:
  assumes "validate cfg = Inr ()"
  shows "\<exists>n. config_object_count cfg = Inr n \<and>
    unat (cfg_device_size cfg) \<le> unat n * unat (cfg_object_size cfg) \<and>
    unat n * unat (cfg_object_size cfg) < unat (cfg_device_size cfg) + unat (cfg_object_size cfg)"
proof -
  have "unat (ucast (cfg_object_size cfg) :: u64) \<noteq> 0" using assms by (auto simp: validate_iff)
  then have nz: "(ucast (cfg_object_size cfg) :: u64) \<noteq> 0" by (metis unat_0)
  then obtain n where n: "config_object_count cfg = Inr n" by (simp add: config_object_count_def div_ceil_def)
  from div_ceil_spec [OF nz n [unfolded config_object_count_def]] n show ?thesis by simp
qed

text \<open>
  The precedence of the settings: a variable that is set determines the setting and its text parses,
  and only if the variable is absent does the file decide, then the default.
\<close>

definition env_first :: "(string \<Rightarrow> 'a res) \<Rightarrow> env_value \<Rightarrow> 'a option \<Rightarrow> 'a option \<Rightarrow> bool" where
  "env_first parse v in_file x \<longleftrightarrow>
     (\<forall>t. v = Value t \<longrightarrow> (\<exists>y. parse t = Inr y \<and> x = Some y)) \<and> (v = NotPresent \<longrightarrow> x = in_file)"

definition env_first_or :: "(string \<Rightarrow> 'a res) \<Rightarrow> env_value \<Rightarrow> 'a option \<Rightarrow> 'a \<Rightarrow> 'a \<Rightarrow> bool" where
  "env_first_or parse v in_file deflt y \<longleftrightarrow>
     (\<forall>t. v = Value t \<longrightarrow> parse t = Inr y) \<and> (v = NotPresent \<longrightarrow> y = unwrap_or in_file deflt)"

lemma env_first_parse: "env_parse parse E n = Inr x \<Longrightarrow> env_first parse (en_var E n) z (or_else x z)"
  by (auto simp: env_first_def env_parse_def rbind_Inr_iff or_else_def split: env_value.splits)

lemma env_first_path: "env_first Inr (en_var E n) z (or_else (env_path E n) z)"
  by (simp add: env_first_def env_path_def or_else_def)

lemma env_first_text: "env_first Inr (en_var E n) z (or_else (env_text E n) z)"
  by (simp add: env_first_def env_text_def or_else_def)

lemma env_first_default: "env_first parse v z x \<Longrightarrow> env_first_or parse v z d (unwrap_or x d)"
  by (auto simp: env_first_def env_first_or_def unwrap_or_def)

definition bool_text :: "string \<Rightarrow> bool res" where
  "bool_text v = Inr (v \<in> {''1'', ''true'', ''TRUE'', ''yes'', ''YES''})"

lemma merge_env_first:
  assumes "merge_env E file = Inr f"
  shows "env_first parse_u64 (en_var E ''TGDRIVE_DEVICE_SIZE'') (cf_device_size file) (cf_device_size f)"
    "env_first parse_u32 (en_var E ''TGDRIVE_LOGICAL_SECTOR_SIZE'') (cf_logical_sector_size file) (cf_logical_sector_size f)"
    "env_first parse_u32 (en_var E ''TGDRIVE_OBJECT_SIZE'') (cf_object_size file) (cf_object_size f)"
    "env_first Inr (en_var E ''TGDRIVE_CACHE_DIR'') (cf_cache_dir file) (cf_cache_dir f)"
    "env_first Inr (en_var E ''TGDRIVE_SQLITE_PATH'') (cf_sqlite_path file) (cf_sqlite_path f)"
    "env_first parse_i32 (en_var E ''TELEGRAM_API_ID'') (cf_telegram_api_id file) (cf_telegram_api_id f)"
    "env_first Inr (en_var E ''TELEGRAM_API_HASH'') (cf_telegram_api_hash file) (cf_telegram_api_hash f)"
    "env_first Inr (en_var E ''TELEGRAM_SESSION_PATH'') (cf_telegram_session_path file) (cf_telegram_session_path f)"
    "env_first parse_i64 (en_var E ''TELEGRAM_CHANNEL_ID'') (cf_telegram_channel_id file) (cf_telegram_channel_id f)"
    "env_first parse_i64 (en_var E ''TELEGRAM_CHANNEL_ACCESS_HASH'') (cf_telegram_channel_access_hash file) (cf_telegram_channel_access_hash f)"
    "env_first Inr (en_var E ''TELEGRAM_CHANNEL_TITLE'') (cf_telegram_channel_title file) (cf_telegram_channel_title f)"
    "env_first bool_text (en_var E ''TGDRIVE_READ_ONLY'') (cf_read_only file) (cf_read_only f)"
  using assms unfolding merge_env_def rbind_Inr_iff env_u64_def env_u32_def env_i32_def env_i64_def env_bool_def bool_text_def [abs_def]
  by (auto intro: env_first_parse env_first_path env_first_text)

text \<open>The configuration made of the merged settings.\<close>

definition built_config :: "string \<Rightarrow> bool option \<Rightarrow> TgDriveConfigFile \<Rightarrow> TgDriveConfig" where
  "built_config dir ov f =
    \<lparr>cfg_device_size = unwrap_or (cf_device_size f) (64 * 1024 * 1024),
           cfg_logical_sector_size = unwrap_or (cf_logical_sector_size f) 4096,
           cfg_object_size = unwrap_or (cf_object_size f) (256 * 1024),
           cfg_cache_dir = dir,
           cfg_sqlite_path = unwrap_or (cf_sqlite_path f) (path_join dir ''metadata.sqlite3''),
           cfg_telegram_api_id = cf_telegram_api_id f, cfg_telegram_api_hash = cf_telegram_api_hash f,
           cfg_telegram_session_path = unwrap_or (cf_telegram_session_path f) (path_join dir ''telegram.session''),
           cfg_telegram_channel_id = cf_telegram_channel_id f,
           cfg_telegram_channel_access_hash = cf_telegram_channel_access_hash f,
           cfg_telegram_channel_title = cf_telegram_channel_title f,
           cfg_read_only = unwrap_or ov (unwrap_or (cf_read_only f) False)\<rparr>"

lemma config_load_parts:
  assumes "config_load E path ov = Inr cfg"
  shows "\<exists>file f. (case path of None \<Rightarrow> file = config_file_default | Some p \<Rightarrow> en_read_toml E p = Inr file) \<and> merge_env E file = Inr f \<and>
    or_else (cf_cache_dir f) (default_cache_dir E) = Some (cfg_cache_dir cfg) \<and>
    cfg = built_config (cfg_cache_dir cfg) ov f"
  using assms unfolding config_load_def built_config_def
  by (clarsimp simp: rbind_Inr_iff Let_def ok_or_Inr_iff)
    (rule exI, rule conjI, (simp split: option.splits; fail), rule exI, rule conjI, assumption, simp)

section \<open>Properties of the configuration\<close>

text \<open>An environment with two variables set, for the witnesses.\<close>

definition toy_environment :: environment where
  "toy_environment = \<lparr>en_var = (\<lambda>n. if n = ''TGDRIVE_OBJECT_SIZE'' then Value ''131072''
       else if n = ''TGDRIVE_CACHE_DIR'' then Value ''c'' else NotPresent),
     en_read_toml = (\<lambda>_. Inl (ParseError ''toml'')), en_user_cache_dir = None\<rparr>"

definition toy_config :: TgDriveConfig where
  "toy_config = \<lparr>cfg_device_size = 67108864, cfg_logical_sector_size = 4096, cfg_object_size = 131072,
     cfg_cache_dir = ''c'', cfg_sqlite_path = ''c/metadata.sqlite3'', cfg_telegram_api_id = None,
     cfg_telegram_api_hash = None, cfg_telegram_session_path = ''c/telegram.session'',
     cfg_telegram_channel_id = None, cfg_telegram_channel_access_hash = None,
     cfg_telegram_channel_title = None, cfg_read_only = False\<rparr>"

lemma toy_config_load: "config_load toy_environment None (Some False) = Inr toy_config"
  by code_simp

text \<open>
  C36. A configuration that loads is usable: its sector size is positive and divides the device and
  the object size, objects have at least 64 KiB, the block map for it can be built, and the object
  count is the least number of objects that covers the device.
\<close>

theorem config_load_usable:
  assumes "config_load E path ov = Inr cfg"
  shows "cfg_logical_sector_size cfg \<noteq> 0 \<and>
    unat (cfg_logical_sector_size cfg) dvd unat (cfg_device_size cfg) \<and>
    unat (cfg_logical_sector_size cfg) dvd unat (cfg_object_size cfg) \<and>
    64 * 1024 \<le> unat (cfg_object_size cfg) \<and>
    (\<exists>m n. block_map_new (cfg_device_size cfg) (cfg_logical_sector_size cfg) (cfg_object_size cfg) = Inr m \<and>
       object_count m = Inr n \<and> config_object_count cfg = Inr n \<and>
       unat (cfg_device_size cfg) \<le> unat n * unat (cfg_object_size cfg) \<and>
       unat n * unat (cfg_object_size cfg) < unat (cfg_device_size cfg) + unat (cfg_object_size cfg))"
proof -
  note v = config_load_validated [OF assms]
  show ?thesis
    using v valid_object_count [OF v] valid_block_map [OF v]
    by (auto simp: validate_iff object_count_def config_object_count_def)
qed

theorem config_load_usable_witness:
  "config_load toy_environment None (Some False) = Inr toy_config \<and> cfg_logical_sector_size toy_config \<noteq> 0 \<and>
   64 * 1024 \<le> unat (cfg_object_size toy_config)"
  using toy_config_load config_load_usable [OF toy_config_load] by blast

text \<open>
  C37. Where each setting of a loaded configuration comes from, for all twelve: an environment variable
  that is set decides it, whatever the file says, and its text parses (otherwise the load fails); if
  the variable is absent, the file decides; if the file is silent too, the default, which for the
  database and the session file lies in the chosen cache directory. Only the read-only override of the
  caller takes precedence over environment and file.
\<close>

theorem config_env_precedence:
  assumes "config_load E path ov = Inr cfg"
  shows "\<exists>file. (case path of None \<Rightarrow> file = config_file_default | Some p \<Rightarrow> en_read_toml E p = Inr file) \<and>
    env_first_or parse_u64 (en_var E ''TGDRIVE_DEVICE_SIZE'') (cf_device_size file) (64 * 1024 * 1024) (cfg_device_size cfg) \<and>
    env_first_or parse_u32 (en_var E ''TGDRIVE_LOGICAL_SECTOR_SIZE'') (cf_logical_sector_size file) 4096 (cfg_logical_sector_size cfg) \<and>
    env_first_or parse_u32 (en_var E ''TGDRIVE_OBJECT_SIZE'') (cf_object_size file) (256 * 1024) (cfg_object_size cfg) \<and>
    (\<exists>dir. env_first Inr (en_var E ''TGDRIVE_CACHE_DIR'') (cf_cache_dir file) dir \<and>
       or_else dir (default_cache_dir E) = Some (cfg_cache_dir cfg)) \<and>
    env_first_or Inr (en_var E ''TGDRIVE_SQLITE_PATH'') (cf_sqlite_path file)
      (path_join (cfg_cache_dir cfg) ''metadata.sqlite3'') (cfg_sqlite_path cfg) \<and>
    env_first parse_i32 (en_var E ''TELEGRAM_API_ID'') (cf_telegram_api_id file) (cfg_telegram_api_id cfg) \<and>
    env_first Inr (en_var E ''TELEGRAM_API_HASH'') (cf_telegram_api_hash file) (cfg_telegram_api_hash cfg) \<and>
    env_first_or Inr (en_var E ''TELEGRAM_SESSION_PATH'') (cf_telegram_session_path file)
      (path_join (cfg_cache_dir cfg) ''telegram.session'') (cfg_telegram_session_path cfg) \<and>
    env_first parse_i64 (en_var E ''TELEGRAM_CHANNEL_ID'') (cf_telegram_channel_id file) (cfg_telegram_channel_id cfg) \<and>
    env_first parse_i64 (en_var E ''TELEGRAM_CHANNEL_ACCESS_HASH'') (cf_telegram_channel_access_hash file)
      (cfg_telegram_channel_access_hash cfg) \<and>
    env_first Inr (en_var E ''TELEGRAM_CHANNEL_TITLE'') (cf_telegram_channel_title file) (cfg_telegram_channel_title cfg) \<and>
    (case ov of Some r \<Rightarrow> cfg_read_only cfg = r
     | None \<Rightarrow> env_first_or bool_text (en_var E ''TGDRIVE_READ_ONLY'') (cf_read_only file) False (cfg_read_only cfg))"
proof -
  obtain f0 f where path: "case path of None \<Rightarrow> f0 = config_file_default | Some p \<Rightarrow> en_read_toml E p = Inr f0"
    and m: "merge_env E f0 = Inr f" and dir: "or_else (cf_cache_dir f) (default_cache_dir E) = Some (cfg_cache_dir cfg)"
    and cfg: "cfg = built_config (cfg_cache_dir cfg) ov f"
    using config_load_parts [OF assms] by blast
  note me = merge_env_first [OF m]
  note sel = arg_cong [OF cfg, unfolded built_config_def]
  have ro: "cfg_read_only cfg = unwrap_or ov (unwrap_or (cf_read_only f) False)" using sel [of cfg_read_only] by simp
  have "case ov of Some r \<Rightarrow> cfg_read_only cfg = r
     | None \<Rightarrow> env_first_or bool_text (en_var E ''TGDRIVE_READ_ONLY'') (cf_read_only f0) False (cfg_read_only cfg)"
    using env_first_default [OF me(12)] by (cases ov) (simp_all add: ro unwrap_or_def [of "Some _"] unwrap_or_def [of None])
  then show ?thesis
    using path dir me me(1,2,3,5,8) [THEN env_first_default]
      sel [of cfg_device_size] sel [of cfg_logical_sector_size] sel [of cfg_object_size] sel [of cfg_sqlite_path] sel [of cfg_telegram_api_id]
      sel [of cfg_telegram_api_hash] sel [of cfg_telegram_session_path] sel [of cfg_telegram_channel_id]
      sel [of cfg_telegram_channel_access_hash] sel [of cfg_telegram_channel_title]
    by (intro exI [of _ f0] conjI exI [of _ "cf_cache_dir f"]) (simp_all only: TgDriveConfig.select_convs)
qed

definition set_environment :: environment where
  "set_environment = \<lparr>en_var = (\<lambda>n. if n = ''TGDRIVE_SQLITE_PATH'' then Value ''db''
       else if n = ''TELEGRAM_API_ID'' then Value ''-17'' else if n = ''TGDRIVE_READ_ONLY'' then Value ''yes'' else NotPresent),
     en_read_toml = (\<lambda>_. Inr (config_file_default\<lparr>cf_cache_dir := Some ''c'', cf_sqlite_path := Some ''other'',
       cf_telegram_api_id := Some 5, cf_object_size := Some 65536, cf_read_only := Some False\<rparr>)), en_user_cache_dir = None\<rparr>"

theorem config_env_precedence_witness:
  "\<exists>cfg. config_load set_environment (Some ''f'') None = Inr cfg \<and> cfg_sqlite_path cfg = ''db'' \<and> cfg_telegram_api_id cfg = Some (- 17) \<and>
     cfg_read_only cfg \<and> cfg_object_size cfg = 65536 \<and> cfg_telegram_session_path cfg = ''c/telegram.session''"
proof -
  have "case config_load set_environment (Some ''f'') None of Inr cfg \<Rightarrow> cfg_cache_dir cfg = ''c'' | _ \<Rightarrow> False" by code_simp
  then obtain cfg where c: "config_load set_environment (Some ''f'') None = Inr cfg" "cfg_cache_dir cfg = ''c''"
    by (auto split: sum.splits)
  have i: "parse_i32 ''-17'' = Inr (- 17)" by code_simp
  have j: "path_join ''c'' ''telegram.session'' = ''c/telegram.session''" by code_simp
  show ?thesis
    using config_env_precedence [OF c(1)] c i j
    by (auto simp: set_environment_def env_first_def env_first_or_def bool_text_def unwrap_or_def config_file_default_def)
qed

text \<open>
  Printing an integer and parsing it back gives the same machine integer, for every integer
  type the environment is read with.
\<close>

theorem parse_round_trip:
  "parse_u64 (show_nat (unat a)) = Inr a \<and> parse_u32 (show_nat (unat b)) = Inr b \<and>
   parse_i32 (show_int (sint c)) = Inr c \<and> parse_i64 (show_int (sint d)) = Inr d"
proof -
  have "int (unat a) \<le> 2 ^ 64 - 1" "int (unat b) \<le> 2 ^ 32 - 1"
    using unsigned_less [of a, where ?'a = int] unsigned_less [of b, where ?'a = int] by simp_all
  moreover have "- (2 ^ 31) \<le> sint c" "sint c \<le> 2 ^ 31 - 1" "- (2 ^ 63) \<le> sint d" "sint d \<le> 2 ^ 63 - 1"
    using sint_ge [of c] sint_lt [of c] sint_ge [of d] sint_lt [of d] by simp_all
  ultimately show ?thesis
    by (simp add: parse_u64_def parse_u32_def parse_i32_def parse_i64_def parse_int_show_nat parse_int_show_int)
qed

end
