(* ===== verification/Device.thy ===== *)
theory Device
  imports BlockFlush Config
begin

text \<open>
  The device as a whole: starting it from the local store, running sequences of reads, writes,
  flushes and restarts, and the abstract disk such a sequence refines. The side conditions of the
  single-operation lemmas (a generation counter below its limit, room for messages, a bounded
  dirty set, a stored manifest that agrees with the one in memory) are an invariant of the runs.
\<close>

section \<open>Starting a device\<close>

text \<open>
  The device that \<open>serve-nbd\<close> builds from a local store with a manifest and a backend. The backend is an
  argument: the Telegram branch passes the channel, with its committer, and the local branch a new
  \<open>MemoryBackend\<close> (\<open>serve_local\<close> and \<open>serve_telegram\<close> are the whole branches). A restart is a new process
  over the backend of the old one, as it is with a channel.
\<close>

definition serve_device :: "libs \<Rightarrow> u64 \<Rightarrow> u32 \<Rightarrow> u32 \<Rightarrow> 'b committer option \<Rightarrow> 'b \<Rightarrow> LocalStore \<Rightarrow> 'b BlockDevice res" where
  "serve_device L device_size logical_sector_size object_size committer backend store =
     rbind (load_manifest L store) (\<lambda>loaded.
     rbind (ok_or loaded (Anyhow ''no local manifest; run tgdrive format first'')) (\<lambda>manifest.
     rbind (block_map_new device_size logical_sector_size object_size) (\<lambda>bmap.
     let device = device_new bmap backend store manifest in
     Inr (case committer of None \<Rightarrow> device | Some c \<Rightarrow> with_committer c device))))"

text \<open>
  \<open>format --local-only\<close>: the metadata of an existing store is replaced only with \<open>--force\<close>;
  \<open>existing\<close> is the store on disk, if there is one, and \<open>files\<close> what lies in a cache directory without one.
\<close>

definition format_local :: "libs \<Rightarrow> 128 word \<Rightarrow> bool \<Rightarrow> TgDriveConfig \<Rightarrow> (string \<rightharpoonup> bytes) \<Rightarrow> LocalStore option \<Rightarrow> (Manifest \<times> LocalStore) res" where
  "format_local L uuid force cfg files existing =
     rbind (validate cfg) (\<lambda>_.
     rbind (ensure (existing = None \<or> force)
       (Anyhow (cfg_sqlite_path cfg @ '' already exists; pass --force to replace local metadata''))) (\<lambda>_.
     let store = (case existing of None \<Rightarrow> store_open (cfg_cache_dir cfg) files | Some s \<Rightarrow> s) in
     rbind (config_object_count cfg) (\<lambda>n.
     let manifest = manifest_empty uuid (cfg_object_size cfg) n in
     case replace_from_manifest L manifest store of
       (Inl e, _) \<Rightarrow> Inl e | (Inr _, store') \<Rightarrow> Inr (manifest, store'))))"

section \<open>Sequences of operations\<close>

datatype dev_op = ReadAt u64 nat | WriteAt u64 bytes | FlushOp | Restart

definition dev_exec :: "libs \<Rightarrow> 'b backend \<Rightarrow> dev_op \<Rightarrow> ('b BlockDevice, bytes) st" where
  "dev_exec L B op = (case op of
      ReadAt offset len \<Rightarrow> read_at L B offset len
    | WriteAt offset bs \<Rightarrow> bnd (write_at L B offset bs) (\<lambda>_. ret [])
    | FlushOp \<Rightarrow> bnd (flush L B) (\<lambda>_. ret [])
    | Restart \<Rightarrow> (\<lambda>d. case serve_device L (bm_device_size (bd_map d)) (bm_logical_sector_size (bd_map d))
          (bm_object_size (bd_map d)) (bd_committer d) (bd_backend d) (bd_store d) of
          Inl e \<Rightarrow> (Inl e, d) | Inr d' \<Rightarrow> (Inr [], d')))"

fun dev_run :: "libs \<Rightarrow> 'b backend \<Rightarrow> dev_op list \<Rightarrow> 'b BlockDevice \<Rightarrow> bytes res list \<times> 'b BlockDevice" where
  "dev_run L B [] d = ([], d)"
| "dev_run L B (op # ops) d =
     (case dev_exec L B op d of (r, d1) \<Rightarrow> (case dev_run L B ops d1 of (rs, d2) \<Rightarrow> (r # rs, d2)))"

text \<open>
  The abstract disk: what an operation may answer and do. A failed write may leave any prefix
  of its data written; nothing else changes the disk, a restart neither.
\<close>

inductive disk_step :: "dev_op \<Rightarrow> bytes res \<Rightarrow> bytes \<Rightarrow> bytes \<Rightarrow> bool" where
  read_ok: "disk_step (ReadAt offset len) (Inr (slice (unat offset) (unat offset + len) disk)) disk disk"
| read_err: "disk_step (ReadAt offset len) (Inl e) disk disk"
| write_ok: "disk_step (WriteAt offset bs) (Inr []) disk (splice_at (unat offset) bs disk)"
| write_err: "j \<le> length bs \<Longrightarrow> disk_step (WriteAt offset bs) (Inl e) disk (splice_at (unat offset) (take j bs) disk)"
| flush_any: "disk_step FlushOp r disk disk"
| restart: "disk_step Restart (Inr []) disk disk"

inductive disk_run :: "dev_op list \<Rightarrow> bytes res list \<Rightarrow> bytes \<Rightarrow> bytes \<Rightarrow> bool" where
  run_nil: "disk_run [] [] disk disk"
| run_cons: "disk_step op r disk disk1 \<Longrightarrow> disk_run ops rs disk1 disk2 \<Longrightarrow> disk_run (op # ops) (r # rs) disk disk2"

inductive_cases disk_runE: "disk_run (op # ops) rs disk disk'"

definition op_in_range :: "u64 \<Rightarrow> dev_op \<Rightarrow> bool" where
  "op_in_range sz op = (case op of
      ReadAt offset len \<Rightarrow> unat offset + len \<le> unat sz
    | WriteAt offset bs \<Rightarrow> unat offset + length bs \<le> unat sz
    | _ \<Rightarrow> True)"

section \<open>The invariant of runs\<close>

text \<open>The stored manifest agrees with the one in memory on every clean object.\<close>

definition agrees :: "'b BlockDevice \<Rightarrow> Manifest \<Rightarrow> bool" where
  "agrees d m \<longleftrightarrow>
     map mo_object_id (m_objects m) = map mo_object_id (m_objects (bd_manifest d)) \<and>
     m_generation m \<le> m_generation (bd_manifest d) \<and>
     (\<forall>j < length (m_objects m). dirty_object (of_nat j) (bd_store d) = None \<longrightarrow>
        m_objects m ! j = m_objects (bd_manifest d) ! j \<and> mo_generation (m_objects m ! j) \<le> m_generation m)"

definition persisted :: "libs \<Rightarrow> 'b BlockDevice \<Rightarrow> bool" where
  "persisted L d \<longleftrightarrow> (\<exists>m. load_manifest L (bd_store d) = Inr (Some m) \<and> agrees d m)"

definition gens_below :: "nat \<Rightarrow> 'b BlockDevice \<Rightarrow> bool" where
  "gens_below c d \<longleftrightarrow> unat (m_generation (bd_manifest d)) \<le> c \<and>
     (\<forall>r\<in>set (ls_dirty_objects (bd_store d)). unat (dr_generation r) \<le> c)"

definition map_ok :: "BlockMap \<Rightarrow> bool" where
  "map_ok m \<longleftrightarrow> block_map_new (bm_device_size m) (bm_logical_sector_size m) (bm_object_size m) = Inr m"

definition run_inv :: "libs \<Rightarrow> nat \<Rightarrow> 'b BlockDevice \<Rightarrow> bool" where
  "run_inv L c d \<longleftrightarrow> persisted L d \<and> gens_below c d \<and> map_ok (bd_map d) \<and>
     length (ls_dirty_objects (bd_store d)) \<le> bd_max_dirty_objects d \<and> bd_max_dirty_objects d = 4096"

section \<open>What the operations leave alone\<close>

lemma same_core_bnd:
  assumes m: "\<And>s. same_core s (snd (m s))" and f: "\<And>x s. same_core s (snd (f x s))"
  shows "same_core s (snd (bnd m f s))"
proof -
  obtain x t where ms: "m s = (x, t)" by force
  then have "same_core s t" using m [of s] by simp
  then show ?thesis by (cases x) (auto simp: bnd_def ms intro: same_core_trans [OF _ f])
qed

lemma same_core_branch:
  "same_core d (snd (a d)) \<Longrightarrow> (\<And>y. same_core d (snd (b y d))) \<Longrightarrow>
   same_core d (snd ((case q of None \<Rightarrow> a | Some y \<Rightarrow> b y) d))"
  "same_core d (snd (a d)) \<Longrightarrow> same_core d (snd (c d)) \<Longrightarrow> same_core d (snd ((if p then a else c) d))"
  by (auto split: option.split)

lemma same_core_on_store:
  "(\<And>s. store_frame s (snd (m s))) \<Longrightarrow> same_core d (snd (on_store m d))"
  by (auto simp: on_store_def store_frame_def same_core_def split: prod.splits) (metis snd_conv)+

lemma same_core_steps [simp]:
  "same_core d (snd (on_backend m d))" "same_core d (snd (on_metrics g d))" "same_core d (snd (lift r d))"
  "same_core d (snd (gets h d))" "same_core d (snd (ret x d))" "same_core d (snd (read_file p d))"
  by (simp_all add: on_backend_def on_metrics_def same_core_def read_file_def split: prod.splits)

lemma store_frame_cache [simp]:
  "store_frame s (snd (read_cache L i g h s))" "store_frame s (snd (write_cache L i g bs dirty s))"
  using read_cache_spec [of L i g h s] write_cache_spec [of L i g bs dirty s]
  by (metis prod.collapse)+

lemmas same_core_intros = same_core_bnd same_core_branch same_core_on_store same_core_steps store_frame_cache

lemma read_object_core: "same_core d (snd (read_object L B i d))"
  unfolding read_object_def read_dirty_def read_clean_def read_remote_def
  by (intro same_core_intros)

text \<open>An invariant of reading an object and of writing one is an invariant of the write loop.\<close>

lemma write_loop_invariant:
  assumes rd: "\<And>i d. P d \<Longrightarrow> P (snd (read_object L B i d))"
    and wr: "\<And>i object offset len d. P d \<Longrightarrow> P (snd (write_dirty_object L i object offset len d))"
    and "P d"
  shows "P (snd (write_loop L B bs remaining io cursor d))"
  using \<open>P d\<close>
proof (induction remaining arbitrary: io cursor d rule: less_induct)
  case (less remaining)
  show ?case
  proof (cases "remaining = 0")
    case True
    then show ?thesis using less.prems by (simp add: write_loop_zero)
  next
    case False
    show ?thesis
    proof (cases "locate (bd_map d) cursor")
      case (Inl e)
      then show ?thesis using less.prems False by (simp add: write_loop.simps)
    next
      case (Inr q)
      obtain i off where q: "q = (i, off)" by force
      let ?k = "min remaining (device_object_size d - off)"
      have "off < device_object_size d" using locate_offset_less Inr q by (simp add: device_object_size_def)
      then have lt: "remaining - ?k < remaining" using False by simp
      obtain y d1 where ro: "(if off = 0 \<and> ?k = device_object_size d then (Inr (replicate (device_object_size d) 0), d)
        else read_object L B i d) = (y, d1)" by force
      then have d1: "P d1" using less.prems rd [OF less.prems, of i] by (auto split: if_splits)
      have "P (snd (write_dirty_object L i object o2 l2 d1))" for object o2 l2 by (rule wr [OF d1])
      moreover have "P d2 \<Longrightarrow> P (snd (write_loop L B bs (remaining - ?k) (io + ?k) c2 d2))" for d2 c2 by (rule less.IH [OF lt])
      ultimately show ?thesis
        using d1 by (auto simp: write_loop_step [OF False Inr [unfolded q] ro] split: sum.splits prod.splits) (metis snd_conv)+
    qed
  qed
qed

text \<open>The side effects of a write on the rows.\<close>

definition grown :: "nat \<Rightarrow> 'b BlockDevice \<Rightarrow> 'b BlockDevice \<Rightarrow> bool" where
  "grown c d d' \<longleftrightarrow> same_config d d' \<and> ls_manifest_state (bd_store d') = ls_manifest_state (bd_store d) \<and>
     (\<forall>r\<in>set (ls_dirty_objects (bd_store d')). unat (dr_generation r) \<le> c) \<and>
     length (ls_dirty_objects (bd_store d')) \<le> bd_max_dirty_objects d' \<and>
     (\<forall>i. dirty_object i (bd_store d') = None \<longrightarrow> dirty_object i (bd_store d) = None)"

lemma mark_dirty_rows:
  "ls_dirty_objects (snd (mark_dirty L i g path sha offset len s)) =
     upsert_dirty_row (dirty_row_of L s i g path sha) (ls_dirty_objects s) \<and>
   ls_manifest_state (snd (mark_dirty L i g path sha offset len s)) = ls_manifest_state s"
  by (simp add: mark_dirty_def tick_def dirty_row_of_def split: sum.split)

lemma write_dirty_grown:
  assumes g: "grown c d0 d" and c: "unat (m_generation (bd_manifest d0)) < c"
  shows "grown c d0 (snd (write_dirty_object L i object offset len d))"
proof (cases "st_dirty_objects (stats (bd_store d)) < bd_max_dirty_objects d")
  case False
  then show ?thesis using g by (simp add: write_dirty_object_def)
next
  case True
  show ?thesis
  proof (cases "add_w L (m_generation (bd_manifest d)) 1")
    case (Inl e)
    then show ?thesis using g True by (simp add: write_dirty_object_def)
  next
    case (Inr h)
    have md: "bd_manifest d = bd_manifest d0" using g by (simp add: grown_def same_config_def)
    have "h = m_generation (bd_manifest d) + 1" using Inr by (simp add: add_w_def overflow_def split: if_splits)
    then have h: "unat h \<le> c" using c by (simp add: md unat_word_ariths)
    let ?bs = "encode L \<lparr>env_object_id = i, env_generation = h, env_object_size = bm_object_size (bd_map d),
      env_flags = 0, env_payload = resize (device_object_size d) 0 object\<rparr>"
    obtain x s1 where wc: "write_cache L i h ?bs True (bd_store d) = (x, s1)" by force
    note w = write_cache_spec [OF wc]
    obtain y s2 where mk: "mark_dirty L i h (cache_path s1 i h) (sha256_hex L ?bs) offset len s1 = (y, s2)" by force
    have res: "snd (write_dirty_object L i object offset len d) = d\<lparr>bd_store := s2\<rparr>"
      using True Inr w wc mk by (simp add: write_dirty_object_def bnd_apply on_store_def)
    let ?row = "dirty_row_of L s1 i h (cache_path s1 i h) (sha256_hex L ?bs)"
    have rows: "ls_dirty_objects s2 = upsert_dirty_row ?row (ls_dirty_objects (bd_store d))"
      "ls_manifest_state s2 = ls_manifest_state (bd_store d)"
      using mark_dirty_rows [of L i h "cache_path s1 i h" "sha256_hex L ?bs" offset len s1] mk w
      by (simp_all add: store_frame_def)
    have "length (ls_dirty_objects s2) \<le> bd_max_dirty_objects d"
      using length_upsert_dirty [of ?row "ls_dirty_objects (bd_store d)"] True by (simp add: rows stats_def)
    moreover have "\<forall>r\<in>set (ls_dirty_objects s2). unat (dr_generation r) \<le> c"
      using g h by (auto simp: rows upsert_dirty_row_def dirty_row_of_def grown_def)
    ultimately show ?thesis
      using g dirty_object_upsert [OF rows(1)] by (auto simp: res grown_def same_config_def rows(2) split: if_splits)
  qed
qed

lemma write_at_grown:
  assumes g: "gens_below c d" and l: "length (ls_dirty_objects (bd_store d)) \<le> bd_max_dirty_objects d"
  shows "grown (Suc c) d (snd (write_at L B offset bs d))"
proof -
  have start: "grown (Suc c) d d" using g l by (auto simp: grown_def gens_below_def)
  have core: "grown (Suc c) d d2" if "grown (Suc c) d d1" "same_core d1 d2" for d1 d2
    using that by (auto simp: grown_def same_core_def same_config_def dirty_object_def)
  have below: "unat (m_generation (bd_manifest d)) < Suc c" using g by (simp add: gens_below_def)
  have "grown (Suc c) d (snd (write_loop L B bs n io cursor d))" for n io cursor
    by (rule write_loop_invariant [where P = "grown (Suc c) d"])
      (rule core [OF _ read_object_core] write_dirty_grown [OF _ below] start; assumption)+
  then show ?thesis using start by (auto simp: write_at_def split: sum.split)
qed

section \<open>The invariant is kept\<close>

lemma run_inv_core: "run_inv L c d \<Longrightarrow> same_core d d' \<Longrightarrow> run_inv L c d'"
  by (simp add: run_inv_def persisted_def agrees_def gens_below_def same_core_def load_manifest_def dirty_object_def)

lemma gens_below_mono: "gens_below c d \<Longrightarrow> c \<le> c' \<Longrightarrow> gens_below c' d"
  by (auto simp: gens_below_def)

lemma run_inv_mono: "run_inv L c d \<Longrightarrow> c \<le> c' \<Longrightarrow> run_inv L c' d"
  by (auto simp: run_inv_def gens_below_mono)

lemma run_inv_write:
  assumes "run_inv L c d"
  shows "run_inv L (Suc c) (snd (write_at L B offset bs d))"
proof -
  let ?d = "snd (write_at L B offset bs d)"
  have g: "grown (Suc c) d ?d" using assms by (intro write_at_grown) (auto simp: run_inv_def)
  then have sel: "bd_manifest ?d = bd_manifest d" "load_manifest L (bd_store ?d) = load_manifest L (bd_store d)"
    "bd_map ?d = bd_map d" "bd_max_dirty_objects ?d = bd_max_dirty_objects d"
    by (simp_all add: grown_def same_config_def load_manifest_def)
  have "agrees d m \<Longrightarrow> agrees ?d m" for m using g unfolding agrees_def sel grown_def by metis
  then show ?thesis using assms g by (auto simp: run_inv_def persisted_def sel gens_below_def grown_def)
qed

lemma max_generation_le:
  "(\<And>x. x \<in> set xs \<Longrightarrow> unat (do_generation x) \<le> c) \<Longrightarrow> unat (max_generation xs) \<le> c"
proof -
  have "unat g \<le> c \<Longrightarrow> (\<And>x. x \<in> set xs \<Longrightarrow> unat (do_generation x) \<le> c) \<Longrightarrow>
    unat (fold max (map do_generation xs) g) \<le> c" for g
    by (induction xs arbitrary: g) (auto simp: max_def)
  from this [of 0] show "(\<And>x. x \<in> set xs \<Longrightarrow> unat (do_generation x) \<le> c) \<Longrightarrow> unat (max_generation xs) \<le> c"
    by (simp add: max_generation_def)
qed

lemma dirty_objects_generations:
  "x \<in> set (dirty_objects s) \<Longrightarrow> \<exists>r\<in>set (ls_dirty_objects s). do_generation x = dr_generation r"
  by (auto simp: dirty_objects_def dirty_of_row_def)

lemma flush_clean_id: "ls_dirty_objects (bd_store d) = [] \<Longrightarrow> flush L B d = (Inr (), d)"
  by (simp add: flush_def)

lemma saved_loads:
  "json_round_trips L \<Longrightarrow> manifest_saved L d \<Longrightarrow> load_manifest L (bd_store d) = Inr (Some (bd_manifest d))"
  unfolding json_round_trips_def manifest_saved_def load_manifest_def
  by (metis (no_types, lifting) Inr_inject option.simps(5) rbind_simps(2))

lemma run_inv_flush:
  assumes inv: "run_inv L c d" and J: "json_round_trips L" and rel: "dev_rel L invar stored d disk"
    and fr: "flush_frame d d'" and fl: "flush L B d = (y, d')"
    and out: "case y of
       Inr _ \<Rightarrow> durable L stored d' disk \<and> (ls_dirty_objects (bd_store d) \<noteq> [] \<longrightarrow> manifest_saved L d')
     | Inl _ \<Rightarrow> ls_dirty_objects (bd_store d') = ls_dirty_objects (bd_store d) \<and>
         ls_manifest_state (bd_store d') = ls_manifest_state (bd_store d)"
  shows "run_inv L c d'"
proof (cases "ls_dirty_objects (bd_store d) = []")
  case True
  then show ?thesis using inv fl flush_clean_id [OF True] by simp
next
  case False
  have sel: "bd_map d' = bd_map d" "bd_max_dirty_objects d' = bd_max_dirty_objects d" using fr by (simp_all add: flush_frame_def)
  have "unat (do_generation x) \<le> c" if "x \<in> set (dirty_objects (bd_store d))" for x
    using dirty_objects_generations [OF that] inv by (auto simp: run_inv_def gens_below_def)
  then have "unat (max_generation (dirty_objects (bd_store d))) \<le> c" by (rule max_generation_le)
  then have gen: "unat (m_generation (bd_manifest d')) \<le> c"
    using fr inv by (auto simp: flush_frame_def run_inv_def gens_below_def)
  show ?thesis
  proof (cases y)
    case (Inr u)
    then have dur: "durable L stored d' disk" and load: "load_manifest L (bd_store d') = Inr (Some (bd_manifest d'))"
      using out False saved_loads [OF J] by auto
    have "agrees d' (bd_manifest d')" using dur by (simp add: agrees_def durable_def uploaded_def)
    then show ?thesis using load gen dur inv by (simp add: run_inv_def persisted_def gens_below_def durable_def sel)
  next
    case (Inl e)
    then have rows: "ls_dirty_objects (bd_store d') = ls_dirty_objects (bd_store d)"
      "load_manifest L (bd_store d') = load_manifest L (bd_store d)"
      using out by (simp_all add: load_manifest_def)
    have "m_generation (bd_manifest d) \<le> m_generation (bd_manifest d')"
      using fr rel False by (auto simp: flush_frame_def dev_rel_def objects_ok_def)
    then have "agrees d m \<Longrightarrow> agrees d' m" for m
      using fr by (auto simp: agrees_def flush_frame_def dirty_object_def rows)
    then show ?thesis using inv gen by (auto simp: run_inv_def persisted_def gens_below_def rows sel)
  qed
qed

text \<open>A restart on the stored manifest.\<close>

lemma dev_rel_agrees:
  assumes rel: "dev_rel L invar stored d disk" and ag: "agrees d m"
    and d': "bd_map d' = bd_map d" "bd_store d' = bd_store d" "bd_backend d' = bd_backend d" "bd_manifest d' = m"
  shows "dev_rel L invar stored d' disk"
proof -
  have len: "length (m_objects m) = length (m_objects (bd_manifest d))"
    using ag unfolding agrees_def by (metis length_map)
  have sz: "device_object_size d' = device_object_size d" by (simp add: device_object_size_def d')
  have "shape_ok d' disk" using rel ag unfolding dev_rel_def shape_ok_def agrees_def by (simp add: len sz d')
  moreover have "objects_ok L (stored (bd_backend d)) d' disk"
    using rel ag unfolding dev_rel_def objects_ok_def agrees_def by (auto simp: len sz d' intro: order_trans)
  ultimately show ?thesis using rel by (simp add: dev_rel_def d')
qed

lemma restart_rel:
  assumes rel: "dev_rel L invar stored d disk" and inv: "run_inv L c d"
  shows "\<exists>d'. serve_device L (bm_device_size (bd_map d)) (bm_logical_sector_size (bd_map d)) (bm_object_size (bd_map d))
      (bd_committer d) (bd_backend d) (bd_store d) = Inr d' \<and>
    dev_rel L invar stored d' disk \<and> run_inv L c d' \<and> bd_backend d' = bd_backend d \<and>
    bd_committer d' = bd_committer d \<and> bd_map d' = bd_map d"
proof -
  obtain m where m: "load_manifest L (bd_store d) = Inr (Some m)" "agrees d m"
    using inv by (auto simp: run_inv_def persisted_def)
  let ?new = "device_new (bd_map d) (bd_backend d) (bd_store d) m"
  let ?d = "case bd_committer d of None \<Rightarrow> ?new | Some c \<Rightarrow> with_committer c ?new"
  have sel: "bd_map ?d = bd_map d" "bd_store ?d = bd_store d" "bd_backend ?d = bd_backend d" "bd_manifest ?d = m"
    "bd_committer ?d = bd_committer d" "bd_max_dirty_objects ?d = 4096"
    by (auto simp: device_new_def with_committer_def split: option.split)
  have sd: "serve_device L (bm_device_size (bd_map d)) (bm_logical_sector_size (bd_map d)) (bm_object_size (bd_map d))
      (bd_committer d) (bd_backend d) (bd_store d) = Inr ?d"
    using m(1) inv by (simp add: serve_device_def run_inv_def map_ok_def Let_def)
  have "agrees ?d m" using m(2) unfolding agrees_def sel by blast
  moreover have "unat (m_generation m) \<le> c"
    using m(2) inv by (auto simp: agrees_def run_inv_def gens_below_def word_le_nat_alt)
  ultimately have "run_inv L c ?d" using inv m(1) by (simp add: run_inv_def persisted_def gens_below_def sel)
  moreover have "dev_rel L invar stored ?d disk" by (rule dev_rel_agrees [OF rel m(2) sel(1-4)])
  ultimately show ?thesis using sd sel by blast
qed

section \<open>Runs refine the disk\<close>

text \<open>One message room per dirty object and \<open>n\<close> for the committer, for every operation.\<close>

definition ready :: "libs \<Rightarrow> ('b \<Rightarrow> bool) \<Rightarrow> ('b \<Rightarrow> nat \<Rightarrow> bool) \<Rightarrow> ('b \<Rightarrow> i32 \<rightharpoonup> bytes) \<Rightarrow> nat \<Rightarrow> nat \<Rightarrow> nat \<Rightarrow>
    'b BlockDevice \<Rightarrow> bytes \<Rightarrow> bool" where
  "ready L invar room stored n k c d disk \<longleftrightarrow>
     dev_rel L invar stored d disk \<and> run_inv L c d \<and> commits_safely invar room stored n (bd_committer d) \<and>
     room (bd_backend d) (k * (4096 + n)) \<and> c + k < 2 ^ 64 - 1"

context remote_backend
begin

lemma room_mult: "room b (Suc k * m) \<Longrightarrow> room b (k * m)"
  by (erule room_le) simp

lemma ready_mono: "ready L invar room stored n (Suc k) c d disk \<Longrightarrow> ready L invar room stored n k (Suc c) d disk"
  unfolding ready_def using room_mult [of "bd_backend d" k "4096 + n"] by (auto intro: run_inv_mono)

text \<open>What an operation may use of a ready device.\<close>

lemma ready_facts:
  assumes "ready L invar room stored n (Suc k) c d disk"
  shows "dev_rel L invar stored d disk" "unat (m_generation (bd_manifest d)) + 1 < 2 ^ 64"
    "room (bd_backend d) (length (dirty_objects (bd_store d)) + (n + k * (4096 + n)))"
    "commits_safely invar room stored n (bd_committer d)" "run_inv L c d"
proof -
  have "length (dirty_objects (bd_store d)) \<le> 4096" using assms by (simp add: ready_def run_inv_def dirty_objects_def)
  then show "room (bd_backend d) (length (dirty_objects (bd_store d)) + (n + k * (4096 + n)))"
    using assms by (auto simp: ready_def intro: room_le)
qed (use assms in \<open>auto simp: ready_def run_inv_def gens_below_def\<close>)

lemma read_step:
  assumes r: "ready L invar room stored n (Suc k) c d disk" and L: "digest32 L"
    and b: "unat offset + len \<le> unat (bm_device_size (bd_map d))" and rd: "read_at L B offset len d = (x, d')"
  shows "disk_step (ReadAt offset len) x disk disk \<and> ready L invar room stored n k (Suc c) d' disk \<and> bd_map d' = bd_map d"
proof -
  have rel: "dev_rel L invar stored d disk" using r by (simp add: ready_def)
  note rr = read_at_rel [OF rel L b rd]
  then have kp: "kept L invar room stored disk d d'" by simp
  have "disk_step (ReadAt offset len) x disk disk" using rr by (cases x) (auto intro: disk_step.intros)
  moreover have "ready L invar room stored n (Suc k) c d' disk"
    using r kp keptD(2) [OF kp] run_inv_core [OF _ keptD(2) [OF kp]] by (simp add: ready_def kept_def same_core_def)
  ultimately show ?thesis using ready_mono keptD(3) [OF kp] by blast
qed

lemma write_step:
  assumes r: "ready L invar room stored n (Suc k) c d disk" and L: "digest32 L"
    and b: "unat offset + length bs \<le> unat (bm_device_size (bd_map d))" and wr: "write_at L B offset bs d = (x, d')"
  shows "\<exists>disk'. disk_step (WriteAt offset bs) (map_sum id (\<lambda>_. []) x) disk disk' \<and>
    ready L invar room stored n k (Suc c) d' disk' \<and> bd_map d' = bd_map d"
proof -
  note rel = ready_facts(1) [OF r] and gen = ready_facts(2) [OF r] and inv = ready_facts(5) [OF r]
  from write_at_rel [OF rel L gen b wr] obtain j where j: "j \<le> length bs"
    "wrote L invar room stored d d' (splice_at (unat offset) (take j bs) disk)"
    "case x of Inr _ \<Rightarrow> j = length bs | Inl e \<Rightarrow> write_error L B invar stored d d' e" by blast
  have "disk_step (WriteAt offset bs) (map_sum id (\<lambda>_. []) x) disk (splice_at (unat offset) (take j bs) disk)"
    using j by (cases x) (auto intro: disk_step.intros)
  moreover have "run_inv L (Suc c) d'" using run_inv_write [OF inv, of B offset bs] wr by simp
  then have "ready L invar room stored n k (Suc c) d' (splice_at (unat offset) (take j bs) disk)"
    using r j(2) room_mult [of "bd_backend d" k "4096 + n"] by (simp add: ready_def wrote_def same_config_def)
  ultimately show ?thesis using j(2) by (auto simp: wrote_def same_config_def)
qed

lemma flush_step:
  assumes r: "ready L invar room stored n (Suc k) c d disk" and L: "digest32 L" "json_round_trips L"
    and fl: "flush L B d = (x, d')"
  shows "ready L invar room stored n k (Suc c) d' disk \<and> bd_map d' = bd_map d"
proof -
  note rel = ready_facts(1) [OF r] and inv = ready_facts(5) [OF r]
  note f = flush_rel [OF rel L(1) ready_facts(2-4) [OF r] fl]
  have "run_inv L c d'" using f by (intro run_inv_flush [OF inv L(2) rel _ fl]) simp_all
  then have "run_inv L (Suc c) d'" by (rule run_inv_mono) simp
  then show ?thesis using f r by (simp add: ready_def flush_frame_def)
qed

lemma exec_step:
  assumes r: "ready L invar room stored n (Suc k) c d disk" and L: "digest32 L" "json_round_trips L"
    and b: "op_in_range (bm_device_size (bd_map d)) op" and ex: "dev_exec L B op d = (x, d')"
  shows "\<exists>disk'. disk_step op x disk disk' \<and> ready L invar room stored n k (Suc c) d' disk' \<and> bd_map d' = bd_map d"
proof (cases op)
  case (ReadAt offset len)
  then show ?thesis using read_step [OF r L(1), of offset len x d'] b ex by (auto simp: op_in_range_def dev_exec_def)
next
  case (WriteAt offset bs)
  obtain y d1 where wr: "write_at L B offset bs d = (y, d1)" by force
  then have "x = map_sum id (\<lambda>_. []) y" "d' = d1" using ex WriteAt by (cases y; simp add: dev_exec_def bnd_apply)+
  then show ?thesis using write_step [OF r L(1) _ wr] b WriteAt by (simp add: op_in_range_def)
next
  case FlushOp
  obtain y d1 where fl: "flush L B d = (y, d1)" by force
  then have "d' = d1" using ex FlushOp by (cases y) (simp_all add: dev_exec_def bnd_apply)
  then show ?thesis using flush_step [OF r L fl] FlushOp by (auto intro: disk_step.intros)
next
  case Restart
  have rel: "dev_rel L invar stored d disk" and inv: "run_inv L c d" using r by (simp_all add: ready_def)
  from restart_rel [OF rel inv] obtain d2 where sd: "serve_device L (bm_device_size (bd_map d)) (bm_logical_sector_size (bd_map d))
      (bm_object_size (bd_map d)) (bd_committer d) (bd_backend d) (bd_store d) = Inr d2"
    and d2: "dev_rel L invar stored d2 disk" "run_inv L c d2" "bd_backend d2 = bd_backend d"
      "bd_committer d2 = bd_committer d" "bd_map d2 = bd_map d" by blast
  have "x = Inr []" "d' = d2" using ex Restart sd by (simp_all add: dev_exec_def)
  moreover have "ready L invar room stored n (Suc k) c d2 disk" using r d2 by (simp add: ready_def)
  ultimately show ?thesis using ready_mono d2(5) Restart by (auto intro: disk_step.intros)
qed

lemma run_refines:
  assumes "ready L invar room stored n (length ops + k) c d disk" and L: "digest32 L" "json_round_trips L"
    and "\<forall>op\<in>set ops. op_in_range (bm_device_size (bd_map d)) op" and "dev_run L B ops d = (rs, d')"
  shows "\<exists>disk'. disk_run ops rs disk disk' \<and> ready L invar room stored n k (length ops + c) d' disk'"
  using assms(1,4,5)
proof (induction ops arbitrary: c d disk rs)
  case Nil
  then show ?case by (auto intro: disk_run.intros)
next
  case (Cons op ops)
  obtain x d1 where ex: "dev_exec L B op d = (x, d1)" by force
  obtain ss where run: "dev_run L B ops d1 = (ss, d')" "rs = x # ss"
    using Cons.prems(3) ex by (auto split: prod.splits)
  have r: "ready L invar room stored n (Suc (length ops + k)) c d disk" using Cons.prems(1) by simp
  from exec_step [OF r L _ ex] Cons.prems(2) obtain disk1
    where s: "disk_step op x disk disk1" "ready L invar room stored n (length ops + k) (Suc c) d1 disk1"
      "bd_map d1 = bd_map d" by auto
  from Cons.IH [OF s(2) _ run(1)] Cons.prems(2) obtain disk' where
    "disk_run ops ss disk1 disk'" "ready L invar room stored n k (length ops + Suc c) d' disk'" by (auto simp: s(3))
  then show ?case using s(1) run(2) by (auto intro: disk_run.intros)
qed

end

end
