(* ===== verification/DeviceTheorems.thy ===== *)
theory DeviceTheorems
  imports Device
begin

text \<open>
  The theorems about the block device as a whole, each over any backend that satisfies the
  contract, with witnesses on a formatted device over the in-memory backend.
\<close>

section \<open>A formatted device\<close>

lemma slice_replicate: "slice a b (replicate n x) = replicate (min (b - a) (n - a)) x"
  by (simp add: slice_def min_def)

lemma initial_rel:
  assumes n: "unat (bm_device_size bmap) \<le> unat n * unat (bm_object_size bmap)" "0 < unat (bm_object_size bmap)"
    and s: "ls_dirty_objects s = []" "ls_wal_entries s = []" "ls_cache_entries s = []" and b: "invar b"
    and d: "bd_map d = bmap" "bd_backend d = b" "bd_store d = s" "bd_manifest d = manifest_empty uuid osz n"
  shows "dev_rel L invar stored d (replicate (unat n * unat (bm_object_size bmap)) 0)"
proof -
  let ?N = "unat n" and ?n = "unat (bm_object_size bmap)"
  have objs: "m_objects (bd_manifest d) = map (\<lambda>i. zero_object (of_nat i)) [0..<?N]" "m_generation (bd_manifest d) = 0"
    by (simp_all add: d manifest_empty_def)
  have len: "length (m_objects (bd_manifest d)) = ?N" by (simp add: objs)
  have sz: "device_object_size d = ?n" by (simp add: device_object_size_def d)
  have "?N < 2 ^ 64" using unsigned_less [of n, where ?'a = nat] by simp
  then have "shape_ok d (replicate (?N * ?n) 0)"
    using n unfolding shape_ok_def len sz d by (simp add: manifest_empty_def zero_object_def comp_def)
  moreover have "store_ok s"
    by (simp add: store_ok_def wal_ok_def wal_bounded_def wal_separated_def wal_ids_ok_def dirty_keys_ok_def cache_rows_ok_def s)
  moreover have "objects_ok L (stored b) d (replicate (?N * ?n) 0)"
    unfolding objects_ok_def len sz
  proof (intro conjI allI impI)
    fix i x assume "dirty_object i (bd_store d) = Some x"
    then show "unat i < ?N" "dirty_ok L (bm_object_size (bd_map d)) (bd_store d) x (block_of ?n (unat i) (replicate (?N * ?n) 0))"
      by (simp_all add: d dirty_object_def s)
  next
    fix i assume i: "i < ?N"
    have x: "m_objects (bd_manifest d) ! i = zero_object (of_nat i)" using i by (simp add: objs)
    have "i * ?n + ?n \<le> ?N * ?n" using i mult_le_mono1 [of "Suc i" ?N ?n] by simp
    then have "block_of ?n i (replicate (?N * ?n) 0) = (replicate ?n 0 :: bytes)"
      by (simp add: block_of_def slice_replicate)
    then show "remote_ok L (bm_object_size (bd_map d)) (stored b) (m_objects (bd_manifest d) ! i) (block_of ?n i (replicate (?N * ?n) 0))"
      "cached_ok L (bm_object_size (bd_map d)) (bd_store d) (m_objects (bd_manifest d) ! i) (block_of ?n i (replicate (?N * ?n) 0))"
      "mo_generation (m_objects (bd_manifest d) ! i) \<le> m_generation (bd_manifest d)"
      by (simp_all add: x remote_ok_def cached_ok_def zero_object_def d(1))
  next
    assume "ls_dirty_objects (bd_store d) \<noteq> []"
    then show "m_generation (bd_manifest d) \<le> max_generation (dirty_objects (bd_store d))" by (simp add: d s)
  qed
  ultimately show ?thesis using b by (simp add: dev_rel_def d)
qed

lemma formatted_store:
  assumes f: "format_local L uuid force cfg files None = Inr (m, s)" and J: "json_round_trips L"
  shows "\<exists>n. config_object_count cfg = Inr n \<and> m = manifest_empty uuid (cfg_object_size cfg) n \<and> validate cfg = Inr () \<and>
    load_manifest L s = Inr (Some m) \<and> ls_dirty_objects s = [] \<and> ls_wal_entries s = [] \<and> ls_cache_entries s = []"
proof -
  obtain n where v: "validate cfg = Inr ()" and n: "config_object_count cfg = Inr n"
    using f by (auto simp: format_local_def rbind_Inr_iff Let_def)
  let ?m = "manifest_empty uuid (cfg_object_size cfg) n"
  obtain y s1 where rs: "replace_from_manifest L ?m (store_open (cfg_cache_dir cfg) files) = (y, s1)" by force
  then have m: "m = ?m" and r: "replace_from_manifest L m (store_open (cfg_cache_dir cfg) files) = (Inr (), s)"
    using f by (cases y; simp add: format_local_def v n Let_def)+
  obtain json row where "json_manifest L m = Inr json" and
    s: "ls_manifest_state s = Some row" "mr_manifest_json row = json" "ls_dirty_objects s = []" "ls_wal_entries s = []" "ls_cache_entries s = []"
    using replace_from_manifest_cases [OF r] by (auto simp: tick_def store_open_def)
  moreover obtain bs where "json_manifest L m = Inr bs" "unjson_manifest L bs = Inr m"
    using J unfolding json_round_trips_def by blast
  ultimately have "load_manifest L s = Inr (Some m)" by (simp add: load_manifest_def)
  with v n m s show ?thesis by blast
qed

lemma formatted_device:
  assumes f: "format_local L uuid force cfg files None = Inr (m, s)" and J: "json_round_trips L" and b: "invar b"
    and sv: "serve_device L (cfg_device_size cfg) (cfg_logical_sector_size cfg) (cfg_object_size cfg) com b s = Inr d"
  shows "dev_rel L invar stored d (replicate (unat (m_object_count m) * unat (cfg_object_size cfg)) 0) \<and>
    run_inv L 0 d \<and> bd_backend d = b \<and> bd_committer d = com \<and> bd_manifest d = m \<and> bd_store d = s \<and>
    bd_map d = \<lparr>bm_device_size = cfg_device_size cfg, bm_logical_sector_size = cfg_logical_sector_size cfg,
         bm_object_size = cfg_object_size cfg\<rparr>"
proof -
  obtain n where n: "config_object_count cfg = Inr n" and m: "m = manifest_empty uuid (cfg_object_size cfg) n"
    and v: "validate cfg = Inr ()" and ld: "load_manifest L s = Inr (Some m)"
    and s: "ls_dirty_objects s = []" "ls_wal_entries s = []" "ls_cache_entries s = []"
    using formatted_store [OF f J] by blast
  let ?map = "\<lparr>bm_device_size = cfg_device_size cfg, bm_logical_sector_size = cfg_logical_sector_size cfg,
         bm_object_size = cfg_object_size cfg\<rparr>"
  let ?new = "device_new ?map b s m"
  have d: "d = (case com of None \<Rightarrow> ?new | Some c \<Rightarrow> with_committer c ?new)"
    using sv by (simp add: serve_device_def ld valid_block_map [OF v] Let_def)
  have sel: "bd_map d = ?map" "bd_store d = s" "bd_backend d = b" "bd_manifest d = m" "bd_committer d = com"
    "bd_max_dirty_objects d = 4096"
    by (auto simp: d device_new_def with_committer_def split: option.split)
  have cover: "unat (cfg_device_size cfg) \<le> unat n * unat (cfg_object_size cfg)" "0 < unat (cfg_object_size cfg)"
    using valid_object_count [OF v] n v by (auto simp: validate_iff)
  have oc: "m_object_count m = n" "m_generation m = 0" by (simp_all add: m manifest_empty_def)
  have "dev_rel L invar stored d (replicate (unat n * unat (bm_object_size ?map)) 0)"
    using cover sel m b s by (intro initial_rel [where s = s and b = b and invar = invar]) simp_all
  moreover have "mo_generation (m_objects m ! j) = 0" if "j < length (m_objects m)" for j
    using that by (simp add: m manifest_empty_def zero_object_def)
  then have "agrees d m" by (simp add: agrees_def sel oc)
  then have "run_inv L 0 d"
    using ld valid_block_map [OF v] by (simp add: run_inv_def persisted_def gens_below_def map_ok_def sel s oc)
  ultimately show ?thesis using sel oc by simp
qed

lemma format_ready:
  assumes "format_local L uuid force cfg files None = Inr (m, s)" "json_round_trips L" "invar b"
    "serve_device L (cfg_device_size cfg) (cfg_logical_sector_size cfg) (cfg_object_size cfg) com b s = Inr d"
    "commits_safely invar room stored n com" "room b (k * (4096 + n))" "k < 2 ^ 64 - 1"
  shows "ready L invar room stored n k 0 d (replicate (unat (m_object_count m) * unat (cfg_object_size cfg)) 0)"
  using formatted_device [where invar = invar and stored = stored, OF assms(1-4)] assms(5-7) by (simp add: ready_def)

text \<open>A device whose every object is uploaded needs nothing of the local store.\<close>

lemma recover_rel:
  assumes rel: "dev_rel L invar0 stored d disk"
    and up: "\<And>i. i < length (m_objects (bd_manifest d)) \<Longrightarrow> uploaded L (stored (bd_backend d)) d disk i"
    and d': "bd_map d' = bd_map d" "bd_manifest d' = bd_manifest d" "bd_store d' = store_open dir Map.empty"
    and b': "invar (bd_backend d')" "stored (bd_backend d) \<subseteq>\<^sub>m stored (bd_backend d')"
  shows "dev_rel L invar stored d' disk"
proof -
  have sz: "device_object_size d' = device_object_size d" by (simp add: device_object_size_def d')
  have "shape_ok d' disk" using rel by (simp add: dev_rel_def shape_ok_def sz d')
  moreover have "objects_ok L (stored (bd_backend d')) d' disk"
    using up by (auto simp: objects_ok_def uploaded_def sz d' store_open_def dirty_object_def cached_ok_def intro: remote_ok_mono [OF _ b'(2)])
  moreover have "store_ok (store_open dir Map.empty)"
    by (simp add: store_ok_def wal_ok_def wal_bounded_def wal_separated_def wal_ids_ok_def dirty_keys_ok_def
        cache_rows_ok_def store_open_def)
  ultimately show ?thesis using b'(1) by (simp add: dev_rel_def d')
qed

section \<open>The toy device\<close>

definition toy_store :: LocalStore where
  "toy_store = snd (replace_from_manifest (toy_libs True) (manifest_empty 7 131072 512) (store_open ''c'' Map.empty))"

definition toy_device :: "MemoryBackend BlockDevice" where
  "toy_device = device_new \<lparr>bm_device_size = 67108864, bm_logical_sector_size = 4096, bm_object_size = 131072\<rparr>
     (memory_new 5) toy_store (manifest_empty 7 131072 512)"

lemma toy_format: "format_local (toy_libs True) 7 False toy_config Map.empty None = Inr (manifest_empty 7 131072 512, toy_store)"
proof -
  have v: "validate toy_config = Inr ()" by code_simp
  have n: "config_object_count toy_config = Inr 512" by code_simp
  have "distinct (map mo_object_id (m_objects (manifest_empty 7 131072 512)))"
    by (simp add: manifest_empty_def zero_object_def comp_def map_of_nat_upt_distinct)
  then obtain s' where r: "replace_from_manifest (toy_libs True) (manifest_empty 7 131072 512) (store_open ''c'' Map.empty) = (Inr (), s')"
    using replace_from_manifest_ok [of "manifest_empty 7 131072 512" "toy_libs True"] by (auto simp: toy_libs_sel)
  have c: "cfg_cache_dir toy_config = ''c''" "cfg_object_size toy_config = 131072" by (simp_all add: toy_config_def)
  show ?thesis by (simp add: format_local_def v n c r toy_store_def)
qed

lemma toy_serve:
  "serve_device (toy_libs True) (cfg_device_size toy_config) (cfg_logical_sector_size toy_config)
     (cfg_object_size toy_config) None (memory_new 5) toy_store = Inr toy_device"
proof -
  have v: "validate toy_config = Inr ()" by code_simp
  have "load_manifest (toy_libs True) toy_store = Inr (Some (manifest_empty 7 131072 512))"
    using formatted_store [OF toy_format] by auto
  moreover have "block_map_new 67108864 4096 131072 =
      Inr \<lparr>bm_device_size = 67108864, bm_logical_sector_size = 4096, bm_object_size = 131072\<rparr>"
    using valid_block_map [OF v] by (simp add: toy_config_def)
  ultimately show ?thesis by (simp add: serve_device_def toy_config_def toy_device_def Let_def)
qed

lemma toy_ready:
  "k * 4096 < 2 ^ 31 - 1 \<Longrightarrow>
   ready (toy_libs True) memory_invar memory_room mb_messages 0 k 0 toy_device (replicate (512 * 131072) 0)"
  using format_ready [OF toy_format _ _ toy_serve, where invar = memory_invar and room = memory_room and stored = mb_messages and n = 0 and k = k]
  by (simp add: toy_config_def manifest_empty_def)

lemma toy_sel:
  "bd_map toy_device = \<lparr>bm_device_size = 67108864, bm_logical_sector_size = 4096, bm_object_size = 131072\<rparr>"
  "bd_manifest toy_device = manifest_empty 7 131072 512" "bd_backend toy_device = memory_new 5"
  "bd_committer toy_device = None" "m_generation (manifest_empty 7 131072 512) = 0"
  "bd_max_dirty_objects toy_device = 4096" "ls_dirty_objects (bd_store toy_device) = []"
  "ls_wal_entries (bd_store toy_device) = []" "ls_cache_entries (bd_store toy_device) = []"
  using formatted_store [OF toy_format] by (auto simp: toy_device_def device_new_def manifest_empty_def)

lemma toy_rel: "dev_rel L memory_invar mb_messages toy_device (replicate (512 * 131072) 0)"
  using initial_rel [of "bd_map toy_device" 512 "bd_store toy_device" memory_invar "memory_new 5" toy_device 7 131072 L mb_messages]
  by (simp add: toy_sel)

text \<open>The toy device after a write across the boundary of its first two objects.\<close>

lemma toy_written:
  assumes L: "digest32 L"
  shows "\<exists>d. write_at L (memory_backend L) 131070 [1, 2, 3] toy_device = (Inr (), d) \<and>
    dev_rel L memory_invar mb_messages d (splice_at 131070 [1, 2, 3] (replicate (512 * 131072) 0)) \<and>
    same_config toy_device d \<and> ls_dirty_objects (bd_store d) \<noteq> [] \<and>
    memory_room (bd_backend d) (length (dirty_objects (bd_store d)) + 0)"
proof -
  let ?B = "memory_backend L" and ?disk = "splice_at 131070 [1, 2, 3] (replicate (512 * 131072) 0) :: bytes"
  have sz: "device_object_size toy_device = 131072" by (simp add: device_object_size_def toy_sel)
  obtain d where w: "write_at L ?B 131070 [1, 2, 3] toy_device = (Inr (), d)"
    using mem_live.write_at_succeeds [OF toy_rel L, of 131070 "[1, 2, 3]" 2] by (auto simp: toy_sel sz stats_def)
  have wr: "wrote L memory_invar memory_room mb_messages toy_device d ?disk"
    using mem.write_at_rel [OF toy_rel L _ _ w] by (auto simp: toy_sel)
  then have rel: "dev_rel L memory_invar mb_messages d ?disk" and cf: "same_config toy_device d"
    and rm: "memory_room (bd_backend d) = memory_room (memory_new 5)"
    by (simp_all add: wrote_def toy_sel)
  have "grown 1 toy_device d"
    using write_at_grown [of 0 toy_device L ?B 131070 "[1, 2, 3]"] w by (simp add: gens_below_def toy_sel)
  then have "length (dirty_objects (bd_store d)) \<le> 4096"
    using cf by (simp add: grown_def dirty_objects_def same_config_def toy_sel)
  then have "memory_room (bd_backend d) (length (dirty_objects (bd_store d)) + 0)" by (simp add: rm)
  moreover have "ls_dirty_objects (bd_store d) \<noteq> []"
  proof
    assume "ls_dirty_objects (bd_store d) = []"
    then have none: "dirty_object (of_nat 0) (bd_store d) = None" by (simp add: dirty_object_def)
    have sel: "bd_manifest d = manifest_empty 7 131072 512" "bd_map d = bd_map toy_device" "device_object_size d = 131072"
      using cf sz by (simp_all add: same_config_def toy_sel device_object_size_def)
    have len: "length (m_objects (manifest_empty 7 131072 512)) = 512" by (simp add: manifest_empty_def)
    then have z: "m_objects (manifest_empty 7 131072 512) ! 0 = zero_object 0" by (simp add: manifest_empty_def)
    have "remote_ok L (bm_object_size (bd_map d)) (mb_messages (bd_backend d)) (m_objects (bd_manifest d) ! 0) (block_of (device_object_size d) 0 ?disk)"
      using rel none len unfolding dev_rel_def objects_ok_def sel by auto
    then have "block_of 131072 0 ?disk = replicate 131072 0"
      unfolding sel z by (simp add: remote_ok_def zero_object_def toy_sel)
    then have "block_of 131072 0 ?disk ! 131070 = 0" by simp
    moreover have "block_of 131072 0 ?disk ! 131070 = ?disk ! (0 * 131072 + 131070)" by (rule nth_block_of) simp_all
    moreover have "?disk ! 131070 = 1" by (subst nth_splice_at) simp_all
    ultimately show False by simp
  qed
  ultimately show ?thesis using w rel cf by blast
qed

section \<open>Properties of the device\<close>

text \<open>
  C1. The block device is a disk. Starting from a freshly formatted store, any sequence of reads,
  writes, flushes and restarts (the process is killed between two operations and a new device is
  built from the local store over the same backend) answers as an abstract disk of zero bytes would: a successful read
  returns the bytes of the disk, a successful write replaces exactly its bytes, a failed write
  leaves at most a prefix of them, a flush and a restart change nothing, whether they succeed or not.
\<close>

theorem device_refines_disk:
  assumes "remote_backend B invar room stored" and "digest32 L" "json_round_trips L"
    and "format_local L uuid force cfg files None = Inr (m, s)" and "invar b"
    and "serve_device L (cfg_device_size cfg) (cfg_logical_sector_size cfg) (cfg_object_size cfg) com b s = Inr d"
    and "commits_safely invar room stored n com" and "room b (length ops * (4096 + n))" and "length ops < 2 ^ 64 - 1"
    and "\<forall>op\<in>set ops. op_in_range (cfg_device_size cfg) op"
  shows "\<exists>disk'. disk_run ops (fst (dev_run L B ops d)) (replicate (unat (m_object_count m) * unat (cfg_object_size cfg)) 0) disk' \<and>
    dev_rel L invar stored (snd (dev_run L B ops d)) disk'"
proof -
  let ?disk = "replicate (unat (m_object_count m) * unat (cfg_object_size cfg)) 0"
  have "ready L invar room stored n (length ops + 0) 0 d ?disk"
    using assms by (intro format_ready [where s = s and b = b]) simp_all
  moreover have "bm_device_size (bd_map d) = cfg_device_size cfg"
    using formatted_device [where invar = invar and stored = stored, OF assms(4,3,5,6)] by simp
  ultimately show ?thesis
    using remote_backend.run_refines [OF assms(1) _ assms(2,3), of n ops 0 0 d ?disk "fst (dev_run L B ops d)" "snd (dev_run L B ops d)"] assms(10)
    by (auto simp: ready_def)
qed

theorem device_refines_disk_witness:
  "\<exists>disk'. disk_run [WriteAt 131070 [1, 2, 3], Restart, ReadAt 131071 2, FlushOp]
      (fst (dev_run (toy_libs True) (memory_backend (toy_libs True)) [WriteAt 131070 [1, 2, 3], Restart, ReadAt 131071 2, FlushOp] toy_device))
      (replicate (unat (512 :: u64) * unat (131072 :: u32)) 0) disk'"
  using device_refines_disk [OF mem.remote_backend_axioms [of "toy_libs True"] _ _ toy_format _ toy_serve,
      where n = 0 and ops = "[WriteAt 131070 [1, 2, 3], Restart, ReadAt 131071 2, FlushOp]"]
  by (auto simp: toy_config_def op_in_range_def manifest_empty_def)

text \<open>
  C8. A read inside the device returns exactly the bytes of the disk when the backend is available,
  through dirty files, cached files, holes and remote objects alike, and changes nothing but cache
  rows, cache files and counters.
\<close>

theorem read_returns_disk:
  assumes "readable_backend B invar room stored L" "digest32 L" "dev_rel L invar stored d disk"
    and "unat offset + len \<le> unat (bm_device_size (bd_map d))"
  shows "\<exists>d'. read_at L B offset len d = (Inr (slice (unat offset) (unat offset + len) disk), d') \<and>
    dev_rel L invar stored d' disk \<and> same_core d d'"
  using readable_backend.read_at_live [OF assms(1,3,2,4)] by (auto simp: kept_def)

theorem read_returns_disk_witness:
  "\<exists>d'. read_at (toy_libs True) (memory_backend (toy_libs True)) 131071 2 toy_device = (Inr (replicate 2 0), d')"
  using read_returns_disk [OF mem_live.readable_backend_axioms [of "toy_libs True" "toy_libs True"] _ toy_rel, of 131071 2]
  by (auto simp: toy_sel slice_replicate)

text \<open>
  C7. A write inside the device that succeeds replaces exactly the written bytes of the disk and
  keeps every other byte, the in-memory manifest and what the backend holds.
\<close>

theorem write_replaces_bytes:
  assumes "remote_backend B invar room stored" "digest32 L" "dev_rel L invar stored d disk"
    and "unat (m_generation (bd_manifest d)) + 1 < 2 ^ 64"
    and "unat offset + length bs \<le> unat (bm_device_size (bd_map d))"
    and "write_at L B offset bs d = (Inr (), d')"
  shows "dev_rel L invar stored d' (splice_at (unat offset) bs disk) \<and>
    bd_manifest d' = bd_manifest d \<and> stored (bd_backend d') = stored (bd_backend d)"
  using remote_backend.write_at_rel [OF assms(1,3,2,4-6)] by (auto simp: wrote_def same_config_def)

theorem write_replaces_bytes_witness:
  "\<exists>d. write_at (toy_libs True) (memory_backend (toy_libs True)) 131070 [1, 2, 3] toy_device = (Inr (), d) \<and>
     dev_rel (toy_libs True) memory_invar mb_messages d (splice_at 131070 [1, 2, 3] (replicate (512 * 131072) 0))"
proof -
  obtain d where w: "write_at (toy_libs True) (memory_backend (toy_libs True)) 131070 [1, 2, 3] toy_device = (Inr (), d)"
    using toy_written [of "toy_libs True"] by auto
  from write_replaces_bytes [OF mem.remote_backend_axioms [of "toy_libs True"] _ toy_rel _ _ w] w show ?thesis
    by (auto simp: toy_sel)
qed

text \<open>
  When the backend is available, the only error a write inside the device can end with is the
  back-pressure limit, and only when the dirty set is full; the bytes written before it form a
  prefix of the data, the rest of the disk is unchanged.
\<close>

theorem write_fails_only_when_full:
  assumes "readable_backend B invar room stored L" "digest32 L" "dev_rel L invar stored d disk"
    and "unat (m_generation (bd_manifest d)) + 1 < 2 ^ 64"
    and "unat offset + length bs \<le> unat (bm_device_size (bd_map d))"
    and "write_at L B offset bs d = (Inl e, d')"
  shows "e = Anyhow ''dirty object backpressure limit reached'' \<and>
    bd_max_dirty_objects d' \<le> st_dirty_objects (stats (bd_store d')) \<and>
    (\<exists>j \<le> length bs. dev_rel L invar stored d' (splice_at (unat offset) (take j bs) disk))"
  using readable_backend.write_at_live [OF assms(1,3,2,4-6)]
    remote_backend.write_at_rel [OF readable_backend.axioms(1) [OF assms(1)] assms(3,2,4-6)]
  by (auto simp: wrote_def)

theorem write_fails_only_when_full_witness:
  "\<exists>e d'. write_at (toy_libs True) (memory_backend (toy_libs True)) 0 (replicate 131072 1) (toy_device\<lparr>bd_max_dirty_objects := 0\<rparr>) = (Inl e, d') \<and>
     e = Anyhow ''dirty object backpressure limit reached''"
proof -
  let ?d = "toy_device\<lparr>bd_max_dirty_objects := 0\<rparr>"
  have rel: "dev_rel (toy_libs True) memory_invar mb_messages ?d (replicate (512 * 131072) 0)"
    using toy_rel [of "toy_libs True"] by (simp add: dev_rel_def shape_ok_def objects_ok_def device_object_size_def)
  have w: "write_at (toy_libs True) (memory_backend (toy_libs True)) 0 (replicate 131072 1) ?d =
      (Inl (Anyhow ''dirty object backpressure limit reached''), ?d)"
    by (simp add: write_at_def toy_sel add_w_def write_loop.simps locate_def write_dirty_object_def stats_def)
  from write_fails_only_when_full [OF mem_live.readable_backend_axioms [of "toy_libs True" "toy_libs True"] _ rel _ _ w] w
  show ?thesis by (simp add: toy_sel)
qed

text \<open>
  C4. A flush never loses data: whatever upload, commit or store step fails, the disk is the same
  as before and every dirty object is still recorded as dirty, so the flush can be repeated.
\<close>

theorem failed_flush_keeps_data:
  assumes "remote_backend B invar room stored" "digest32 L" "dev_rel L invar stored d disk"
    and "unat (m_generation (bd_manifest d)) + 1 < 2 ^ 64"
    and "room (bd_backend d) (length (dirty_objects (bd_store d)) + n)"
    and "commits_safely invar room stored n (bd_committer d)" and "flush L B d = (Inl e, d')"
  shows "dev_rel L invar stored d' disk \<and> ls_dirty_objects (bd_store d') = ls_dirty_objects (bd_store d) \<and>
    stored (bd_backend d) \<subseteq>\<^sub>m stored (bd_backend d')"
  using remote_backend.flush_rel [OF assms(1,3,2,4) _ assms(6,7), of 0] assms(5) by simp

text \<open>A JSON writer that fails makes the flush fail after every upload.\<close>

definition failing_libs :: libs where
  "failing_libs = (toy_libs True)\<lparr>json_manifest := (\<lambda>_. Inl JsonError)\<rparr>"

theorem failed_flush_keeps_data_witness:
  "\<exists>d e d'. write_at failing_libs (memory_backend failing_libs) 131070 [1, 2, 3] toy_device = (Inr (), d) \<and>
     flush failing_libs (memory_backend failing_libs) d = (Inl e, d') \<and>
     dev_rel failing_libs memory_invar mb_messages d' (splice_at 131070 [1, 2, 3] (replicate (512 * 131072) 0)) \<and>
     ls_dirty_objects (bd_store d') \<noteq> []"
proof -
  have L: "digest32 failing_libs" using toy_libs_ok(1) [of True] by (simp add: digest32_def failing_libs_def)
  let ?B = "memory_backend failing_libs"
  obtain d where w: "write_at failing_libs ?B 131070 [1, 2, 3] toy_device = (Inr (), d)"
    and rel: "dev_rel failing_libs memory_invar mb_messages d (splice_at 131070 [1, 2, 3] (replicate (512 * 131072) 0))"
    and cf: "same_config toy_device d" and ne: "ls_dirty_objects (bd_store d) \<noteq> []"
    and rm: "memory_room (bd_backend d) (length (dirty_objects (bd_store d)) + 0)"
    using toy_written [OF L] by blast
  have g: "unat (m_generation (bd_manifest d)) + 1 < 2 ^ 64" and c: "commits_safely memory_invar memory_room mb_messages 0 (bd_committer d)"
    using cf by (simp_all add: same_config_def toy_sel)
  obtain y d' where fl: "flush failing_libs ?B d = (y, d')" by force
  from mem.flush_rel [OF rel L g _ c fl, of 0] rm ne have "\<exists>e. y = Inl e"
    by (cases y) (auto simp: manifest_saved_def failing_libs_def)
  then obtain e where e: "flush failing_libs ?B d = (Inl e, d')" using fl by auto
  from failed_flush_keeps_data [OF mem.remote_backend_axioms L rel g rm c e] w e ne show ?thesis by auto
qed

text \<open>
  C3. After a successful flush the backend and the committed manifest alone hold the disk: a new
  device with an empty cache directory and an empty database, given that manifest, reads every
  byte of the disk.
\<close>

theorem flush_survives_cache_loss:
  assumes "readable_backend B invar room stored L" "digest32 L" "dev_rel L invar stored d disk"
    and "unat (m_generation (bd_manifest d)) + 1 < 2 ^ 64"
    and "room (bd_backend d) (length (dirty_objects (bd_store d)) + n)"
    and "commits_safely invar room stored n (bd_committer d)" and "flush L B d = (Inr (), d1)"
    and "unat offset + len \<le> unat (bm_device_size (bd_map d))"
  shows "\<exists>d2. read_at L B offset len (device_new (bd_map d) (bd_backend d1) (store_open dir Map.empty) (bd_manifest d1)) =
    (Inr (slice (unat offset) (unat offset + len) disk), d2)"
proof -
  note rb = readable_backend.axioms(1) [OF assms(1)]
  have f: "dev_rel L invar stored d1 disk" "durable L stored d1 disk" "bd_map d1 = bd_map d"
    using remote_backend.flush_rel [OF rb assms(3,2,4) _ assms(6,7), of 0] assms(5) by (simp_all add: flush_frame_def)
  let ?d = "device_new (bd_map d) (bd_backend d1) (store_open dir Map.empty) (bd_manifest d1)"
  have "dev_rel L invar stored ?d disk"
    using f(1,2) by (intro recover_rel [OF f(1)]) (simp_all add: device_new_def f(3) durable_def dev_rel_def)
  moreover have "unat offset + len \<le> unat (bm_device_size (bd_map ?d))" using assms(8) by (simp add: device_new_def)
  ultimately show ?thesis using readable_backend.read_at_live [OF assms(1) _ assms(2)] by blast
qed

theorem flush_survives_cache_loss_witness:
  "\<exists>d d1 d2. write_at (toy_libs True) (memory_backend (toy_libs True)) 131070 [1, 2, 3] toy_device = (Inr (), d) \<and>
     flush (toy_libs True) (memory_backend (toy_libs True)) d = (Inr (), d1) \<and>
     read_at (toy_libs True) (memory_backend (toy_libs True)) 131070 3
       (device_new (bd_map d) (bd_backend d1) (store_open ''elsewhere'' Map.empty) (bd_manifest d1)) = (Inr [1, 2, 3], d2)"
proof -
  let ?L = "toy_libs True" and ?disk = "splice_at 131070 [1, 2, 3] (replicate (512 * 131072) 0) :: bytes"
  let ?B = "memory_backend (toy_libs True)"
  obtain d where w: "write_at ?L ?B 131070 [1, 2, 3] toy_device = (Inr (), d)"
    and rel: "dev_rel ?L memory_invar mb_messages d ?disk" and cf: "same_config toy_device d"
    and rm: "memory_room (bd_backend d) (length (dirty_objects (bd_store d)) + 0)"
    using toy_written [of ?L] by auto
  have g: "unat (m_generation (bd_manifest d)) + 1 < 2 ^ 64" and c: "bd_committer d = None"
    and m: "unat (bm_device_size (bd_map d)) = 67108864" using cf by (simp_all add: same_config_def toy_sel)
  obtain d1 where fl: "flush ?L ?B d = (Inr (), d1)"
    using mem_live.flush_live [OF rel _ _ g, of 0 0] rm c by auto
  have "slice 131070 131073 ?disk = [1, 2, 3]" by (simp add: slice_def splice_at_def)
  then show ?thesis
    using flush_survives_cache_loss [OF mem_live.readable_backend_axioms [of ?L ?L] _ rel g rm _ fl, of 131070 3 "''elsewhere''"] w fl c m by auto
qed




text \<open>
  C25. A flush succeeds when the backend and the committer are available, the manifest can be
  serialized and there is room for the uploads; afterwards no object is dirty and the local store
  holds the manifest in memory if anything was dirty.
\<close>

theorem flush_succeeds:
  assumes "live_backend B invar room stored L" "digest32 L" "json_writes L" "dev_rel L invar stored d disk"
    and "unat (m_generation (bd_manifest d)) + 1 < 2 ^ 64"
    and "room (bd_backend d) (length (dirty_objects (bd_store d)) + n)"
    and "commits_safely invar room stored n (bd_committer d)" "commits_live invar room n (bd_committer d)"
  shows "\<exists>d'. flush L B d = (Inr (), d') \<and> dev_rel L invar stored d' disk \<and> ls_dirty_objects (bd_store d') = [] \<and>
    (ls_dirty_objects (bd_store d) \<noteq> [] \<longrightarrow> manifest_saved L d')"
proof -
  note rb = readable_backend.axioms(1) [OF live_backend.axioms(1) [OF assms(1)]]
  have rm: "room (bd_backend d) (length (dirty_objects (bd_store d)) + (n + 0))" using assms(6) by simp
  obtain d' where "flush L B d = (Inr (), d')"
    using live_backend.flush_live [OF assms(1,4,2,3,5) rm assms(7,8)] by blast
  with remote_backend.flush_rel [OF rb assms(4,2,5) rm assms(7) this] show ?thesis by (auto simp: durable_def)
qed

theorem flush_succeeds_witness:
  "\<exists>d d'. write_at (toy_libs True) (memory_backend (toy_libs True)) 131070 [1, 2, 3] toy_device = (Inr (), d) \<and>
     ls_dirty_objects (bd_store d) \<noteq> [] \<and>
     flush (toy_libs True) (memory_backend (toy_libs True)) d = (Inr (), d') \<and> ls_dirty_objects (bd_store d') = []"
proof -
  let ?L = "toy_libs True"
  obtain d where w: "write_at ?L (memory_backend ?L) 131070 [1, 2, 3] toy_device = (Inr (), d)"
    and rel: "dev_rel ?L memory_invar mb_messages d (splice_at 131070 [1, 2, 3] (replicate (512 * 131072) 0))"
    and cf: "same_config toy_device d" and ne: "ls_dirty_objects (bd_store d) \<noteq> []"
    and rm: "memory_room (bd_backend d) (length (dirty_objects (bd_store d)) + 0)"
    using toy_written [of ?L] by auto
  have "unat (m_generation (bd_manifest d)) + 1 < 2 ^ 64" "bd_committer d = None" using cf by (simp_all add: same_config_def toy_sel)
  then show ?thesis
    using flush_succeeds [OF mem_live.live_backend_axioms [of ?L ?L] _ _ rel _ rm] w ne by auto
qed

text \<open>
  C26. A write inside the device succeeds when the backend is available (a partial write of a clean
  object that is not cached fetches it), the generation counter is below its limit, and the dirty set
  has room for one more entry per object the write touches.
\<close>

theorem write_succeeds:
  assumes "readable_backend B invar room stored L" "digest32 L" "dev_rel L invar stored d disk"
    and "unat (m_generation (bd_manifest d)) + 1 < 2 ^ 64"
    and "unat offset + length bs \<le> unat (bm_device_size (bd_map d))"
    and "unat offset mod device_object_size d + length bs \<le> r * device_object_size d"
    and "st_dirty_objects (stats (bd_store d)) + r \<le> bd_max_dirty_objects d"
  shows "\<exists>d'. write_at L B offset bs d = (Inr (), d')"
  using readable_backend.write_at_succeeds [OF assms(1,3,2,4-7)] .

theorem write_succeeds_witness:
  "\<exists>d'. write_at (toy_libs True) (memory_backend (toy_libs True)) 131070 [1, 2, 3] toy_device = (Inr (), d')"
  using write_succeeds [OF mem_live.readable_backend_axioms [of "toy_libs True" "toy_libs True"] _ toy_rel, of 131070 "[1, 2, 3]" 2]
  by (auto simp: toy_sel device_object_size_def stats_def)

text \<open>
  C27. A request that reaches beyond the device is refused and changes nothing. If its end fits in 64
  bits, the error is that it is out of bounds; if it does not, a build with overflow checks panics,
  and a build without them still fails if the request starts beyond the device. The remaining case, a
  request that starts inside the device and whose end wraps around, is not covered: without
  overflow checks the addition in \<open>read_at\<close> and \<open>write_at\<close> passes the test for it.
\<close>

theorem out_of_bounds_refused:
  assumes "unat (bm_device_size (bd_map d)) < unat offset + len" "len < 2 ^ 64" "length bs = len"
    and "unat offset + len < 2 ^ 64 \<or> overflow_checks L \<or> bm_device_size (bd_map d) \<le> offset"
  shows "(unat offset + len < 2 ^ 64 \<longrightarrow>
      read_at L B offset len d = (Inl (Anyhow ''read out of bounds''), d) \<and>
      write_at L B offset bs d = (Inl (Anyhow ''write out of bounds''), d)) \<and>
    (2 ^ 64 \<le> unat offset + len \<and> overflow_checks L \<longrightarrow>
      read_at L B offset len d = (Inl (Panic ''attempt to add with overflow''), d) \<and>
      write_at L B offset bs d = (Inl (Panic ''attempt to add with overflow''), d)) \<and>
    (\<exists>e. read_at L B offset len d = (Inl e, d)) \<and> (\<exists>e. write_at L B offset bs d = (Inl e, d))"
proof (cases "unat offset + len < 2 ^ 64")
  case True
  have k: "unat (of_nat len :: u64) = len" using assms(2) by (intro unat_of_nat_len) simp
  have "add_w L offset (of_nat len) = Inr (offset + of_nat len)" using True by (intro add_w_Inr) (simp add: k)
  moreover have "\<not> offset + of_nat len \<le> bm_device_size (bd_map d)"
    using assms(1) True by (simp add: word_le_nat_alt unat_word_ariths k)
  ultimately show ?thesis using assms(3) True by (simp add: read_at_def write_at_def)
next
  case False
  have k: "unat (of_nat len :: u64) = len" using assms(2) by (intro unat_of_nat_len) simp
  have pos: "len \<noteq> 0" using False unsigned_less [of offset, where ?'a = nat] by auto
  have a: "add_w L offset (of_nat len) = overflow L ''attempt to add with overflow'' (offset + of_nat len)"
    using False by (simp add: add_w_def k)
  show ?thesis
  proof (cases "overflow_checks L")
    case True
    then show ?thesis using assms(3) False by (simp add: read_at_def write_at_def a overflow_def)
  next
    case wraps: False
    then have "locate (bd_map d) offset = Inl (Anyhow ''offset out of bounds'')"
      using assms(4) False by (simp add: locate_def ensure_def not_less)
    then have "read_loop L B len offset [] d = (Inl (Anyhow ''offset out of bounds''), d)"
      "write_loop L B bs len 0 offset d = (Inl (Anyhow ''offset out of bounds''), d)"
      using pos by (simp_all add: read_loop.simps [of L B len] write_loop.simps [of L B bs len])
    then show ?thesis using assms(3) False wraps by (simp add: read_at_def write_at_def a overflow_def bnd_apply ensure_def)
  qed
qed

theorem out_of_bounds_refused_witness:
  "read_at (toy_libs False) (memory_backend (toy_libs False)) 67108863 2 toy_device = (Inl (Anyhow ''read out of bounds''), toy_device) \<and>
   write_at (toy_libs True) (memory_backend (toy_libs True)) 18446744073709551615 [1, 2] toy_device =
     (Inl (Panic ''attempt to add with overflow''), toy_device) \<and>
   (\<exists>e. write_at (toy_libs False) (memory_backend (toy_libs False)) 18446744073709551615 [1, 2] toy_device = (Inl e, toy_device))"
  using out_of_bounds_refused [of toy_device 67108863 2 "[1, 2]"]
    out_of_bounds_refused [of toy_device 18446744073709551615 2 "[1, 2]" "toy_libs True"]
    out_of_bounds_refused [of toy_device 18446744073709551615 2 "[1, 2]" "toy_libs False"]
  by (simp add: toy_sel)

text \<open>
  Locating an offset splits it uniquely into an object of the device and an offset inside that
  object; an offset at or beyond the end of the device is refused.
\<close>

theorem locate_splits:
  assumes "bm_object_size m \<noteq> 0" "object_count m = Inr n"
  shows "if unat offset < unat (bm_device_size m)
    then \<exists>i k. locate m offset = Inr (i, k) \<and> k < unat (bm_object_size m) \<and> unat i < unat n \<and>
      unat i * unat (bm_object_size m) + k = unat offset
    else locate m offset = Inl (Anyhow ''offset out of bounds'')"
proof (cases "unat offset < unat (bm_device_size m)")
  case True
  let ?n = "unat (bm_object_size m)"
  have pos: "0 < ?n" using assms(1) by (simp add: unat_gt_0)
  have "(ucast (bm_object_size m) :: u64) \<noteq> 0"
    using pos unat_ucast_u32 [of "bm_object_size m"] by (metis less_irrefl unat_0)
  from div_ceil_spec [OF this assms(2) [unfolded object_count_def]]
  have "unat offset < unat n * ?n" using True by simp
  then have "unat offset div ?n < unat n" using pos by (simp add: div_less_iff_less_mult)
  then show ?thesis
    using True assms(1) pos
    by (simp add: locate_def word_less_nat_alt unat_div_distrib unat_mod_distrib)
next
  case False
  then show ?thesis by (simp add: locate_def word_less_nat_alt)
qed

theorem locate_splits_witness:
  "\<exists>i k. locate (bd_map toy_device) 131075 = Inr (i, k) \<and> unat i * 131072 + k = 131075"
proof -
  have "object_count (bd_map toy_device) = Inr 512" by (simp add: object_count_def div_ceil_def toy_sel)
  from locate_splits [OF _ this, of 131075] show ?thesis by (auto simp: toy_sel)
qed

text \<open>
  C15. Integrity against the storage service: whatever an arbitrary backend answers, the bytes that
  reading a clean object returns are a hole's zeroes, or the payload of an envelope that has the
  SHA-256 the manifest records and carries the object's id and generation.
\<close>

theorem read_object_integrity:
  assumes "read_object L B i d = (Inr bs, d')" "dirty_object i (bd_store d) = None"
  shows "\<exists>entry. find_object i (bd_manifest d) = Some entry \<and>
    (if mo_zero entry then bs = replicate (device_object_size d) 0
     else \<exists>enc e. mo_sha256 entry = Some (sha256_hex L enc) \<and> decode L enc i (mo_generation entry) = Inr e \<and>
       bs = pad_object (env_payload e) (device_object_size d))"
proof -
  obtain entry where f: "find_object i (bd_manifest d) = Some entry"
    using assms by (cases "find_object i (bd_manifest d)") (auto simp: read_object_def)
  have rc: "read_clean L B i entry d = (Inr bs, d')" using assms f by (simp add: read_object_def)
  show ?thesis
  proof (cases "mo_zero entry")
    case True
    then show ?thesis using rc f by (auto simp: read_clean_def)
  next
    case False
    obtain r where r: "mo_remote entry = Some r" using rc False by (cases "mo_remote entry") (auto simp: read_clean_def)
    obtain sha where sha: "mo_sha256 entry = Some sha" using rc False r by (cases "mo_sha256 entry") (auto simp: read_clean_def)
    obtain y s' where cache: "read_cache L i (mo_generation entry) sha (bd_store d) = (y, s')" by force
    have hit: "y = Inr (Some c) \<Longrightarrow> sha256_hex L c = sha" for c
      using read_cache_spec [OF cache] by (auto split: option.splits if_splits)
    have "\<exists>enc e. sha = sha256_hex L enc \<and> decode L enc i (mo_generation entry) = Inr e \<and>
       bs = pad_object (env_payload e) (device_object_size d)"
    proof (cases "\<exists>c. y = Inr (Some c)")
      case True
      then obtain c where y: "y = Inr (Some c)" ..
      then show ?thesis using rc False r sha cache hit [OF y]
        by (auto simp: read_clean_def bnd_apply on_store_def on_metrics_def split: sum.splits)
    next
      case no: False
      obtain z b' where fe: "fetch_object B r (bd_backend d) = (z, b')" by force
      show ?thesis
        using rc False r sha cache fe no
        by (cases y; cases z)
          (auto simp: read_clean_def read_remote_def bnd_apply on_store_def on_backend_def on_metrics_def write_cache_def
            Let_def ensure_def split: sum.splits if_splits option.splits)
    qed
    then show ?thesis using f False sha by auto
  qed
qed

theorem read_object_integrity_witness:
  "\<exists>bs d'. read_object (toy_libs True) (memory_backend (toy_libs True)) 3 toy_device = (Inr bs, d') \<and>
     (\<exists>entry. find_object 3 (manifest_empty 7 131072 512) = Some entry)"
proof -
  let ?L = "toy_libs True"
  have i3: "unat (3 :: u64) < length (m_objects (bd_manifest toy_device))" by (simp add: toy_sel manifest_empty_def)
  have "fst (read_object ?L (memory_backend ?L) 3 toy_device) \<noteq> Inl e" for e
    by (rule mem_live.read_object_live [OF toy_rel _ i3]) simp
  then obtain bs d' where rd: "read_object ?L (memory_backend ?L) 3 toy_device = (Inr bs, d')"
    by (cases "read_object ?L (memory_backend ?L) 3 toy_device"; cases "fst (read_object ?L (memory_backend ?L) 3 toy_device)") auto
  have "dirty_object 3 (bd_store toy_device) = None" by (simp add: dirty_object_def toy_sel)
  from read_object_integrity [OF rd this] rd show ?thesis by (auto simp: toy_sel)
qed

text \<open>
  C40. Formatting an existing store again with \<open>--force\<close> keeps its dirty rows and files: a device
  served from the new, empty manifest returns the old contents of every object that was dirty,
  not zeroes.
\<close>

theorem forced_format_keeps_dirty_data:
  assumes "digest32 L" "dev_rel L invar stored d disk" "dirty_object i (bd_store d) = Some x"
    and "format_local L uuid True cfg files (Some (bd_store d)) = Inr (m, s')"
  shows "fst (read_object L B i (device_new (bd_map d) b s' m)) = Inr (block_of (device_object_size d) (unat i) disk)"
proof -
  have s': "ls_files s' = ls_files (bd_store d)" "ls_cache_dir s' = ls_cache_dir (bd_store d)"
    "ls_dirty_objects s' = ls_dirty_objects (bd_store d)"
    using assms(4) by (auto simp: format_local_def rbind_Inr_iff Let_def tick_def replace_from_manifest_def split: prod.splits sum.splits)
  let ?d = "device_new (bd_map d) b s' m"
  have "dirty_object i (bd_store ?d) = Some x" using assms(3) by (simp add: device_new_def dirty_object_def s')
  moreover have "dirty_ok L (bm_object_size (bd_map ?d)) (bd_store ?d) x (block_of (device_object_size d) (unat i) disk)"
  proof -
    have "cache_path s' = cache_path (bd_store d)" by (simp add: cache_path_def fun_eq_iff s')
    then have "dirty_ok L osz s' x blk = dirty_ok L osz (bd_store d) x blk" for osz blk by (simp only: dirty_ok_def s')
    then show ?thesis using dirty_block(1) [OF assms(2,3)] by (simp add: device_new_def)
  qed
  moreover have "length (block_of (device_object_size d) (unat i) disk) = device_object_size ?d"
    using dirty_block(2) [OF assms(2,3)] by (simp add: device_new_def device_object_size_def)
  ultimately have "read_object L B i ?d = (Inr (block_of (device_object_size d) (unat i) disk), ?d)"
    by (rule read_object_dirty [OF assms(1)])
  then show ?thesis by simp
qed

theorem forced_format_keeps_dirty_data_witness:
  "\<exists>d x m s' i. write_at (toy_libs True) (memory_backend (toy_libs True)) 131070 [1, 2, 3] toy_device = (Inr (), d) \<and>
     dirty_object i (bd_store d) = Some x \<and>
     format_local (toy_libs True) 8 True toy_config Map.empty (Some (bd_store d)) = Inr (m, s') \<and>
     fst (read_object (toy_libs True) (memory_backend (toy_libs True)) i (device_new (bd_map d) (memory_new 5) s' m)) =
       Inr (block_of 131072 (unat i) (splice_at 131070 [1, 2, 3] (replicate (512 * 131072) 0)))"
proof -
  let ?L = "toy_libs True"
  obtain d where w: "write_at ?L (memory_backend ?L) 131070 [1, 2, 3] toy_device = (Inr (), d)"
    and rel: "dev_rel ?L memory_invar mb_messages d (splice_at 131070 [1, 2, 3] (replicate (512 * 131072) 0))"
    and cf: "same_config toy_device d" and ne: "ls_dirty_objects (bd_store d) \<noteq> []"
    using toy_written [of ?L] by auto
  then obtain r rows where "ls_dirty_objects (bd_store d) = r # rows" by (cases "ls_dirty_objects (bd_store d)") auto
  then have x: "dirty_object (dr_object_id r) (bd_store d) = Some (dirty_of_row r)" by (simp add: dirty_object_def)
  have v: "validate toy_config = Inr ()" by code_simp
  have n: "config_object_count toy_config = Inr 512" by code_simp
  have "distinct (map mo_object_id (m_objects (manifest_empty 8 131072 512)))"
    by (simp add: manifest_empty_def zero_object_def comp_def map_of_nat_upt_distinct)
  then obtain s' where "replace_from_manifest ?L (manifest_empty 8 131072 512) (bd_store d) = (Inr (), s')"
    using replace_from_manifest_ok [of "manifest_empty 8 131072 512" ?L] by (auto simp: toy_libs_sel)
  then have f: "format_local ?L 8 True toy_config Map.empty (Some (bd_store d)) = Inr (manifest_empty 8 131072 512, s')"
    by (simp add: format_local_def v n) (simp add: toy_config_def)
  have "device_object_size d = 131072" using cf by (simp add: same_config_def device_object_size_def toy_sel)
  with forced_format_keeps_dirty_data [OF _ rel x f, of "memory_backend ?L" "memory_new 5"] w x f show ?thesis by auto
qed

end
