(* ===== verification/Nbd.thy ===== *)
theory Nbd
  imports Device
begin

text \<open>
  The NBD server (\<open>crates/tgdrive-nbd/src/server.rs\<close>). A connection is the bytes the client sends
  before it closes its side, the bytes the server has written, and the backend's state; the
  server reads its input in order, so how the client's bytes and the server's bytes interleave in
  time does not matter. The handshake and the transmission loop are functions of the connection;
  each round consumes input, which is their termination. Writing to the socket does not fail in
  the model (a failed write ends the connection, as the end of the input does); the semaphore of
  \<open>handle_client\<close> is released before the next request is read and limits nothing.
\<close>

section \<open>Constants\<close>

definition NBD_MAGIC :: u64 where "NBD_MAGIC = 0x4e42444d41474943"
definition IHAVEOPT :: u64 where "IHAVEOPT = 0x49484156454f5054"
definition OPTION_REPLY_MAGIC :: u64 where "OPTION_REPLY_MAGIC = 0x0003e889045565a9"
definition REQ_MAGIC :: u32 where "REQ_MAGIC = 0x25609513"
definition REP_MAGIC :: u32 where "REP_MAGIC = 0x67446698"

definition HANDSHAKE_FIXED_NEWSTYLE :: u16 where "HANDSHAKE_FIXED_NEWSTYLE = 1"
definition HANDSHAKE_NO_ZEROES :: u16 where "HANDSHAKE_NO_ZEROES = 2"
definition TRANSMISSION_HAS_FLAGS :: u16 where "TRANSMISSION_HAS_FLAGS = 1"
definition TRANSMISSION_SEND_FLUSH :: u16 where "TRANSMISSION_SEND_FLUSH = 4"
definition TRANSMISSION_SEND_TRIM :: u16 where "TRANSMISSION_SEND_TRIM = 32"
definition TRANSMISSION_SEND_WRITE_ZEROES :: u16 where "TRANSMISSION_SEND_WRITE_ZEROES = 64"

definition OPT_EXPORT_NAME :: u32 where "OPT_EXPORT_NAME = 1"
definition OPT_ABORT :: u32 where "OPT_ABORT = 2"
definition OPT_GO :: u32 where "OPT_GO = 7"
definition OPT_STRUCTURED_REPLY :: u32 where "OPT_STRUCTURED_REPLY = 8"
definition OPT_REP_ACK :: u32 where "OPT_REP_ACK = 1"
definition OPT_REP_INFO :: u32 where "OPT_REP_INFO = 3"
definition OPT_REP_ERR_UNSUP :: u32 where "OPT_REP_ERR_UNSUP = 0x80000001"
definition OPT_REP_ERR_INVALID :: u32 where "OPT_REP_ERR_INVALID = 0x80000003"
definition INFO_EXPORT :: u16 where "INFO_EXPORT = 0"

definition CMD_READ :: u16 where "CMD_READ = 0"
definition CMD_WRITE :: u16 where "CMD_WRITE = 1"
definition CMD_DISC :: u16 where "CMD_DISC = 2"
definition CMD_FLUSH :: u16 where "CMD_FLUSH = 3"
definition CMD_TRIM :: u16 where "CMD_TRIM = 4"
definition CMD_WRITE_ZEROES :: u16 where "CMD_WRITE_ZEROES = 6"
definition ERR_UNSUPPORTED :: u32 where "ERR_UNSUPPORTED = 95"
definition ERR_INVALID :: u32 where "ERR_INVALID = 22"

lemmas cmd_defs = CMD_READ_def CMD_WRITE_def CMD_DISC_def CMD_FLUSH_def CMD_TRIM_def CMD_WRITE_ZEROES_def
lemmas opt_defs = OPT_EXPORT_NAME_def OPT_ABORT_def OPT_GO_def OPT_STRUCTURED_REPLY_def

section \<open>Options, backend and connection\<close>

record NbdServerOptions =
  op_bind :: string
  op_export_name :: string
  op_device_size :: u64
  op_logical_block_size :: u32
  op_max_inflight :: nat

definition options_default :: NbdServerOptions where
  "options_default = \<lparr>op_bind = ''127.0.0.1:10809'', op_export_name = ''tgdrive'',
     op_device_size = 64 * 1024 * 1024, op_logical_block_size = 4096, op_max_inflight = 64\<rparr>"

record 'd nbd_backend =
  nb_read_at :: "u64 \<Rightarrow> nat \<Rightarrow> ('d, bytes) st"
  nb_write_at :: "u64 \<Rightarrow> bytes \<Rightarrow> ('d, unit) st"
  nb_flush :: "('d, unit) st"

definition device_nbd :: "libs \<Rightarrow> 'b backend \<Rightarrow> 'b BlockDevice nbd_backend" where
  "device_nbd L B = \<lparr>nb_read_at = read_at L B, nb_write_at = write_at L B, nb_flush = flush L B\<rparr>"

record 'd conn =
  cn_input :: bytes
  cn_output :: bytes
  cn_backend :: 'd

section \<open>Stream operations\<close>

abbreviation unexpected_eof :: err where
  "unexpected_eof \<equiv> IoError ''UnexpectedEof''"

definition read_exact :: "nat \<Rightarrow> (bytes, bytes) st" where
  "read_exact n inp = (if length inp < n then (Inl unexpected_eof, []) else (Inr (take n inp), drop n inp))"

definition read_u16 :: "(bytes, u16) st" where
  "read_u16 = bnd (read_exact 2) (\<lambda>bs. ret (un16 bs))"

definition read_u32 :: "(bytes, u32) st" where
  "read_u32 = bnd (read_exact 4) (\<lambda>bs. ret (un32 bs))"

definition read_u64 :: "(bytes, u64) st" where
  "read_u64 = bnd (read_exact 8) (\<lambda>bs. ret (un64 bs))"

definition on_input :: "(bytes, 'a) st \<Rightarrow> ('d conn, 'a) st" where
  "on_input m c = (case m (cn_input c) of (x, inp) \<Rightarrow> (x, c\<lparr>cn_input := inp\<rparr>))"

definition on_disk :: "('d, 'a) st \<Rightarrow> ('d conn, 'a) st" where
  "on_disk m c = (case m (cn_backend c) of (x, d) \<Rightarrow> (x, c\<lparr>cn_backend := d\<rparr>))"

definition emit :: "bytes \<Rightarrow> ('d conn, unit) st" where
  "emit bs = upd (\<lambda>c. c\<lparr>cn_output := cn_output c @ bs\<rparr>)"

section \<open>Text\<close>

text \<open>
  \<open>String::from_utf8_lossy\<close>: the length of the first sequence and whether it is a valid character;
  every maximal invalid prefix becomes the replacement character.
\<close>

definition in_range :: "nat \<Rightarrow> nat \<Rightarrow> bytes \<Rightarrow> nat \<Rightarrow> bool" where
  "in_range lo hi bs k = (k < length bs \<and> lo \<le> unat (bs ! k) \<and> unat (bs ! k) \<le> hi)"

definition utf8_first :: "bytes \<Rightarrow> nat \<times> bool" where
  "utf8_first bs =
     (let b = unat (hd bs); cont = in_range 128 191 bs in
      if b < 128 then (1, True)
      else if 194 \<le> b \<and> b \<le> 223 then (if cont 1 then (2, True) else (1, False))
      else if 224 \<le> b \<and> b \<le> 239 then
        (if \<not> (if b = 224 then in_range 160 191 bs 1 else if b = 237 then in_range 128 159 bs 1 else cont 1) then (1, False)
         else if cont 2 then (3, True) else (2, False))
      else if 240 \<le> b \<and> b \<le> 244 then
        (if \<not> (if b = 240 then in_range 144 191 bs 1 else if b = 244 then in_range 128 143 bs 1 else cont 1) then (1, False)
         else if \<not> cont 2 then (2, False)
         else if cont 3 then (4, True) else (3, False))
      else (1, False))"

lemma utf8_first_pos: "(n, valid) = utf8_first bs \<Longrightarrow> 0 < n"
  by (auto simp: utf8_first_def Let_def split: if_splits)

function utf8_lossy :: "bytes \<Rightarrow> bytes" where
  "utf8_lossy bs =
     (if bs = [] then []
      else case utf8_first bs of (n, ok) \<Rightarrow>
        (if ok then take n bs else [0xEF, 0xBF, 0xBD]) @ utf8_lossy (drop n bs))"
  by pat_completeness auto
termination
  by (relation "measure length") (auto dest: utf8_first_pos)

declare utf8_lossy.simps [simp del]

section \<open>Handshake\<close>

definition transmission_flags :: u16 where
  "transmission_flags = TRANSMISSION_HAS_FLAGS OR TRANSMISSION_SEND_FLUSH OR TRANSMISSION_SEND_TRIM
     OR TRANSMISSION_SEND_WRITE_ZEROES"

definition write_export_info :: "NbdServerOptions \<Rightarrow> ('d conn, unit) st" where
  "write_export_info opts =
     bnd (emit (be64 (op_device_size opts))) (\<lambda>_. emit (be16 transmission_flags))"

definition write_option_reply :: "u32 \<Rightarrow> u32 \<Rightarrow> bytes \<Rightarrow> ('d conn, unit) st" where
  "write_option_reply option reply payload =
     bnd (emit (be64 OPTION_REPLY_MAGIC)) (\<lambda>_.
     bnd (emit (be32 option)) (\<lambda>_.
     bnd (emit (be32 reply)) (\<lambda>_.
     bnd (emit (be32 (of_nat (length payload)))) (\<lambda>_.
     emit payload))))"

definition parse_go_export_name :: "bytes \<Rightarrow> bytes option" where
  "parse_go_export_name data =
     (if length data < 6 then None
      else
        let name_len = unat (un32 (slice 0 4 data)) in
        if length data < 4 + name_len + 2 then None
        else Some (utf8_lossy (slice 4 (4 + name_len) data)))"

definition read_option :: "(bytes, u32 \<times> bytes) st" where
  "read_option =
     bnd read_u64 (\<lambda>magic.
     bnd (lift (ensure (magic = IHAVEOPT) (Anyhow ''invalid option magic''))) (\<lambda>_.
     bnd read_u32 (\<lambda>option.
     bnd read_u32 (\<lambda>len.
     bnd (read_exact (unat len)) (\<lambda>data.
     ret (option, data))))))"

text \<open>What one option does; the result says whether the handshake is over.\<close>

definition handle_option :: "NbdServerOptions \<Rightarrow> u32 \<Rightarrow> bytes \<Rightarrow> ('d conn, bool) st" where
  "handle_option opts option data =
     (if option = OPT_EXPORT_NAME then
        let requested = utf8_lossy data in
        bnd (lift (ensure (requested = [] \<or> requested = ascii (op_export_name opts))
               (Anyhow (''unknown NBD export '' @ map (\<lambda>b. char_of (unat b)) requested)))) (\<lambda>_.
        bnd (write_export_info opts) (\<lambda>_.
        bnd (emit (replicate 124 0)) (\<lambda>_.
        ret True)))
      else if option = OPT_GO then
        (case parse_go_export_name data of
           None \<Rightarrow> bnd (write_option_reply option OPT_REP_ERR_INVALID (ascii ''invalid NBD_OPT_GO'')) (\<lambda>_. ret False)
         | Some requested \<Rightarrow>
             if requested \<noteq> [] \<and> requested \<noteq> ascii (op_export_name opts)
             then bnd (write_option_reply option OPT_REP_ERR_INVALID (ascii ''unknown NBD export'')) (\<lambda>_. ret False)
             else
               bnd (write_option_reply option OPT_REP_INFO
                      (be16 INFO_EXPORT @ be64 (op_device_size opts) @ be16 transmission_flags)) (\<lambda>_.
               bnd (write_option_reply option OPT_REP_ACK []) (\<lambda>_.
               ret True)))
      else if option = OPT_STRUCTURED_REPLY then
        bnd (write_option_reply option OPT_REP_ERR_UNSUP (ascii ''structured replies are not supported'')) (\<lambda>_. ret False)
      else if option = OPT_ABORT then fail (Anyhow ''client aborted negotiation'')
      else bnd (write_option_reply option OPT_REP_ERR_UNSUP (ascii ''unsupported NBD option'')) (\<lambda>_. ret False))"

text \<open>Reading an option consumes input, so the handshake ends.\<close>

lemma read_exact_length: "read_exact n inp = (x, rest) \<Longrightarrow> length rest \<le> length inp \<and>
    (\<forall>bs. x = Inr bs \<longrightarrow> inp = bs @ rest \<and> length bs = n)"
  by (auto simp: read_exact_def split: if_splits)

lemma read_int_length:
  "read_u16 inp = (x, rest) \<Longrightarrow> length rest \<le> length inp \<and> (\<forall>w. x = Inr w \<longrightarrow> inp = be16 w @ rest)"
  "read_u32 inp = (y, rest) \<Longrightarrow> length rest \<le> length inp \<and> (\<forall>w. y = Inr w \<longrightarrow> inp = be32 w @ rest)"
  "read_u64 inp = (z, rest) \<Longrightarrow> length rest \<le> length inp \<and> (\<forall>w. z = Inr w \<longrightarrow> inp = be64 w @ rest)"
  by (auto simp: read_u16_def read_u32_def read_u64_def read_exact_def bnd_def u16_field.enc_dec u32_field.enc_dec
      u64_field.enc_dec split: if_splits)

definition option_bytes :: "u32 \<Rightarrow> bytes \<Rightarrow> bytes" where
  "option_bytes option data = be64 IHAVEOPT @ be32 option @ be32 (of_nat (length data)) @ data"

lemma read_option_Inr:
  assumes "read_option inp = (Inr (option, data), rest)"
  shows "inp = option_bytes option data @ rest \<and> length data < 2 ^ 32"
proof -
  from assms obtain m a len b c where
    r: "read_u64 inp = (Inr m, a)" "m = IHAVEOPT" "read_u32 a = (Inr option, b)" "read_u32 b = (Inr len, c)"
      "read_exact (unat len) c = (Inr data, rest)"
    unfolding read_option_def
    by (elim bnd_InrE) (auto simp: split: if_splits elim!: bnd_InrE)
  have "unat len < 2 ^ 32" using unsigned_less [of len, where ?'a = nat] by simp
  moreover have "length data = unat len" "c = data @ rest" using read_exact_length [OF r(5)] by simp_all
  moreover have "b = be32 len @ c" using read_int_length(2) [OF r(4)] by simp
  moreover have "a = be32 option @ b" using read_int_length(2) [OF r(3)] by simp
  moreover have "inp = be64 m @ a" using read_int_length(3) [OF r(1)] by simp
  ultimately show ?thesis by (simp add: option_bytes_def r(2))
qed


text \<open>The stream operations act on one part of the connection.\<close>

lemma on_input_frame:
  "on_input m c = (x, c') \<Longrightarrow> cn_output c' = cn_output c \<and> cn_backend c' = cn_backend c \<and> m (cn_input c) = (x, cn_input c')"
  by (auto simp: on_input_def split: prod.splits)

lemma emit_apply [simp]: "emit bs c = (Inr (), c\<lparr>cn_output := cn_output c @ bs\<rparr>)"
  by (simp add: emit_def)

lemma on_disk_frame:
  "on_disk m c = (x, c') \<Longrightarrow> cn_output c' = cn_output c \<and> cn_input c' = cn_input c \<and> m (cn_backend c) = (x, cn_backend c')"
  by (auto simp: on_disk_def split: prod.splits)

lemma write_export_info_apply [simp]:
  "write_export_info opts c = (Inr (), c\<lparr>cn_output := cn_output c @ be64 (op_device_size opts) @ be16 transmission_flags\<rparr>)"
  by (simp add: write_export_info_def bnd_apply)

definition option_reply_bytes :: "u32 \<Rightarrow> u32 \<Rightarrow> bytes \<Rightarrow> bytes" where
  "option_reply_bytes option reply payload =
     be64 OPTION_REPLY_MAGIC @ be32 option @ be32 reply @ be32 (of_nat (length payload)) @ payload"

lemma write_option_reply_apply [simp]:
  "write_option_reply option reply payload c = (Inr (), c\<lparr>cn_output := cn_output c @ option_reply_bytes option reply payload\<rparr>)"
  by (simp add: write_option_reply_def option_reply_bytes_def bnd_apply)

lemma handle_option_frame:
  "handle_option opts option data c = (x, c') \<Longrightarrow> cn_input c' = cn_input c \<and> cn_backend c' = cn_backend c"
  by (auto simp: handle_option_def bnd_apply Let_def split: if_splits option.splits sum.splits)

lemma option_bytes_length: "length (option_bytes option data) = 16 + length data"
  by (simp add: option_bytes_def)

function negotiate_loop :: "NbdServerOptions \<Rightarrow> ('d conn, unit) st" where
  "negotiate_loop opts c =
     (case on_input read_option c of
        (Inl e, c1) \<Rightarrow> (Inl e, c1)
      | (Inr (option, data), c1) \<Rightarrow>
          (case handle_option opts option data c1 of
             (Inl e, c2) \<Rightarrow> (Inl e, c2)
           | (Inr over, c2) \<Rightarrow> if over then (Inr (), c2) else negotiate_loop opts c2))"
  by pat_completeness auto
termination
proof (relation "measure (\<lambda>(opts, c). length (cn_input c))", goal_cases)
  case 1
  show ?case by simp
next
  case (2 opts c r c1 p option data q c2 over)
  then have h: "handle_option opts option data c1 = (Inr over, c2)" and i: "on_input read_option c = (Inr (option, data), c1)"
    by simp_all
  have "read_option (cn_input c) = (Inr (option, data), cn_input c1)" "cn_input c2 = cn_input c1"
    using on_input_frame [OF i] handle_option_frame [OF h] by simp_all
  then show ?case using read_option_Inr [of "cn_input c" option data "cn_input c1"] by (simp add: option_bytes_length)
qed

declare negotiate_loop.simps [simp del]

definition negotiate :: "NbdServerOptions \<Rightarrow> ('d conn, unit) st" where
  "negotiate opts =
     bnd (emit (be64 NBD_MAGIC)) (\<lambda>_.
     bnd (emit (be64 IHAVEOPT)) (\<lambda>_.
     bnd (emit (be16 (HANDSHAKE_FIXED_NEWSTYLE OR HANDSHAKE_NO_ZEROES))) (\<lambda>_.
     bnd (on_input read_u32) (\<lambda>client_flags.
     negotiate_loop opts))))"

section \<open>Requests\<close>

record Request =
  rq_command :: u16
  rq_handle :: u64
  rq_offset :: u64
  rq_length :: u32

definition read_from :: "(bytes, Request) st" where
  "read_from =
     bnd read_u32 (\<lambda>magic.
     if magic \<noteq> REQ_MAGIC then fail (IoError ''InvalidData'')
     else
       bnd read_u16 (\<lambda>flags.
       bnd read_u16 (\<lambda>command.
       bnd read_u64 (\<lambda>handle.
       bnd read_u64 (\<lambda>offset.
       bnd read_u32 (\<lambda>len.
       ret \<lparr>rq_command = command, rq_handle = handle, rq_offset = offset, rq_length = len\<rparr>))))))"

definition write_reply :: "u32 \<Rightarrow> u64 \<Rightarrow> ('d conn, unit) st" where
  "write_reply error handle =
     bnd (emit (be32 REP_MAGIC)) (\<lambda>_.
     bnd (emit (be32 error)) (\<lambda>_.
     emit (be64 handle)))"

function discard_loop :: "nat \<Rightarrow> (bytes, unit) st" where
  "discard_loop remaining =
     (if remaining = 0 then ret ()
      else
        let k = min remaining 8192 in
        bnd (read_exact k) (\<lambda>_.
        discard_loop (remaining - k)))"
  by pat_completeness auto
termination
  by (relation "measure id") auto

declare discard_loop.simps [simp del]

definition discard_payload :: "u32 \<Rightarrow> (bytes, unit) st" where
  "discard_payload len = discard_loop (unat len)"

definition bounds_ok :: "u64 \<Rightarrow> u64 \<Rightarrow> u32 \<Rightarrow> bool" where
  "bounds_ok device_size offset len =
     (case checked_add offset (ucast len) of None \<Rightarrow> False | Some ending \<Rightarrow> ending \<le> device_size)"

lemma bounds_ok_unat: "bounds_ok sz offset len \<longleftrightarrow> unat offset + unat len \<le> unat sz"
proof -
  have "unat sz < 2 ^ 64" using unsigned_less [of sz, where ?'a = nat] by simp
  then show ?thesis
    by (auto simp: bounds_ok_def word_le_nat_alt checked_add_def unat_word_ariths split: option.splits if_splits)
qed

section \<open>The transmission phase\<close>

text \<open>One request; the result says whether the loop goes on.\<close>

definition serve_request :: "NbdServerOptions \<Rightarrow> 'd nbd_backend \<Rightarrow> Request \<Rightarrow> ('d conn, bool) st" where
  "serve_request opts N request =
     (if rq_command request = CMD_READ then
        if \<not> bounds_ok (op_device_size opts) (rq_offset request) (rq_length request) then
          bnd (write_reply ERR_INVALID (rq_handle request)) (\<lambda>_. ret True)
        else
          bnd (on_disk (nb_read_at N (rq_offset request) (unat (rq_length request)))) (\<lambda>data.
          bnd (write_reply 0 (rq_handle request)) (\<lambda>_.
          bnd (emit data) (\<lambda>_. ret True)))
      else if rq_command request = CMD_WRITE then
        if \<not> bounds_ok (op_device_size opts) (rq_offset request) (rq_length request) then
          bnd (on_input (discard_payload (rq_length request))) (\<lambda>_.
          bnd (write_reply ERR_INVALID (rq_handle request)) (\<lambda>_. ret True))
        else
          bnd (on_input (read_exact (unat (rq_length request)))) (\<lambda>payload.
          bnd (on_disk (nb_write_at N (rq_offset request) payload)) (\<lambda>_.
          bnd (write_reply 0 (rq_handle request)) (\<lambda>_. ret True)))
      else if rq_command request = CMD_FLUSH then
        bnd (on_disk (nb_flush N)) (\<lambda>_.
        bnd (write_reply 0 (rq_handle request)) (\<lambda>_. ret True))
      else if rq_command request = CMD_DISC then
        bnd (on_disk (nb_flush N)) (\<lambda>_. ret False)
      else if rq_command request = CMD_TRIM \<or> rq_command request = CMD_WRITE_ZEROES then
        bnd (if 0 < rq_length request \<and> rq_command request = CMD_WRITE
             then on_input (discard_payload (rq_length request)) else ret ()) (\<lambda>_.
        bnd (write_reply ERR_UNSUPPORTED (rq_handle request)) (\<lambda>_. ret True))
      else
        bnd (if rq_command request = CMD_WRITE then on_input (discard_payload (rq_length request)) else ret ()) (\<lambda>_.
        bnd (write_reply ERR_UNSUPPORTED (rq_handle request)) (\<lambda>_. ret True)))"

lemma read_length:
  "read_from inp = (Inr request, rest) \<Longrightarrow> length rest < length inp"
  unfolding read_from_def
  by (auto elim!: bnd_InrE dest!: read_int_length split: if_splits)

text \<open>Discarding in pieces reads as much as reading the payload at once.\<close>

lemma discard_loop_read: "discard_loop n inp = bnd (read_exact n) (\<lambda>_. ret ()) inp"
proof (induction n arbitrary: inp rule: less_induct)
  case (less n)
  show ?case
  proof (cases "n = 0")
    case True
    then show ?thesis by (simp add: discard_loop.simps bnd_apply read_exact_def)
  next
    case False
    let ?k = "min n 8192"
    have "discard_loop n inp = bnd (read_exact ?k) (\<lambda>_. discard_loop (n - ?k)) inp"
      using False by (subst discard_loop.simps) (simp add: Let_def)
    also have "\<dots> = bnd (read_exact ?k) (\<lambda>_. bnd (read_exact (n - ?k)) (\<lambda>_. ret ())) inp"
    proof -
      have "discard_loop (n - ?k) = bnd (read_exact (n - ?k)) (\<lambda>_. ret ())"
        using False by (intro ext less.IH) simp
      then show ?thesis by simp
    qed
    also have "\<dots> = bnd (read_exact n) (\<lambda>_. ret ()) inp"
      by (auto simp: bnd_apply read_exact_def)
    finally show ?thesis .
  qed
qed

lemma discard_length: "discard_loop n inp = (x, rest) \<Longrightarrow> length rest \<le> length inp"
  by (auto simp: discard_loop_read bnd_apply read_exact_def split: if_splits)

lemma bnd_length_le:
  assumes "\<And>c. length (cn_input (snd (m c))) \<le> length (cn_input c)"
    and "\<And>x c. length (cn_input (snd (f x c))) \<le> length (cn_input c)"
  shows "length (cn_input (snd (bnd m f c))) \<le> length (cn_input c)"
proof -
  obtain x c1 where m: "m c = (x, c1)" by force
  then have "length (cn_input c1) \<le> length (cn_input c)" using assms(1) [of c] by simp
  then show ?thesis using m assms(2) [of _ c1] by (cases x) (auto simp: bnd_apply intro: le_trans)
qed

lemma steps_length_le [simp]:
  "length (cn_input (snd (on_disk m c))) \<le> length (cn_input c)"
  "length (cn_input (snd (write_reply error handle c))) \<le> length (cn_input c)"
  "length (cn_input (snd (on_input (discard_payload len) c))) \<le> length (cn_input c)"
  "length (cn_input (snd (on_input (read_exact n) c))) \<le> length (cn_input c)"
  by (auto simp: on_disk_def write_reply_def bnd_apply on_input_def discard_payload_def
      split: prod.splits dest: discard_length read_exact_length)

lemma serve_request_length: "length (cn_input (snd (serve_request opts N request c))) \<le> length (cn_input c)"
  unfolding serve_request_def by (auto intro!: bnd_length_le)

function transmission :: "NbdServerOptions \<Rightarrow> 'd nbd_backend \<Rightarrow> ('d conn, unit) st" where
  "transmission opts N c =
     (case on_input read_from c of
        (Inl e, c1) \<Rightarrow> if e = unexpected_eof then (Inr (), c1) else (Inl e, c1)
      | (Inr request, c1) \<Rightarrow>
          (case serve_request opts N request c1 of
             (Inl e, c2) \<Rightarrow> (Inl e, c2)
           | (Inr continue, c2) \<Rightarrow> if continue then transmission opts N c2 else (Inr (), c2)))"
  by pat_completeness auto
termination
proof (relation "measure (\<lambda>(opts, N, c). length (cn_input c))", goal_cases)
  case 1
  show ?case by simp
next
  case (2 opts N c r c1 request q c2 continue)
  then have "read_from (cn_input c) = (Inr request, cn_input c1)" by (auto dest!: on_input_frame simp: eq_commute)
  then have "length (cn_input c1) < length (cn_input c)" by (rule read_length)
  moreover have "c2 = snd (serve_request opts N request c1)" using 2(3) [symmetric] by simp
  ultimately show ?case using serve_request_length [of opts N request c1] by simp
qed

declare transmission.simps [simp del]

definition handle_client :: "NbdServerOptions \<Rightarrow> 'd nbd_backend \<Rightarrow> ('d conn, unit) st" where
  "handle_client opts N = bnd (negotiate opts) (\<lambda>_. transmission opts N)"

end
