(* ===== verification/NbdTheorems.thy ===== *)
theory NbdTheorems
  imports DeviceTheorems Nbd
begin

text \<open>
  The wire protocol of the NBD server as a client sees it, the contract of the disk it serves as
  the locale \<open>disk_service\<close>, and the theorems about whole connections, proved once for every disk
  that satisfies the contract and applied to the block device.
\<close>

section \<open>Wire format\<close>

definition request_bytes :: "u16 \<Rightarrow> Request \<Rightarrow> bytes" where
  "request_bytes flags r = be32 REQ_MAGIC @ be16 flags @ be16 (rq_command r) @ be64 (rq_handle r) @
     be64 (rq_offset r) @ be32 (rq_length r)"

definition reply_bytes :: "u32 \<Rightarrow> u64 \<Rightarrow> bytes" where
  "reply_bytes error handle = be32 REP_MAGIC @ be32 error @ be64 handle"

lemma read_exact_append [simp]: "length bs = n \<Longrightarrow> read_exact n (bs @ rest) = (Inr bs, rest)"
  by (simp add: read_exact_def)

lemma read_ints [simp]:
  "read_u16 (be16 w @ rest) = (Inr w, rest)" "read_u32 (be32 x @ rest) = (Inr x, rest)"
  "read_u64 (be64 y @ rest) = (Inr y, rest)"
  by (simp_all add: read_u16_def read_u32_def read_u64_def bnd_apply)

lemma read_ints_err:
  "read_u16 inp = (Inl e, rest) \<Longrightarrow> e = unexpected_eof \<and> rest = []"
  "read_u32 inp = (Inl e, rest) \<Longrightarrow> e = unexpected_eof \<and> rest = []"
  "read_u64 inp = (Inl e, rest) \<Longrightarrow> e = unexpected_eof \<and> rest = []"
  by (auto simp: read_u16_def read_u32_def read_u64_def bnd_apply read_exact_def split: if_splits)

lemma read_from_request: "read_from (request_bytes flags r @ rest) = (Inr r, rest)"
  by (simp add: read_from_def request_bytes_def bnd_apply)

lemma read_from_Inr:
  assumes "read_from inp = (Inr r, rest)"
  shows "\<exists>flags. inp = request_bytes flags r @ rest"
proof -
  from assms obtain m a fl b c d e f where
    "read_u32 inp = (Inr m, a)" and m: "m = REQ_MAGIC" and "read_u16 a = (Inr fl, b)"
    "read_u16 b = (Inr (rq_command r), c)" "read_u64 c = (Inr (rq_handle r), d)"
    "read_u64 d = (Inr (rq_offset r), e)" "read_u32 e = (Inr (rq_length r), rest)"
    unfolding read_from_def by (elim bnd_InrE) (auto split: if_splits elim!: bnd_InrE)
  then show ?thesis using read_int_length by (fastforce simp: request_bytes_def)
qed

lemma read_from_Inl:
  assumes "read_from inp = (Inl e, rest)"
  shows "e = unexpected_eof \<or> e = IoError ''InvalidData''"
  using assms unfolding read_from_def
  by (auto elim!: bnd_InlE dest: read_ints_err split: if_splits)

lemma read_option_bytes: "length data < 2 ^ 32 \<Longrightarrow> read_option (option_bytes option data @ rest) = (Inr (option, data), rest)"
  by (simp add: read_option_def option_bytes_def bnd_apply unsigned_of_nat take_bit_nat_eq_self)

lemma write_reply_apply [simp]:
  "write_reply error handle c = (Inr (), c\<lparr>cn_output := cn_output c @ reply_bytes error handle\<rparr>)"
  by (simp add: write_reply_def reply_bytes_def bnd_apply)


section \<open>Messages and the disk they address\<close>

text \<open>A message of the transmission phase: header flags, request and, for a write, the payload.\<close>

type_synonym message = "u16 \<times> Request \<times> bytes"

definition wire :: "message \<Rightarrow> bytes" where
  "wire msg = (case msg of (flags, r, payload) \<Rightarrow> request_bytes flags r @ payload)"

definition command :: "message \<Rightarrow> u16" where
  "command msg = rq_command (fst (snd msg))"

definition message_ok :: "message \<Rightarrow> bool" where
  "message_ok msg = (case msg of (flags, r, payload) \<Rightarrow>
     length payload = (if rq_command r = CMD_WRITE then unat (rq_length r) else 0))"

text \<open>What a disk of size \<open>sz\<close> answers to a message, and the disk afterwards.\<close>

definition answer :: "u64 \<Rightarrow> bytes \<Rightarrow> message \<Rightarrow> bytes" where
  "answer sz disk msg = (case msg of (flags, r, payload) \<Rightarrow>
     let a = unat (rq_offset r); b = a + unat (rq_length r) in
     if rq_command r = CMD_READ then
       if b \<le> unat sz then reply_bytes 0 (rq_handle r) @ slice a b disk else reply_bytes ERR_INVALID (rq_handle r)
     else if rq_command r = CMD_WRITE then
       reply_bytes (if b \<le> unat sz then 0 else ERR_INVALID) (rq_handle r)
     else if rq_command r = CMD_FLUSH then reply_bytes 0 (rq_handle r)
     else if rq_command r = CMD_DISC then []
     else reply_bytes ERR_UNSUPPORTED (rq_handle r))"

definition after :: "u64 \<Rightarrow> bytes \<Rightarrow> message \<Rightarrow> bytes" where
  "after sz disk msg = (case msg of (flags, r, payload) \<Rightarrow>
     if rq_command r = CMD_WRITE \<and> unat (rq_offset r) + unat (rq_length r) \<le> unat sz
     then splice_at (unat (rq_offset r)) payload disk else disk)"

primrec answers :: "u64 \<Rightarrow> bytes \<Rightarrow> message list \<Rightarrow> bytes" where
  "answers sz disk [] = []"
| "answers sz disk (msg # msgs) = answer sz disk msg @ answers sz (after sz disk msg) msgs"

text \<open>
  What is left of the disk when the server stops inside the message at the front of the input:
  nothing changed, or a prefix of the payload of a write was written.
\<close>

definition torn :: "u64 \<Rightarrow> bytes \<Rightarrow> bytes \<Rightarrow> bytes \<Rightarrow> bool" where
  "torn sz disk inp disk' \<longleftrightarrow> disk' = disk \<or>
     (\<exists>flags r payload rest j. inp = wire (flags, r, payload) @ rest \<and> message_ok (flags, r, payload) \<and>
        rq_command r = CMD_WRITE \<and> unat (rq_offset r) + unat (rq_length r) \<le> unat sz \<and>
        disk' = splice_at (unat (rq_offset r)) (take j payload) disk)"

lemma torn_refl [simp]: "torn sz disk inp disk"
  by (simp add: torn_def)

lemma torn_write:
  "message_ok (flags, r, payload) \<Longrightarrow> rq_command r = CMD_WRITE \<Longrightarrow> unat (rq_offset r) + unat (rq_length r) \<le> unat sz \<Longrightarrow>
   torn sz disk (request_bytes flags r @ payload @ rest) (splice_at (unat (rq_offset r)) (take j payload) disk)"
  unfolding torn_def wire_def by (intro disjI2 exI [of _ flags] exI [of _ r] exI [of _ payload] exI [of _ rest] exI [of _ j]) simp

text \<open>The client's bytes are the answered messages and a rest; only the last message may be a disconnect.\<close>

definition connection_trace :: "u64 \<Rightarrow> bytes \<Rightarrow> bytes \<Rightarrow> message list \<Rightarrow> bytes \<Rightarrow> bytes \<Rightarrow> bool" where
  "connection_trace sz disk inp msgs tail disk' \<longleftrightarrow>
     inp = concat (map wire msgs) @ tail \<and> (\<forall>msg\<in>set msgs. message_ok msg) \<and>
     (\<forall>msg\<in>set (butlast msgs). command msg \<noteq> CMD_DISC) \<and> torn sz (foldl (after sz) disk msgs) tail disk'"

lemma connection_trace_Cons:
  "message_ok msg \<Longrightarrow> command msg \<noteq> CMD_DISC \<Longrightarrow> connection_trace sz (after sz disk msg) inp msgs tail disk' \<Longrightarrow>
   connection_trace sz disk (wire msg @ inp) (msg # msgs) tail disk'"
  by (auto simp: connection_trace_def)

section \<open>The contract of a served disk\<close>

text \<open>
  \<open>rel k d disk\<close>: the state \<open>d\<close> holds the contents \<open>disk\<close> and can take \<open>k\<close> more operations;
  \<open>saved d disk\<close>: the contents no longer depend on the local machine.
\<close>

locale disk_service =
  fixes N :: "'d nbd_backend" and sz :: u64
    and rel :: "nat \<Rightarrow> 'd \<Rightarrow> bytes \<Rightarrow> bool" and saved :: "'d \<Rightarrow> bytes \<Rightarrow> bool"
  assumes service_read: "rel (Suc k) d disk \<Longrightarrow> unat offset + len \<le> unat sz \<Longrightarrow> nb_read_at N offset len d = (x, d') \<Longrightarrow>
      rel k d' disk \<and> (\<forall>bs. x = Inr bs \<longrightarrow> bs = slice (unat offset) (unat offset + len) disk)"
    and service_write: "rel (Suc k) d disk \<Longrightarrow> unat offset + length bs \<le> unat sz \<Longrightarrow> nb_write_at N offset bs d = (y, d') \<Longrightarrow>
      \<exists>j \<le> length bs. rel k d' (splice_at (unat offset) (take j bs) disk) \<and> (y = Inr () \<longrightarrow> j = length bs)"
    and service_flush: "rel (Suc k) d disk \<Longrightarrow> nb_flush N d = (y, d') \<Longrightarrow> rel k d' disk \<and> (y = Inr () \<longrightarrow> saved d' disk)"
    and service_weaken: "rel (Suc k) d disk \<Longrightarrow> rel k d disk"
begin

lemma rel_le: "rel k d disk \<Longrightarrow> j \<le> k \<Longrightarrow> rel j d disk"
  by (induction k) (auto simp: le_Suc_eq dest: service_weaken)

text \<open>
  A request that is answered: its payload has been read, the answer is the disk's answer, the
  loop goes on unless it was a disconnect, after which the disk is saved.
\<close>

lemma request_served:
  assumes r: "rel (Suc k) (cn_backend c) disk" and sz: "op_device_size opts = sz"
    and sv: "serve_request opts N r c = (Inr continue, c')"
  shows "\<exists>payload. message_ok (flags, r, payload) \<and> cn_input c = payload @ cn_input c' \<and>
    cn_output c' = cn_output c @ answer sz disk (flags, r, payload) \<and>
    rel k (cn_backend c') (after sz disk (flags, r, payload)) \<and>
    (continue \<longleftrightarrow> rq_command r \<noteq> CMD_DISC) \<and>
    (rq_command r \<in> {CMD_FLUSH, CMD_DISC} \<longrightarrow> saved (cn_backend c') disk)"
proof -
  let ?inside = "unat (rq_offset r) + unat (rq_length r) \<le> unat sz"
  note b = bounds_ok_unat [of "op_device_size opts", unfolded sz]
  consider (cread) "rq_command r = CMD_READ" | (cwrite) "rq_command r = CMD_WRITE" | (cflush) "rq_command r = CMD_FLUSH"
    | (cdisc) "rq_command r = CMD_DISC" | (cother) "rq_command r \<notin> {CMD_READ, CMD_WRITE, CMD_FLUSH, CMD_DISC}" by blast
  then show ?thesis
  proof cases
    case cread
    then show ?thesis
    proof (cases ?inside)
      case True
      obtain x d' where rd: "nb_read_at N (rq_offset r) (unat (rq_length r)) (cn_backend c) = (x, d')" by force
      with service_read [OF r True rd] show ?thesis using sv True cread
        by (cases x) (auto simp: serve_request_def b sz bnd_apply on_disk_def message_ok_def answer_def after_def cmd_defs Let_def)
    next
      case False
      then show ?thesis using sv cread service_weaken [OF r]
        by (auto simp: serve_request_def b sz bnd_apply message_ok_def answer_def after_def cmd_defs Let_def)
    qed
  next
    case cwrite
    show ?thesis
    proof (cases ?inside)
      case True
      obtain y rest where rx: "read_exact (unat (rq_length r)) (cn_input c) = (y, rest)" by force
      obtain payload where y: "y = Inr payload" and p: "cn_input c = payload @ rest" "length payload = unat (rq_length r)"
        using sv True cwrite rx read_exact_length [OF rx]
        by (cases y) (auto simp: serve_request_def b sz bnd_apply on_input_def cmd_defs)
      obtain z d' where wr: "nb_write_at N (rq_offset r) payload (cn_backend c) = (z, d')" by force
      show ?thesis using sv True cwrite rx y p wr service_write [OF r _ wr]
        by (cases z) (auto simp: serve_request_def b sz bnd_apply on_input_def on_disk_def message_ok_def answer_def after_def cmd_defs Let_def)
    next
      case False
      obtain y rest where rx: "read_exact (unat (rq_length r)) (cn_input c) = (y, rest)" by force
      show ?thesis using sv False cwrite rx read_exact_length [OF rx] service_weaken [OF r]
        by (cases y) (auto simp: serve_request_def b sz bnd_apply on_input_def discard_payload_def discard_loop_read
            message_ok_def answer_def after_def cmd_defs Let_def)
    qed
  next
    case cflush
    obtain y d' where fl: "nb_flush N (cn_backend c) = (y, d')" by force
    with service_flush [OF r fl] show ?thesis using sv cflush
      by (cases y) (auto simp: serve_request_def bnd_apply on_disk_def message_ok_def answer_def after_def cmd_defs Let_def)
  next
    case cdisc
    obtain y d' where fl: "nb_flush N (cn_backend c) = (y, d')" by force
    with service_flush [OF r fl] show ?thesis using sv cdisc
      by (cases y) (auto simp: serve_request_def bnd_apply on_disk_def message_ok_def answer_def after_def cmd_defs Let_def)
  next
    case cother
    then show ?thesis using sv service_weaken [OF r]
      by (auto simp: serve_request_def bnd_apply message_ok_def answer_def after_def cmd_defs Let_def split: if_splits)
  qed
qed


text \<open>A request that fails writes no answer; only a write leaves a trace on the disk, a prefix of its payload.\<close>

lemma request_failed:
  assumes r: "rel (Suc k) (cn_backend c) disk" and sz: "op_device_size opts = sz"
    and sv: "serve_request opts N r c = (Inl e, c')"
  shows "\<exists>disk'. rel k (cn_backend c') disk' \<and> cn_output c' = cn_output c \<and>
    torn sz disk (request_bytes flags r @ cn_input c) disk'"
proof -
  let ?inside = "unat (rq_offset r) + unat (rq_length r) \<le> unat sz"
  note b = bounds_ok_unat [of "op_device_size opts", unfolded sz]
  consider (cread) "rq_command r = CMD_READ" "?inside" | (cwrite) "rq_command r = CMD_WRITE" "?inside"
    | (far) "rq_command r = CMD_WRITE" "\<not> ?inside" | (cflush) "rq_command r \<in> {CMD_FLUSH, CMD_DISC}"
    using sv by (auto simp: serve_request_def b sz bnd_apply cmd_defs split: if_splits)
  then show ?thesis
  proof cases
    case cread
    obtain x d' where rd: "nb_read_at N (rq_offset r) (unat (rq_length r)) (cn_backend c) = (x, d')" by force
    with service_read [OF r cread(2) rd] show ?thesis using sv cread
      by (cases x) (auto simp: serve_request_def b sz bnd_apply on_disk_def cmd_defs intro!: exI [of _ disk])
  next
    case cwrite
    obtain y rest where rx: "read_exact (unat (rq_length r)) (cn_input c) = (y, rest)" by force
    show ?thesis
    proof (cases y)
      case (Inl e')
      then show ?thesis using sv cwrite rx service_weaken [OF r]
        by (auto simp: serve_request_def b sz bnd_apply on_input_def cmd_defs intro!: exI [of _ disk])
    next
      case (Inr payload)
      then have p: "cn_input c = payload @ rest" "length payload = unat (rq_length r)"
        using read_exact_length [OF rx] by simp_all
      obtain z d' where wr: "nb_write_at N (rq_offset r) payload (cn_backend c) = (z, d')" by force
      from service_write [OF r _ wr] p cwrite(2) obtain j where
        "rel k d' (splice_at (unat (rq_offset r)) (take j payload) disk)" by auto
      moreover have "c' = c\<lparr>cn_input := rest, cn_backend := d'\<rparr>" using sv cwrite rx Inr wr
        by (cases z) (auto simp: serve_request_def b sz bnd_apply on_input_def on_disk_def cmd_defs)
      moreover have "message_ok (flags, r, payload)" using p cwrite(1) by (simp add: message_ok_def)
      ultimately show ?thesis using p cwrite torn_write [of flags r payload sz disk rest j] by auto
    qed
  next
    case far
    then show ?thesis using sv service_weaken [OF r]
      by (auto simp: serve_request_def b sz bnd_apply on_input_def cmd_defs intro!: exI [of _ disk] split: prod.splits sum.splits)
  next
    case cflush
    obtain y d' where fl: "nb_flush N (cn_backend c) = (y, d')" by force
    with service_flush [OF r fl] show ?thesis using sv cflush
      by (cases y) (auto simp: serve_request_def bnd_apply on_disk_def cmd_defs intro!: exI [of _ disk])
  qed
qed

lemma transmission_refines:
  assumes "rel (length (cn_input c)) (cn_backend c) disk" and sz: "op_device_size opts = sz"
    and "transmission opts N c = (x, c')"
  shows "\<exists>msgs tail disk'. connection_trace sz disk (cn_input c) msgs tail disk' \<and>
    cn_output c' = cn_output c @ answers sz disk msgs \<and> rel 0 (cn_backend c') disk' \<and>
    (x = Inr () \<longrightarrow> disk' = foldl (after sz) disk msgs \<and>
       (if msgs \<noteq> [] \<and> command (last msgs) = CMD_DISC then saved (cn_backend c') disk' else fst (read_from tail) = Inl unexpected_eof))"
  using assms(1,3)
proof (induction "length (cn_input c)" arbitrary: c disk rule: less_induct)
  case less
  have stop: "connection_trace sz disk inp [] inp disk' \<longleftrightarrow> torn sz disk inp disk'" for inp disk'
    by (simp add: connection_trace_def)
  obtain q c1 where rf: "on_input read_from c = (q, c1)" by force
  note fr = on_input_frame [OF rf]
  show ?case
  proof (cases q)
    case (Inl e)
    then have "x = (if e = unexpected_eof then Inr () else Inl e)" "c' = c1"
      using less.prems(2) rf by (auto simp: transmission.simps split: if_splits)
    then show ?thesis using fr Inl stop rel_le [OF less.prems(1)]
      by - (rule exI [of _ "[]"], rule exI [of _ "cn_input c"], rule exI [of _ disk], auto)
  next
    case (Inr r)
    then obtain flags where inp: "cn_input c = request_bytes flags r @ cn_input c1"
      using fr read_from_Inr by blast
    then have len: "length (cn_input c1) < length (cn_input c)" by (simp add: request_bytes_def)
    then obtain k where k: "length (cn_input c) = Suc k" "length (cn_input c1) \<le> k" by (cases "length (cn_input c)") auto
    obtain y c2 where sv: "serve_request opts N r c1 = (y, c2)" by force
    have rl: "rel (Suc k) (cn_backend c1) disk" using less.prems(1) fr k by simp
    show ?thesis
    proof (cases y)
      case no: (Inl e)
      then have "x = Inl e" "c' = c2" using less.prems(2) rf Inr sv by (simp_all add: transmission.simps)
      moreover obtain disk' where "rel 0 (cn_backend c2) disk'" "cn_output c2 = cn_output c" "torn sz disk (cn_input c) disk'"
        using request_failed [OF rl sz sv [unfolded no], of flags] fr inp rel_le by fastforce
      ultimately show ?thesis using stop by - (rule exI [of _ "[]"], rule exI [of _ "cn_input c"], rule exI [of _ disk'], simp)
    next
      case yes: (Inr continue)
      obtain payload where m: "message_ok (flags, r, payload)" "cn_input c1 = payload @ cn_input c2"
        "cn_output c2 = cn_output c1 @ answer sz disk (flags, r, payload)"
        "rel k (cn_backend c2) (after sz disk (flags, r, payload))" "continue \<longleftrightarrow> rq_command r \<noteq> CMD_DISC"
        "rq_command r \<in> {CMD_FLUSH, CMD_DISC} \<longrightarrow> saved (cn_backend c2) disk"
        using request_served [OF rl sz sv [unfolded yes], of flags] by blast
      let ?m = "(flags, r, payload)"
      show ?thesis
      proof (cases continue)
        case True
        have "transmission opts N c2 = (x, c')" using less.prems(2) rf Inr sv yes True by (simp add: transmission.simps)
        moreover have "length (cn_input c2) < length (cn_input c)" "rel (length (cn_input c2)) (cn_backend c2) (after sz disk ?m)"
          using len m(2) rel_le [OF m(4)] k by simp_all
        ultimately obtain msgs tail disk' where ih: "connection_trace sz (after sz disk ?m) (cn_input c2) msgs tail disk'"
          "cn_output c' = cn_output c2 @ answers sz (after sz disk ?m) msgs" "rel 0 (cn_backend c') disk'"
          "x = Inr () \<longrightarrow> disk' = foldl (after sz) (after sz disk ?m) msgs \<and>
            (if msgs \<noteq> [] \<and> command (last msgs) = CMD_DISC then saved (cn_backend c') disk' else fst (read_from tail) = Inl unexpected_eof)"
          using less.hyps by blast
        have nd: "command ?m \<noteq> CMD_DISC" using True m(5) by (simp add: command_def)
        have "cn_input c = wire ?m @ cn_input c2" using inp m(2) by (simp add: wire_def)
        then have "connection_trace sz disk (cn_input c) (?m # msgs) tail disk'"
          using connection_trace_Cons [OF m(1) nd ih(1)] by simp
        moreover have "cn_output c' = cn_output c @ answers sz disk (?m # msgs)" using ih(2) m(3) fr by simp
        ultimately show ?thesis using ih(3,4) nd
          by - (rule exI [of _ "?m # msgs"], rule exI [of _ tail], rule exI [of _ disk'], auto split: if_splits)
      next
        case False
        then have "x = Inr ()" "c' = c2" using less.prems(2) rf Inr sv yes by (simp_all add: transmission.simps)
        moreover have "after sz disk ?m = disk" "command ?m = CMD_DISC"
          using False m(5) by (simp_all add: after_def command_def cmd_defs)
        ultimately show ?thesis using m inp fr False rel_le [OF m(4)]
          by - (rule exI [of _ "[?m]"], rule exI [of _ "cn_input c2"], rule exI [of _ disk], simp add: connection_trace_def wire_def)
      qed
    qed
  qed
qed

end

text \<open>A disk that is available answers every request in range.\<close>

locale live_disk_service = disk_service N sz rel saved
  for N :: "'d nbd_backend" and sz and rel and saved +
  assumes service_read_live: "rel (Suc k) d disk \<Longrightarrow> unat offset + len \<le> unat sz \<Longrightarrow> \<exists>bs d'. nb_read_at N offset len d = (Inr bs, d')"
    and service_write_live: "rel (Suc k) d disk \<Longrightarrow> unat offset + length bs \<le> unat sz \<Longrightarrow> \<exists>d'. nb_write_at N offset bs d = (Inr (), d')"
    and service_flush_live: "rel (Suc k) d disk \<Longrightarrow> \<exists>d'. nb_flush N d = (Inr (), d')"
begin

lemma request_answered:
  assumes r: "rel (Suc k) (cn_backend c) disk" and sz: "op_device_size opts = sz"
    and m: "message_ok (flags, r, payload)" and inp: "cn_input c = payload @ rest"
  shows "\<exists>c'. serve_request opts N r c = (Inr (rq_command r \<noteq> CMD_DISC), c') \<and> cn_input c' = rest"
proof -
  let ?inside = "unat (rq_offset r) + unat (rq_length r) \<le> unat sz"
  note b = bounds_ok_unat [of "op_device_size opts", unfolded sz]
  note eval = serve_request_def b sz bnd_apply on_disk_def on_input_def discard_payload_def discard_loop_read cmd_defs
  have p: "rq_command r \<noteq> CMD_WRITE \<Longrightarrow> payload = []" "rq_command r = CMD_WRITE \<Longrightarrow> length payload = unat (rq_length r)"
    using m by (auto simp: message_ok_def)
  consider (cread) "rq_command r = CMD_READ" "?inside" | (cwrite) "rq_command r = CMD_WRITE" "?inside"
    | (cflush) "rq_command r \<in> {CMD_FLUSH, CMD_DISC}" | (far) "\<not> ?inside" "rq_command r \<in> {CMD_READ, CMD_WRITE}"
    | (other) "rq_command r \<notin> {CMD_READ, CMD_WRITE, CMD_FLUSH, CMD_DISC}" by blast
  then show ?thesis
  proof cases
    case cread
    then show ?thesis using service_read_live [OF r cread(2)] p inp by (auto simp: eval)
  next
    case cwrite
    then show ?thesis using service_write_live [OF r, of "rq_offset r" payload] p inp by (auto simp: eval)
  next
    case cflush
    then show ?thesis using service_flush_live [OF r] p inp by (auto simp: eval)
  next
    case far
    then show ?thesis using p inp by (auto simp: eval)
  next
    case other
    then show ?thesis using p inp by (auto simp: eval)
  qed
qed

lemma message_answered:
  assumes r: "rel (Suc k) (cn_backend c) disk" and sz: "op_device_size opts = sz"
    and m: "message_ok msg" and inp: "cn_input c = wire msg @ rest"
  shows "\<exists>c'. transmission opts N c = (if command msg = CMD_DISC then (Inr (), c') else transmission opts N c') \<and>
    cn_input c' = rest \<and> cn_output c' = cn_output c @ answer sz disk msg \<and> rel k (cn_backend c') (after sz disk msg) \<and>
    (command msg \<in> {CMD_FLUSH, CMD_DISC} \<longrightarrow> saved (cn_backend c') disk)"
proof -
  obtain flags q payload where msg: "msg = (flags, q, payload)" by (cases msg)
  let ?c = "c\<lparr>cn_input := payload @ rest\<rparr>"
  have rf: "on_input read_from c = (Inr q, ?c)" using inp by (simp add: on_input_def msg wire_def read_from_request)
  have r1: "rel (Suc k) (cn_backend ?c) disk" using r by simp
  obtain c' where sv: "serve_request opts N q ?c = (Inr (rq_command q \<noteq> CMD_DISC), c')" and rest: "cn_input c' = rest"
    using request_answered [OF r1 sz m [unfolded msg], of rest] by auto
  from request_served [OF r1 sz sv, of flags] rest obtain payload' where
    p: "payload' = payload" "cn_output c' = cn_output c @ answer sz disk (flags, q, payload')"
      "rel k (cn_backend c') (after sz disk (flags, q, payload'))"
      "rq_command q \<in> {CMD_FLUSH, CMD_DISC} \<longrightarrow> saved (cn_backend c') disk" by auto
  have "transmission opts N c = (if command msg = CMD_DISC then (Inr (), c') else transmission opts N c')"
    by (subst transmission.simps) (simp add: rf sv command_def msg)
  then show ?thesis using p rest by (auto simp: msg command_def)
qed

lemma messages_answered:
  assumes "rel (length msgs + k) (cn_backend c) disk" and sz: "op_device_size opts = sz"
    and "\<forall>msg\<in>set msgs. message_ok msg \<and> command msg \<noteq> CMD_DISC" and "cn_input c = concat (map wire msgs) @ rest"
  shows "\<exists>c'. transmission opts N c = transmission opts N c' \<and> cn_input c' = rest \<and>
    cn_output c' = cn_output c @ answers sz disk msgs \<and> rel k (cn_backend c') (foldl (after sz) disk msgs)"
  using assms(1,3,4)
proof (induction msgs arbitrary: c disk)
  case Nil
  then show ?case by auto
next
  case (Cons msg msgs)
  have "rel (Suc (length msgs + k)) (cn_backend c) disk" "message_ok msg" "cn_input c = wire msg @ concat (map wire msgs) @ rest"
    "command msg \<noteq> CMD_DISC"
    using Cons.prems by simp_all
  with message_answered [OF this(1) sz this(2,3)] obtain c1 where
    c1: "transmission opts N c = transmission opts N c1" "cn_input c1 = concat (map wire msgs) @ rest"
      "cn_output c1 = cn_output c @ answer sz disk msg" "rel (length msgs + k) (cn_backend c1) (after sz disk msg)" by auto
  from Cons.IH [OF c1(4) _ c1(2)] Cons.prems(2) c1 show ?case by auto
qed

text \<open>A whole session: the messages, a disconnect, and whatever follows it.\<close>

lemma session_answered:
  assumes "rel (Suc (length msgs)) (cn_backend c) disk" and "op_device_size opts = sz"
    and "\<forall>msg\<in>set msgs. message_ok msg \<and> command msg \<noteq> CMD_DISC" and "message_ok disc" "command disc = CMD_DISC"
    and "cn_input c = concat (map wire msgs) @ wire disc @ rest"
  shows "\<exists>c'. transmission opts N c = (Inr (), c') \<and> cn_input c' = rest \<and>
    cn_output c' = cn_output c @ answers sz disk msgs \<and>
    rel 0 (cn_backend c') (foldl (after sz) disk msgs) \<and> saved (cn_backend c') (foldl (after sz) disk msgs)"
proof -
  have "rel (length msgs + 1) (cn_backend c) disk" using assms(1) by simp
  from messages_answered [OF this assms(2,3,6)] obtain c1 where
    c1: "transmission opts N c = transmission opts N c1" "cn_input c1 = wire disc @ rest"
      "cn_output c1 = cn_output c @ answers sz disk msgs" "rel (Suc 0) (cn_backend c1) (foldl (after sz) disk msgs)" by auto
  moreover have "answer sz d disc = []" "after sz d disc = d" for d
    using assms(5) by (auto simp: answer_def after_def command_def cmd_defs Let_def split: prod.splits)
  ultimately show ?thesis using message_answered [OF c1(4) assms(2,4) c1(2)] assms(5) by auto
qed

end

section \<open>The block device is such a disk\<close>

definition nbd_rel :: "libs \<Rightarrow> ('b \<Rightarrow> bool) \<Rightarrow> ('b \<Rightarrow> nat \<Rightarrow> bool) \<Rightarrow> ('b \<Rightarrow> i32 \<rightharpoonup> bytes) \<Rightarrow> nat \<Rightarrow> u64 \<Rightarrow> nat \<Rightarrow>
    'b BlockDevice \<Rightarrow> bytes \<Rightarrow> bool" where
  "nbd_rel L invar room stored n sz k d disk \<longleftrightarrow> digest32 L \<and> json_round_trips L \<and> bm_device_size (bd_map d) = sz \<and>
     (\<exists>c. ready L invar room stored n k c d disk)"

text \<open>With fewer objects than the back-pressure limit and an available committer nothing fails.\<close>

definition nbd_live_rel :: "libs \<Rightarrow> ('b \<Rightarrow> bool) \<Rightarrow> ('b \<Rightarrow> nat \<Rightarrow> bool) \<Rightarrow> ('b \<Rightarrow> i32 \<rightharpoonup> bytes) \<Rightarrow> nat \<Rightarrow> u64 \<Rightarrow> nat \<Rightarrow>
    'b BlockDevice \<Rightarrow> bytes \<Rightarrow> bool" where
  "nbd_live_rel L invar room stored n sz k d disk \<longleftrightarrow> nbd_rel L invar room stored n sz k d disk \<and>
     length (m_objects (bd_manifest d)) < 4096 \<and> commits_live invar room n (bd_committer d)"

inductive_cases disk_readE: "disk_step (ReadAt offset len) r disk disk'"
inductive_cases disk_writeE: "disk_step (WriteAt offset bs) r disk disk'"

lemma device_nbd_sel [simp]:
  "nb_read_at (device_nbd L B) = read_at L B" "nb_write_at (device_nbd L B) = write_at L B"
  "nb_flush (device_nbd L B) = flush L B"
  by (simp_all add: device_nbd_def)

lemma json_writes_of: "json_round_trips L \<Longrightarrow> json_writes L"
  by (auto simp: json_round_trips_def json_writes_def)

definition static :: "'b BlockDevice \<Rightarrow> 'b BlockDevice \<Rightarrow> bool" where
  "static d d' \<longleftrightarrow> length (m_objects (bd_manifest d')) = length (m_objects (bd_manifest d)) \<and> bd_committer d' = bd_committer d"

context remote_backend
begin

lemma device_service_read:
  assumes "nbd_rel L invar room stored n sz (Suc k) d disk" "unat offset + len \<le> unat sz"
    "nb_read_at (device_nbd L B) offset len d = (x, d')"
  shows "nbd_rel L invar room stored n sz k d' disk \<and> (\<forall>bs. x = Inr bs \<longrightarrow> bs = slice (unat offset) (unat offset + len) disk)"
proof -
  obtain c where r: "ready L invar room stored n (Suc k) c d disk" using assms(1) by (auto simp: nbd_rel_def)
  from read_step [OF r, of offset len x d'] assms show ?thesis by (auto simp: nbd_rel_def elim!: disk_readE)
qed

lemma device_service_write:
  assumes "nbd_rel L invar room stored n sz (Suc k) d disk" "unat offset + length bs \<le> unat sz"
    "nb_write_at (device_nbd L B) offset bs d = (y, d')"
  shows "\<exists>j \<le> length bs. nbd_rel L invar room stored n sz k d' (splice_at (unat offset) (take j bs) disk) \<and>
    (y = Inr () \<longrightarrow> j = length bs)"
proof -
  obtain c where r: "ready L invar room stored n (Suc k) c d disk" using assms(1) by (auto simp: nbd_rel_def)
  obtain disk' where s: "disk_step (WriteAt offset bs) (map_sum id (\<lambda>_. []) y) disk disk'"
    "ready L invar room stored n k (Suc c) d' disk'" "bd_map d' = bd_map d"
    using write_step [OF r, of offset bs y d'] assms by (auto simp: nbd_rel_def)
  from s(1) obtain j where "j \<le> length bs" "disk' = splice_at (unat offset) (take j bs) disk" "y = Inr () \<longrightarrow> j = length bs"
    by (cases y) (auto elim!: disk_writeE)
  then show ?thesis using s(2,3) assms(1) by (auto simp: nbd_rel_def)
qed

lemma device_service_flush:
  assumes "nbd_rel L invar room stored n sz (Suc k) d disk" "nb_flush (device_nbd L B) d = (y, d')"
  shows "nbd_rel L invar room stored n sz k d' disk \<and> (y = Inr () \<longrightarrow> durable L stored d' disk)"
proof -
  obtain c where r: "ready L invar room stored n (Suc k) c d disk" using assms(1) by (auto simp: nbd_rel_def)
  have L: "digest32 L" "json_round_trips L" and fl: "flush L B d = (y, d')" using assms by (simp_all add: nbd_rel_def)
  from flush_step [OF r L fl] flush_rel [OF ready_facts(1) [OF r] L(1) ready_facts(2-4) [OF r] fl] show ?thesis
    using assms by (cases y) (auto simp: nbd_rel_def)
qed

lemma device_service_weaken: "nbd_rel L invar room stored n sz (Suc k) d disk \<Longrightarrow> nbd_rel L invar room stored n sz k d disk"
  unfolding nbd_rel_def using ready_mono by blast

text \<open>The operations keep the number of objects and the committer.\<close>

lemma device_service_static:
  assumes "nbd_rel L invar room stored n sz (Suc k) d disk"
  shows "unat offset + len \<le> unat sz \<Longrightarrow> static d (snd (read_at L B offset len d))"
    "unat offset + length bs \<le> unat sz \<Longrightarrow> static d (snd (write_at L B offset bs d))"
    "static d (snd (flush L B d))"
proof -
  obtain c where r: "ready L invar room stored n (Suc k) c d disk" and L: "digest32 L" and sz: "bm_device_size (bd_map d) = sz"
    using assms by (auto simp: nbd_rel_def)
  note f = ready_facts [OF r]
  show "static d (snd (read_at L B offset len d))" if "unat offset + len \<le> unat sz"
    using read_at_rel [OF f(1) L, of offset len "fst (read_at L B offset len d)" "snd (read_at L B offset len d)"] that sz
    by (auto simp: kept_def same_core_def static_def)
  show "static d (snd (write_at L B offset bs d))" if "unat offset + length bs \<le> unat sz"
    using write_at_rel [OF f(1) L f(2), of offset bs "fst (write_at L B offset bs d)" "snd (write_at L B offset bs d)"] that sz
    by (auto simp: wrote_def same_config_def static_def)
  show "static d (snd (flush L B d))"
    using flush_rel [OF f(1) L f(2-4), of "fst (flush L B d)" "snd (flush L B d)"]
    by (auto simp: flush_frame_def static_def dest: arg_cong [where f = length])
qed

end

sublocale remote_backend \<subseteq> svc: disk_service "device_nbd L B" sz "nbd_rel L invar room stored n sz" "durable L stored" for L n sz
  by unfold_locales (fact device_service_read device_service_write device_service_flush device_service_weaken)+

text \<open>Dirty rows have distinct ids below the number of objects.\<close>

lemma dirty_rows_bounded:
  assumes rel: "dev_rel L invar stored d disk"
  shows "st_dirty_objects (stats (bd_store d)) \<le> length (m_objects (bd_manifest d))"
proof -
  let ?ids = "map dr_object_id (ls_dirty_objects (bd_store d))"
  have "distinct ?ids" using rel by (simp add: dev_rel_def store_ok_def dirty_keys_ok_def)
  moreover have "unat i < length (m_objects (bd_manifest d))" if "i \<in> set ?ids" for i
  proof -
    have "dirty_object i (bd_store d) \<noteq> None" using that by (auto simp: dirty_object_def find_None_iff)
    then show ?thesis using rel by (auto simp: dev_rel_def objects_ok_def)
  qed
  then have "unat ` set ?ids \<subseteq> {..<length (m_objects (bd_manifest d))}" by auto
  then have "card (unat ` set ?ids) \<le> length (m_objects (bd_manifest d))"
    using card_mono [of "{..<length (m_objects (bd_manifest d))}"] by simp
  moreover have "card (unat ` set ?ids) = card (set ?ids)" by (intro card_image inj_onI) (simp add: word_unat_eq_iff)
  ultimately show ?thesis using distinct_card [of ?ids] by (simp add: stats_def)
qed

context live_backend
begin

lemma device_write_live:
  assumes rel: "nbd_live_rel L invar room stored n sz (Suc k) d disk" and b: "unat offset + length bs \<le> unat sz"
  shows "\<exists>d'. write_at L B offset bs d = (Inr (), d')"
proof -
  have nr: "nbd_rel L invar room stored n sz (Suc k) d disk" and len: "length (m_objects (bd_manifest d)) < 4096"
    using rel by (simp_all add: nbd_live_rel_def)
  then obtain c where r: "ready L invar room stored n (Suc k) c d disk" and L: "digest32 L" and sz: "bm_device_size (bd_map d) = sz"
    by (auto simp: nbd_rel_def)
  obtain x d' where wr: "write_at L B offset bs d = (x, d')" by force
  note f = ready_facts [OF r]
  have b': "unat offset + length bs \<le> unat (bm_device_size (bd_map d))" using b sz by simp
  have "x \<noteq> Inl e" for e
  proof
    assume e: "x = Inl e"
    obtain disk' where w: "wrote L invar room stored d d' disk'" using write_at_rel [OF f(1) L f(2) b' wr] by blast
    then have "st_dirty_objects (stats (bd_store d')) < 4096"
      using dirty_rows_bounded [of L invar stored d' disk'] len by (simp add: wrote_def same_config_def)
    moreover have "bd_max_dirty_objects d' = 4096" using w f(5) by (simp add: wrote_def same_config_def run_inv_def)
    ultimately show False using write_at_live [OF f(1) L f(2) b' wr [unfolded e]] by simp
  qed
  then show ?thesis using wr by (cases x) auto
qed

lemma device_flush_live:
  assumes rel: "nbd_live_rel L invar room stored n sz (Suc k) d disk"
  shows "\<exists>d'. flush L B d = (Inr (), d')"
proof -
  obtain c where r: "ready L invar room stored n (Suc k) c d disk" and L: "digest32 L" "json_writes L"
    and com: "commits_live invar room n (bd_committer d)"
    using rel json_writes_of by (auto simp: nbd_rel_def nbd_live_rel_def)
  note f = ready_facts [OF r]
  show ?thesis by (rule flush_live [OF f(1) L f(2,3,4) com])
qed

lemma device_read_live:
  assumes rel: "nbd_live_rel L invar room stored n sz (Suc k) d disk" and b: "unat offset + len \<le> unat sz"
  shows "\<exists>bs d'. read_at L B offset len d = (Inr bs, d')"
proof -
  obtain c where r: "ready L invar room stored n (Suc k) c d disk" and L: "digest32 L" and sz: "bm_device_size (bd_map d) = sz"
    using rel by (auto simp: nbd_rel_def nbd_live_rel_def)
  show ?thesis using read_at_live [OF ready_facts(1) [OF r] L, of offset len] b sz by auto
qed

lemma live_rel_static:
  "nbd_live_rel L invar room stored n sz (Suc k) d disk \<Longrightarrow> static d d' \<Longrightarrow> nbd_rel L invar room stored n sz k d' disk' \<Longrightarrow>
   nbd_live_rel L invar room stored n sz k d' disk'"
  by (simp add: nbd_live_rel_def static_def)

end

sublocale live_backend \<subseteq> live_svc: live_disk_service "device_nbd L B" sz "nbd_live_rel L invar room stored n sz" "durable L stored" for n sz
proof
  fix k d disk
  assume rel: "nbd_live_rel L invar room stored n sz (Suc k) d disk"
  then have nr: "nbd_rel L invar room stored n sz (Suc k) d disk" by (simp add: nbd_live_rel_def)
  note st = device_service_static [OF nr] and keep = live_rel_static [OF rel]
  show "nbd_live_rel L invar room stored n sz k d disk" using rel device_service_weaken by (simp add: nbd_live_rel_def)
  show "\<exists>d'. nb_flush (device_nbd L B) d = (Inr (), d')" using device_flush_live [OF rel] by simp
  show "nbd_live_rel L invar room stored n sz k d' disk \<and> (y = Inr () \<longrightarrow> durable L stored d' disk)"
    if "nb_flush (device_nbd L B) d = (y, d')" for y d'
    using device_service_flush [OF nr that] keep st(3) that by simp
  fix offset
  show "nbd_live_rel L invar room stored n sz k d' disk \<and> (\<forall>bs. x = Inr bs \<longrightarrow> bs = slice (unat offset) (unat offset + len) disk)"
    if "unat offset + len \<le> unat sz" "nb_read_at (device_nbd L B) offset len d = (x, d')" for len x d'
    using device_service_read [OF nr that] keep st(1) [OF that(1)] that by simp
  show "\<exists>bs d'. nb_read_at (device_nbd L B) offset len d = (Inr bs, d')" if "unat offset + len \<le> unat sz" for len
    using device_read_live [OF rel that] by simp
  show "\<exists>j \<le> length bs. nbd_live_rel L invar room stored n sz k d' (splice_at (unat offset) (take j bs) disk) \<and>
      (y = Inr () \<longrightarrow> j = length bs)"
    if "unat offset + length bs \<le> unat sz" "nb_write_at (device_nbd L B) offset bs d = (y, d')" for bs y d'
    using device_service_write [OF nr that] keep st(2) [OF that(1)] that by auto
  show "\<exists>d'. nb_write_at (device_nbd L B) offset bs d = (Inr (), d')" if "unat offset + length bs \<le> unat sz" for bs
    using device_write_live [OF rel that] by simp
qed

context remote_backend
begin

lemma device_service: "disk_service (device_nbd L B) sz (nbd_rel L invar room stored n sz) (durable L stored)"
  by unfold_locales

end

context live_backend
begin

lemma live_device_service: "live_disk_service (device_nbd L B) sz (nbd_live_rel L invar room stored n sz) (durable L stored)"
  by unfold_locales

end

section \<open>The handshake\<close>

definition plain :: "bytes \<Rightarrow> bool" where
  "plain bs = (\<forall>b\<in>set bs. b < 128)"

lemma utf8_lossy_plain: "plain bs \<Longrightarrow> utf8_lossy bs = bs"
proof (induction bs)
  case Nil
  then show ?case by (simp add: utf8_lossy.simps)
next
  case (Cons b bs)
  then have "utf8_first (b # bs) = (1, True)" by (simp add: plain_def utf8_first_def word_less_nat_alt)
  then show ?case using Cons by (subst utf8_lossy.simps) (simp add: plain_def)
qed

lemma utf8_lossy_id: "plain (utf8_lossy bs) \<Longrightarrow> utf8_lossy bs = bs"
proof (induction bs rule: utf8_lossy.induct)
  case (1 bs)
  show ?case
  proof (cases "bs = []")
    case True
    then show ?thesis by (simp add: utf8_lossy.simps)
  next
    case False
    obtain n ok where f: "utf8_first bs = (n, ok)" by force
    have e: "utf8_lossy bs = (if ok then take n bs else [0xEF, 0xBF, 0xBD]) @ utf8_lossy (drop n bs)"
      using False by (subst utf8_lossy.simps) (simp add: f)
    have ok: ok using 1(2) e by (auto simp: plain_def split: if_splits)
    then have "plain (utf8_lossy (drop n bs))" using 1(2) e by (simp add: plain_def)
    from 1(1) [OF False f [symmetric] this] ok e show ?thesis by simp
  qed
qed

lemma utf8_lossy_eq: "plain name \<Longrightarrow> utf8_lossy bs = name \<longleftrightarrow> bs = name"
  using utf8_lossy_plain utf8_lossy_id by metis

text \<open>An option selects the export: by its name, or as the whole of a well-formed \<open>NBD_OPT_GO\<close>.\<close>

definition names_export :: "NbdServerOptions \<Rightarrow> bytes \<Rightarrow> bool" where
  "names_export opts name \<longleftrightarrow> name = [] \<or> name = ascii (op_export_name opts)"

definition go_data :: "bytes \<Rightarrow> bytes \<Rightarrow> bytes" where
  "go_data name info = be32 (of_nat (length name)) @ name @ info"

definition selects :: "NbdServerOptions \<Rightarrow> u32 \<times> bytes \<Rightarrow> bool" where
  "selects opts optn \<longleftrightarrow> (case optn of (option, data) \<Rightarrow>
     option = OPT_EXPORT_NAME \<and> names_export opts data \<or>
     option = OPT_GO \<and> (\<exists>name info. data = go_data name info \<and> length name < 2 ^ 32 \<and> 2 \<le> length info \<and> names_export opts name))"

lemma parse_go:
  "parse_go_export_name data = Some requested \<longleftrightarrow>
   (\<exists>name info. data = go_data name info \<and> length name < 2 ^ 32 \<and> 2 \<le> length info \<and> requested = utf8_lossy name)"
proof
  assume p: "parse_go_export_name data = Some requested"
  let ?n = "unat (un32 (slice 0 4 data))"
  have n: "?n < 2 ^ 32" using unsigned_less [of "un32 (slice 0 4 data)", where ?'a = nat] by simp
  have len: "4 + ?n + 2 \<le> length data" and r: "requested = utf8_lossy (slice 4 (4 + ?n) data)"
    using p by (auto simp: parse_go_export_name_def Let_def split: if_splits)
  have "take 4 data = be32 (un32 (slice 0 4 data))" using len by (simp add: slice_def u32_field.enc_dec)
  then have "data = go_data (slice 4 (4 + ?n) data) (drop (4 + ?n) data)"
    using len by (simp add: go_data_def slice_def) (metis append_take_drop_id drop_drop add.commute)
  then show "\<exists>name info. data = go_data name info \<and> length name < 2 ^ 32 \<and> 2 \<le> length info \<and> requested = utf8_lossy name"
    using n len r by (intro exI [of _ "slice 4 (4 + ?n) data"] exI [of _ "drop (4 + ?n) data"]) auto
next
  assume "\<exists>name info. data = go_data name info \<and> length name < 2 ^ 32 \<and> 2 \<le> length info \<and> requested = utf8_lossy name"
  then obtain name info where d: "data = go_data name info" "length name < 2 ^ 32" "2 \<le> length info" "requested = utf8_lossy name"
    by blast
  have "slice 0 4 data = be32 (of_nat (length name))" by (simp add: d(1) go_data_def slice_def)
  then have "unat (un32 (slice 0 4 data)) = length name" using d(2) by (simp add: unsigned_of_nat take_bit_nat_eq_self)
  then show "parse_go_export_name data = Some requested"
    using d by (simp add: parse_go_export_name_def Let_def go_data_def slice_def)
qed

lemma handle_option_verdict:
  assumes plain: "plain (ascii (op_export_name opts))"
  shows "if selects opts (option, data) then \<exists>c'. handle_option opts option data c = (Inr True, c')
    else if option \<in> {OPT_EXPORT_NAME, OPT_ABORT} then \<exists>e c'. handle_option opts option data c = (Inl e, c')
    else \<exists>c'. handle_option opts option data c = (Inr False, c')"
proof -
  have names: "utf8_lossy name = [] \<or> utf8_lossy name = ascii (op_export_name opts) \<longleftrightarrow> names_export opts name" for name
    using utf8_lossy_eq [OF plain] utf8_lossy_eq [of "[]"] by (simp add: names_export_def plain_def)
  show ?thesis
  proof (cases "option = OPT_GO")
    case True
    have "selects opts (option, data) \<longleftrightarrow> (\<exists>requested. parse_go_export_name data = Some requested \<and>
      (requested = [] \<or> requested = ascii (op_export_name opts)))"
      using True by (simp add: selects_def opt_defs parse_go flip: names) blast
    then show ?thesis using True
      by (auto simp: handle_option_def opt_defs bnd_apply split: option.splits)
  next
    case False
    then have "selects opts (option, data) \<longleftrightarrow> option = OPT_EXPORT_NAME \<and> names_export opts data"
      by (simp add: selects_def)
    then show ?thesis using False by (auto simp: handle_option_def opt_defs bnd_apply Let_def names)
  qed
qed

definition options_bytes :: "(u32 \<times> bytes) list \<Rightarrow> bytes" where
  "options_bytes optns = concat (map (\<lambda>(option, data). option_bytes option data) optns)"

definition refused :: "NbdServerOptions \<Rightarrow> u32 \<times> bytes \<Rightarrow> bool" where
  "refused opts optn \<longleftrightarrow> \<not> selects opts optn \<and> fst optn \<notin> {OPT_EXPORT_NAME, OPT_ABORT} \<and> length (snd optn) < 2 ^ 32"

lemma negotiate_loop_sound:
  assumes plain: "plain (ascii (op_export_name opts))" and "negotiate_loop opts c = (Inr (), c')"
  shows "\<exists>optns optn. cn_input c = options_bytes optns @ option_bytes (fst optn) (snd optn) @ cn_input c' \<and>
    (\<forall>q\<in>set optns. refused opts q) \<and> selects opts optn \<and> length (snd optn) < 2 ^ 32"
  using assms(2)
proof (induction "length (cn_input c)" arbitrary: c rule: less_induct)
  case less
  obtain q c1 where ro: "on_input read_option c = (q, c1)" by force
  note fr = on_input_frame [OF ro]
  obtain option data where q: "q = Inr (option, data)"
    using less.prems ro by (cases q) (auto simp: negotiate_loop.simps)
  have inp: "cn_input c = option_bytes option data @ cn_input c1 \<and> length data < 2 ^ 32"
    using fr q read_option_Inr by blast
  obtain y c2 where ho: "handle_option opts option data c1 = (y, c2)" by force
  have same: "cn_input c2 = cn_input c1" using handle_option_frame [OF ho] by simp
  obtain over where y: "y = Inr over" using less.prems ro q ho by (cases y) (auto simp: negotiate_loop.simps)
  note verdict = handle_option_verdict [OF plain, of option data c1]
  show ?case
  proof (cases over)
    case True
    then have "c' = c2" "selects opts (option, data)"
      using less.prems ro q ho y verdict by (auto simp: negotiate_loop.simps split: if_splits)
    then show ?thesis using inp same by (intro exI [of _ "[]"] exI [of _ "(option, data)"]) (simp add: options_bytes_def)
  next
    case False
    then have "negotiate_loop opts c2 = (Inr (), c')" using less.prems ro q ho y by (simp add: negotiate_loop.simps)
    moreover have "length (cn_input c2) < length (cn_input c)" using inp same by (simp add: option_bytes_length)
    ultimately obtain optns optn where ih: "cn_input c2 = options_bytes optns @ option_bytes (fst optn) (snd optn) @ cn_input c'"
      "\<forall>q\<in>set optns. refused opts q" "selects opts optn" "length (snd optn) < 2 ^ 32"
      using less.hyps by blast
    have "refused opts (option, data)" using False ho y verdict inp by (auto simp: refused_def split: if_splits)
    then show ?thesis using ih inp same
      by (intro exI [of _ "(option, data) # optns"] exI [of _ optn]) (simp add: options_bytes_def)
  qed
qed

lemma negotiate_loop_complete:
  assumes plain: "plain (ascii (op_export_name opts))" and "\<forall>q\<in>set optns. refused opts q"
    and sel: "selects opts optn" "length (snd optn) < 2 ^ 32"
    and "cn_input c = options_bytes optns @ option_bytes (fst optn) (snd optn) @ rest"
  shows "\<exists>c'. negotiate_loop opts c = (Inr (), c') \<and> cn_input c' = rest"
  using assms(2,5)
proof (induction optns arbitrary: c)
  case Nil
  let ?c = "c\<lparr>cn_input := rest\<rparr>"
  have "on_input read_option c = (Inr optn, ?c)"
    using Nil sel(2) by (simp add: on_input_def options_bytes_def read_option_bytes)
  moreover obtain c' where ho: "handle_option opts (fst optn) (snd optn) ?c = (Inr True, c')"
    using handle_option_verdict [OF plain, of "fst optn" "snd optn" ?c] sel(1) by auto
  ultimately show ?case using handle_option_frame [OF ho] by (subst negotiate_loop.simps) (auto split: prod.split)
next
  case (Cons q optns)
  let ?rest = "options_bytes optns @ option_bytes (fst optn) (snd optn) @ rest"
  let ?c = "c\<lparr>cn_input := ?rest\<rparr>"
  have q: "refused opts q" using Cons.prems by simp
  have "on_input read_option c = (Inr q, ?c)"
    using Cons.prems q by (cases q) (simp add: on_input_def options_bytes_def read_option_bytes refused_def)
  moreover obtain c1 where ho: "handle_option opts (fst q) (snd q) ?c = (Inr False, c1)"
    using handle_option_verdict [OF plain, of "fst q" "snd q" ?c] q by (auto simp: refused_def)
  moreover obtain c' where "negotiate_loop opts c1 = (Inr (), c')" "cn_input c' = rest"
    using Cons.IH [of c1] Cons.prems handle_option_frame [OF ho] by auto
  ultimately show ?case by (subst negotiate_loop.simps) (auto split: prod.split)
qed

lemma negotiate_loop_backend:
  "negotiate_loop opts c = (x, c') \<Longrightarrow>
   cn_backend c' = cn_backend c \<and> (x = Inr () \<longrightarrow> (\<exists>hs. cn_input c = hs @ cn_input c'))"
proof (induction "length (cn_input c)" arbitrary: c rule: less_induct)
  case less
  obtain q c1 where ro: "on_input read_option c = (q, c1)" by force
  note fr = on_input_frame [OF ro]
  show ?case
  proof (cases q)
    case (Inl e)
    then show ?thesis using less.prems ro fr by (auto simp: negotiate_loop.simps)
  next
    case (Inr p)
    obtain option data where p: "p = (option, data)" by force
    have inp: "cn_input c = option_bytes option data @ cn_input c1" using fr Inr p read_option_Inr by blast
    obtain y c2 where ho: "handle_option opts option data c1 = (y, c2)" by force
    note same = handle_option_frame [OF ho]
    have "length (cn_input c2) < length (cn_input c)" using inp same by (simp add: option_bytes_length)
    note ih = less.hyps [OF this]
    show ?thesis using less.prems ro Inr p ho fr same inp ih
      by (auto simp: negotiate_loop.simps split: sum.splits if_splits)
  qed
qed

definition greeting :: bytes where
  "greeting = be64 NBD_MAGIC @ be64 IHAVEOPT @ be16 (HANDSHAKE_FIXED_NEWSTYLE OR HANDSHAKE_NO_ZEROES)"

lemma negotiate_eq:
  "negotiate opts c = bnd (on_input read_u32) (\<lambda>_. negotiate_loop opts) (c\<lparr>cn_output := cn_output c @ greeting\<rparr>)"
  by (simp add: negotiate_def greeting_def bnd_apply)

lemma negotiate_backend:
  assumes "negotiate opts c = (x, c')"
  shows "cn_backend c' = cn_backend c \<and> (x = Inr () \<longrightarrow> (\<exists>hs. cn_input c = hs @ cn_input c'))"
proof -
  obtain q c1 where rd: "on_input read_u32 (c\<lparr>cn_output := cn_output c @ greeting\<rparr>) = (q, c1)" by force
  note fr = on_input_frame [OF rd]
  show ?thesis
  proof (cases q)
    case (Inl e)
    then show ?thesis using assms rd fr by (auto simp: negotiate_eq bnd_apply)
  next
    case (Inr w)
    then have "negotiate_loop opts c1 = (x, c')" using assms rd by (simp add: negotiate_eq bnd_apply)
    then show ?thesis using negotiate_loop_backend [of opts c1 x c'] fr Inr read_int_length(2) [of "cn_input c" q "cn_input c1"] by auto
  qed
qed

section \<open>Properties of the server\<close>

text \<open>
  C29. Reading a request is the inverse of writing one: the server obtains a request exactly from
  its 28 bytes on the wire, whatever the flags, and leaves the bytes that follow; anything else is
  the end of the input or a bad magic number.
\<close>

theorem request_codec:
  "(read_from inp = (Inr r, rest) \<longleftrightarrow> (\<exists>flags. inp = request_bytes flags r @ rest)) \<and>
   (read_from inp = (Inl e, rest) \<longrightarrow>
      e = unexpected_eof \<and> length inp < 28 \<or> e = IoError ''InvalidData'' \<and> take 4 inp \<noteq> be32 REQ_MAGIC)"
proof -
  have "length inp < 28" if e: "read_from inp = (Inl unexpected_eof, rest)"
  proof (rule ccontr)
    assume "\<not> length inp < 28"
    then have "fst (read_from inp) \<noteq> Inl unexpected_eof"
      by (auto simp: read_from_def read_u16_def read_u32_def read_u64_def read_exact_def bnd_apply)
    then show False using e by simp
  qed
  moreover have "take 4 inp \<noteq> be32 REQ_MAGIC" if e: "read_from inp = (Inl (IoError ''InvalidData''), rest)"
    using e by (auto simp: read_from_def read_u32_def bnd_apply read_u16_def read_u64_def read_exact_def split: if_splits)
  ultimately show ?thesis using read_from_request read_from_Inr read_from_Inl by blast
qed

theorem request_codec_witness:
  "read_from (request_bytes 0 \<lparr>rq_command = 1, rq_handle = 7, rq_offset = 4, rq_length = 2\<rparr> @ [5, 6]) =
     (Inr \<lparr>rq_command = 1, rq_handle = 7, rq_offset = 4, rq_length = 2\<rparr>, [5, 6])"
  using request_codec by blast

text \<open>
  C30. The bounds check is exact on machine integers: it accepts a request exactly if its last byte
  lies inside the device, also where offset plus length exceeds 64 bits.
\<close>

theorem bounds_ok_exact: "bounds_ok device_size offset len \<longleftrightarrow> unat offset + unat len \<le> unat device_size"
  by (rule bounds_ok_unat)

text \<open>
  Discarding a payload in pieces of 8192 bytes is equivalent to reading it at once: the same
  bytes are consumed and the same error is reported.
\<close>

theorem discard_payload_reads_all:
  "discard_payload len inp = (case read_exact (unat len) inp of (Inl e, rest) \<Rightarrow> (Inl e, rest) | (Inr _, rest) \<Rightarrow> (Inr (), rest))"
  by (simp add: discard_payload_def discard_loop_read bnd_apply split: prod.split sum.split)

text \<open>
  C28. The handshake succeeds exactly for the clients that send four bytes of flags, any number of
  options that neither abort nor select the export (each is answered and skipped), and then an
  option that selects it: its name or the empty name in \<open>NBD_OPT_EXPORT_NAME\<close> or in a well-formed
  \<open>NBD_OPT_GO\<close>. The bytes after that option are left for the transmission phase.
\<close>

theorem negotiate_accepts:
  assumes "plain (ascii (op_export_name opts))"
  shows "(\<exists>c'. negotiate opts c = (Inr (), c') \<and> cn_input c' = rest) \<longleftrightarrow>
    (\<exists>flags optns optn. cn_input c = be32 flags @ options_bytes optns @ option_bytes (fst optn) (snd optn) @ rest \<and>
       (\<forall>q\<in>set optns. refused opts q) \<and> selects opts optn \<and> length (snd optn) < 2 ^ 32)"
    (is "?ok \<longleftrightarrow> ?form")
proof
  assume ?ok
  then obtain c' where n: "negotiate opts c = (Inr (), c')" "cn_input c' = rest" by blast
  then obtain w c1 where rd: "on_input read_u32 (c\<lparr>cn_output := cn_output c @ greeting\<rparr>) = (Inr w, c1)"
    and nl: "negotiate_loop opts c1 = (Inr (), c')" by (auto simp: negotiate_eq elim: bnd_InrE)
  have "cn_input c = be32 w @ cn_input c1" using on_input_frame [OF rd] read_int_length(2) [of "cn_input c" _ "cn_input c1"] by auto
  then show ?form using negotiate_loop_sound [OF assms nl] n(2) by auto
next
  assume ?form
  then obtain flags optns optn where f: "cn_input c = be32 flags @ options_bytes optns @ option_bytes (fst optn) (snd optn) @ rest"
    "\<forall>q\<in>set optns. refused opts q" "selects opts optn" "length (snd optn) < 2 ^ 32" by blast
  let ?c = "c\<lparr>cn_output := cn_output c @ greeting, cn_input := options_bytes optns @ option_bytes (fst optn) (snd optn) @ rest\<rparr>"
  have "on_input read_u32 (c\<lparr>cn_output := cn_output c @ greeting\<rparr>) = (Inr flags, ?c)" by (simp add: on_input_def f(1))
  moreover obtain c' where "negotiate_loop opts ?c = (Inr (), c')" "cn_input c' = rest"
    using negotiate_loop_complete [OF assms f(2-4), of ?c rest] by auto
  ultimately show ?ok by (auto simp: negotiate_eq bnd_apply)
qed

theorem negotiate_accepts_witness:
  "\<exists>c'. negotiate options_default \<lparr>cn_input = be32 0 @ options_bytes [(8, [])] @ option_bytes 7 (go_data (ascii ''tgdrive'') [0, 0]) @ [9],
       cn_output = [], cn_backend = ()\<rparr> = (Inr (), c') \<and> cn_input c' = [9]"
proof -
  have p: "plain (ascii (op_export_name options_default))" by (simp add: plain_def options_default_def ascii_def)
  have "refused options_default (8, [])" by (simp add: refused_def selects_def opt_defs)
  moreover have "selects options_default (7, go_data (ascii ''tgdrive'') [0, 0])"
    unfolding selects_def
    by (simp add: opt_defs names_export_def options_default_def) (rule exI [of _ "ascii ''tgdrive''"], rule exI [of _ "[0, 0]"], simp add: ascii_def)
  moreover have "length (go_data (ascii ''tgdrive'') [0, 0]) < 2 ^ 32" by (simp add: go_data_def ascii_def)
  ultimately show ?thesis
    by (subst negotiate_accepts [OF p]) (rule exI [of _ 0], rule exI [of _ "[(8, [])]"], rule exI [of _ "(7, go_data (ascii ''tgdrive'') [0, 0])"], simp)
qed

text \<open>
  C9. For arbitrary client bytes the server behaves as the disk behind it. Either the handshake
  fails and the disk is untouched, or the bytes after it are a sequence of messages and a rest,
  the answers are those of the disk to these messages in order, and the disk afterwards is the one
  they lead to; when the server stops in the middle of a message, at most a prefix of the data of a
  write is written and nothing is answered. A connection that ends normally has answered every
  complete message, and after a disconnect the data no longer depends on the local machine.
\<close>

theorem connection_refines_disk:
  assumes "remote_backend B invar room stored" "digest32 L" "json_round_trips L"
    and "ready L invar room stored n (length (cn_input c)) g (cn_backend c) disk"
    and "op_device_size opts = bm_device_size (bd_map (cn_backend c))"
    and "handle_client opts (device_nbd L B) c = (x, c')"
  shows "(\<exists>e. negotiate opts c = (Inl e, c') \<and> x = Inl e \<and> cn_backend c' = cn_backend c) \<or>
    (\<exists>c1 msgs tail disk'. negotiate opts c = (Inr (), c1) \<and>
       connection_trace (op_device_size opts) disk (cn_input c1) msgs tail disk' \<and>
       cn_output c' = cn_output c1 @ answers (op_device_size opts) disk msgs \<and>
       dev_rel L invar stored (cn_backend c') disk' \<and>
       (x = Inr () \<longrightarrow> disk' = foldl (after (op_device_size opts)) disk msgs \<and>
          (if msgs \<noteq> [] \<and> command (last msgs) = CMD_DISC then durable L stored (cn_backend c') disk'
           else fst (read_from tail) = Inl unexpected_eof)))"
proof (cases "fst (negotiate opts c)")
  case (Inl e)
  then show ?thesis using assms(6) negotiate_backend [of opts c "Inl e" c']
    by (cases "negotiate opts c") (auto simp: handle_client_def bnd_apply)
next
  case (Inr u)
  let ?sz = "op_device_size opts"
  note sv = remote_backend.device_service [OF assms(1), of L ?sz n]
  obtain c1 where n: "negotiate opts c = (Inr (), c1)" using Inr by (cases "negotiate opts c") auto
  have "length (cn_input c1) \<le> length (cn_input c)" "cn_backend c1 = cn_backend c" using negotiate_backend [OF n] by auto
  moreover have "nbd_rel L invar room stored n ?sz (length (cn_input c)) (cn_backend c) disk"
    using assms(2-5) by (auto simp: nbd_rel_def)
  ultimately have rel: "nbd_rel L invar room stored n ?sz (length (cn_input c1)) (cn_backend c1) disk"
    using disk_service.rel_le [OF sv] by simp
  have "transmission opts (device_nbd L B) c1 = (x, c')" using assms(6) n by (simp add: handle_client_def bnd_apply)
  from disk_service.transmission_refines [OF sv rel refl this] show ?thesis
    using n by (fastforce simp: nbd_rel_def ready_def)
qed

text \<open>The bytes the server sends to a client that selects the export with \<open>NBD_OPT_GO\<close>.\<close>

definition go_reply :: "NbdServerOptions \<Rightarrow> bytes" where
  "go_reply opts = option_reply_bytes OPT_GO OPT_REP_INFO (be16 INFO_EXPORT @ be64 (op_device_size opts) @ be16 transmission_flags) @
     option_reply_bytes OPT_GO OPT_REP_ACK []"

lemma negotiate_go:
  assumes "plain (ascii (op_export_name opts))" "names_export opts name" "length name < 2 ^ 32 - 6"
    and "cn_input c = be32 flags @ option_bytes OPT_GO (go_data name [0, 0]) @ rest"
  shows "negotiate opts c = (Inr (), c\<lparr>cn_input := rest, cn_output := cn_output c @ greeting @ go_reply opts\<rparr>)"
proof -
  have p: "parse_go_export_name (go_data name [0, 0]) = Some (utf8_lossy name)"
    using assms(3) by (subst parse_go) (rule exI [of _ name], rule exI [of _ "[0, 0]"], simp)
  have "plain name" using assms(1,2) by (auto simp: names_export_def plain_def)
  then have name: "utf8_lossy name = [] \<or> utf8_lossy name = ascii (op_export_name opts)"
    using assms(2) by (simp add: utf8_lossy_plain names_export_def)
  have rd: "read_option (option_bytes OPT_GO (go_data name [0, 0]) @ rest) = (Inr (OPT_GO, go_data name [0, 0]), rest)"
    using assms(3) by (intro read_option_bytes) (simp add: go_data_def)
  have ho: "handle_option opts OPT_GO (go_data name [0, 0]) s = (Inr True, s\<lparr>cn_output := cn_output s @ go_reply opts\<rparr>)" for s :: "'a conn"
    using name by (auto simp: handle_option_def p bnd_apply go_reply_def) (simp_all add: opt_defs)
  show ?thesis
    by (simp add: negotiate_eq bnd_apply on_input_def assms(4) negotiate_loop.simps rd ho)
qed

text \<open>
  C10. A client session from greeting to disconnect, over an available backend and a device with
  fewer than 4096 objects: the server sends the greeting, the export information and exactly the
  answers of the abstract disk to the client's messages, in order, ends normally, and leaves every
  written byte readable from the backend.
\<close>

theorem session_served:
  assumes "live_backend B invar room stored L" "digest32 L" "json_round_trips L"
    and "ready L invar room stored n (Suc (length msgs)) g (cn_backend c) disk"
    and "length (m_objects (bd_manifest (cn_backend c))) < 4096" "commits_live invar room n (bd_committer (cn_backend c))"
    and "op_device_size opts = bm_device_size (bd_map (cn_backend c))"
    and "plain (ascii (op_export_name opts))" "names_export opts name" "length name < 2 ^ 32 - 6"
    and "\<forall>msg\<in>set msgs. message_ok msg \<and> command msg \<noteq> CMD_DISC" "message_ok disc" "command disc = CMD_DISC"
    and "cn_input c = be32 flags @ option_bytes OPT_GO (go_data name [0, 0]) @ concat (map wire msgs) @ wire disc @ rest"
  shows "\<exists>c'. handle_client opts (device_nbd L B) c = (Inr (), c') \<and> cn_input c' = rest \<and>
    cn_output c' = cn_output c @ greeting @ go_reply opts @ answers (op_device_size opts) disk msgs \<and>
    dev_rel L invar stored (cn_backend c') (foldl (after (op_device_size opts)) disk msgs) \<and>
    durable L stored (cn_backend c') (foldl (after (op_device_size opts)) disk msgs)"
proof -
  let ?sz = "op_device_size opts"
  let ?c = "c\<lparr>cn_input := concat (map wire msgs) @ wire disc @ rest, cn_output := cn_output c @ greeting @ go_reply opts\<rparr>"
  have n: "negotiate opts c = (Inr (), ?c)" by (rule negotiate_go [OF assms(8-10,14)])
  have rel: "nbd_live_rel L invar room stored n ?sz (Suc (length msgs)) (cn_backend ?c) disk"
    using assms(2-7) by (auto simp: nbd_live_rel_def nbd_rel_def)
  obtain c' where c': "transmission opts (device_nbd L B) ?c = (Inr (), c')" "cn_input c' = rest"
    "cn_output c' = cn_output ?c @ answers ?sz disk msgs"
    "nbd_live_rel L invar room stored n ?sz 0 (cn_backend c') (foldl (after ?sz) disk msgs)"
    "durable L stored (cn_backend c') (foldl (after ?sz) disk msgs)"
    using live_disk_service.session_answered [OF live_backend.live_device_service [OF assms(1)] rel refl assms(11-13), of rest] by auto
  then have "dev_rel L invar stored (cn_backend c') (foldl (after ?sz) disk msgs)"
    by (auto simp: nbd_live_rel_def nbd_rel_def ready_def)
  then show ?thesis using n c' by (simp add: handle_client_def bnd_apply)
qed

text \<open>A client that writes three bytes, reads them back and disconnects.\<close>

definition toy_options :: NbdServerOptions where
  "toy_options = options_default\<lparr>op_device_size := 67108864\<rparr>"

definition toy_msgs :: "message list" where
  "toy_msgs = [(0, \<lparr>rq_command = 1, rq_handle = 1, rq_offset = 131070, rq_length = 3\<rparr>, [1, 2, 3]),
     (0, \<lparr>rq_command = 0, rq_handle = 2, rq_offset = 131070, rq_length = 3\<rparr>, [])]"

definition toy_disc :: message where
  "toy_disc = (0, \<lparr>rq_command = 2, rq_handle = 3, rq_offset = 0, rq_length = 0\<rparr>, [])"

definition toy_conn :: "MemoryBackend BlockDevice conn" where
  "toy_conn = \<lparr>cn_input = be32 0 @ option_bytes OPT_GO (go_data [] [0, 0]) @ concat (map wire toy_msgs) @ wire toy_disc @ [9],
     cn_output = [], cn_backend = toy_device\<rparr>"

lemma toy_plain: "plain (ascii (op_export_name toy_options))"
  by (simp add: plain_def toy_options_def options_default_def ascii_def)

lemma toy_answers:
  "answers 67108864 (replicate (512 * 131072) 0) toy_msgs = reply_bytes 0 1 @ reply_bytes 0 2 @ [1, 2, 3]"
  by (simp add: toy_msgs_def answer_def after_def cmd_defs slice_def splice_at_def)

theorem session_served_witness:
  "\<exists>c'. handle_client toy_options (device_nbd (toy_libs True) (memory_backend (toy_libs True))) toy_conn = (Inr (), c') \<and>
     cn_output c' = greeting @ go_reply toy_options @ reply_bytes 0 1 @ reply_bytes 0 2 @ [1, 2, 3]"
proof -
  have r: "ready (toy_libs True) memory_invar memory_room mb_messages 0 (Suc (length toy_msgs)) 0 (cn_backend toy_conn) (replicate (512 * 131072) 0)"
  proof -
    have "Suc (length toy_msgs) = 3" by (simp add: toy_msgs_def)
    then show ?thesis using toy_ready [of 3] by (simp only: toy_conn_def conn.select_convs) simp
  qed
  have ok: "\<forall>msg\<in>set toy_msgs. message_ok msg \<and> command msg \<noteq> CMD_DISC" "message_ok toy_disc" "command toy_disc = CMD_DISC"
    by (simp_all add: toy_msgs_def toy_disc_def message_ok_def command_def cmd_defs)
  have sel: "length (m_objects (bd_manifest (cn_backend toy_conn))) < 4096" "commits_live memory_invar memory_room 0 (bd_committer (cn_backend toy_conn))"
    "op_device_size toy_options = bm_device_size (bd_map (cn_backend toy_conn))" "op_device_size toy_options = 67108864"
    by (simp_all add: toy_conn_def toy_sel manifest_empty_def toy_options_def)
  have inp: "cn_input toy_conn = be32 0 @ option_bytes OPT_GO (go_data [] [0, 0]) @ concat (map wire toy_msgs) @ wire toy_disc @ [9]"
    "cn_output toy_conn = []" by (simp_all add: toy_conn_def)
  from session_served [OF mem_live.live_backend_axioms [of "toy_libs True" "toy_libs True"] _ _ r sel(1-3) toy_plain _ _ ok inp(1)]
  show ?thesis using toy_answers by (auto simp: names_export_def inp(2) sel(4))
qed

theorem connection_refines_disk_witness:
  "\<exists>x c' msgs tail disk'. handle_client toy_options (device_nbd (toy_libs True) (memory_backend (toy_libs True))) toy_conn = (x, c') \<and>
     connection_trace 67108864 (replicate (512 * 131072) 0) (concat (map wire toy_msgs) @ wire toy_disc @ [9]) msgs tail disk' \<and>
     dev_rel (toy_libs True) memory_invar mb_messages (cn_backend c') disk'"
proof -
  obtain x c' where h: "handle_client toy_options (device_nbd (toy_libs True) (memory_backend (toy_libs True))) toy_conn = (x, c')" by force
  have "length (cn_input toy_conn) = 114"
    by (simp add: toy_conn_def toy_msgs_def toy_disc_def wire_def request_bytes_def option_bytes_def go_data_def)
  then have r: "ready (toy_libs True) memory_invar memory_room mb_messages 0 (length (cn_input toy_conn)) 0 (cn_backend toy_conn) (replicate (512 * 131072) 0)"
    using toy_ready [of 114] by (simp add: toy_conn_def)
  have sz: "op_device_size toy_options = bm_device_size (bd_map (cn_backend toy_conn))" "op_device_size toy_options = 67108864"
    by (simp_all add: toy_conn_def toy_sel toy_options_def)
  have inp: "cn_input toy_conn = be32 0 @ option_bytes OPT_GO (go_data [] [0, 0]) @ concat (map wire toy_msgs) @ wire toy_disc @ [9]"
    by (simp add: toy_conn_def)
  note neg = negotiate_go [OF toy_plain _ _ inp, simplified names_export_def, simplified]
  from connection_refines_disk [OF mem.remote_backend_axioms [of "toy_libs True"] _ _ r sz(1) h] h neg show ?thesis
    by (auto simp: sz(2))
qed

end
