(* ===== verification/Telegram.thy ===== *)
theory Telegram
  imports Backend
begin

text \<open>
  The Telegram storage (\<open>crates/tgdrive-telegram/src/client.rs\<close>): error classification, peer
  resolution, the superblock messages, manifests and manifest trees as messages, and the
  implementations of \<open>RemoteBackend\<close> and \<open>ManifestCommitter\<close>. The client library is a parameter:
  a record of the operations the code calls, on a state that stands for the outside world. Handles
  of the library (files, peers) are opaque numbers; an asynchronous iterator is the list of items
  it yields, an error where it fails. The semaphores limit concurrent calls and change no result.
\<close>

section \<open>The client library\<close>

type_synonym ('s, 'a) ist = "'s \<Rightarrow> (InvocationError + 'a) \<times> 's"

record Message =
  msg_id :: i32
  msg_text :: string
  msg_media :: "nat option"

record PeerRef =
  pr_id :: nat
  pr_auth :: nat

record 'c client =
  upload_stream :: "bytes \<Rightarrow> nat \<Rightarrow> string \<Rightarrow> ('c, nat) ist"
  send_message :: "PeerRef \<Rightarrow> string \<Rightarrow> nat option \<Rightarrow> ('c, Message) ist"
  pin_message :: "PeerRef \<Rightarrow> i32 \<Rightarrow> ('c, unit) ist"
  get_pinned_message :: "PeerRef \<Rightarrow> ('c, Message option) ist"
  iter_messages :: "PeerRef \<Rightarrow> nat \<Rightarrow> 'c \<Rightarrow> (InvocationError + Message) list \<times> 'c"
  client_delete_messages :: "PeerRef \<Rightarrow> i32 list \<Rightarrow> ('c, nat) ist"
  client_get_messages_by_id :: "PeerRef \<Rightarrow> i32 list \<Rightarrow> ('c, Message option list) ist"
  iter_download :: "nat \<Rightarrow> 'c \<Rightarrow> (InvocationError + bytes) list \<times> 'c"
  iter_dialogs :: "'c \<Rightarrow> (InvocationError + (string option \<times> PeerRef)) list \<times> 'c"
  rpc_is :: "RpcError \<Rightarrow> string \<Rightarrow> bool"
  from_bot_api_dialog_id :: "i64 \<Rightarrow> nat option"
  bot_api_dialog_id :: "nat \<Rightarrow> i64"
  bare_id :: "nat \<Rightarrow> i64"
  to_ambient_ref :: "nat \<Rightarrow> PeerRef"
  auth_from_hash :: "i64 \<Rightarrow> nat"
  auth_hash :: "nat \<Rightarrow> i64"
  utc_now :: "'c \<Rightarrow> int"
  env_var :: "string \<Rightarrow> string option"
  open_session :: "string \<Rightarrow> 'c \<Rightarrow> unit res"

text \<open>The operator \<open>?\<close> on a client call turns its error into an \<open>anyhow::Error\<close>.\<close>

definition call :: "('s, 'a) ist \<Rightarrow> ('s, 'a) st" where
  "call m s = (case m s of (Inl e, t) \<Rightarrow> (Inl (Invocation e), t) | (Inr x, t) \<Rightarrow> (Inr x, t))"

section \<open>Error classification\<close>

datatype TelegramErrorKind = Retryable | RateLimited | AuthenticationError | Corruption | NotFound | Permanent

definition classify_invocation_error :: "(RpcError \<Rightarrow> string \<Rightarrow> bool) \<Rightarrow> InvocationError \<Rightarrow> TelegramErrorKind" where
  "classify_invocation_error matches error =
     (case error of
        Rpc rpc \<Rightarrow>
          if rpc_code rpc = 420 then RateLimited
          else if matches rpc ''AUTH_KEY_*'' \<or> matches rpc ''SESSION_*'' \<or> matches rpc ''USER_DEACTIVATED*'' \<or> matches rpc ''PHONE_*''
          then AuthenticationError
          else if 500 \<le> rpc_code rpc then Retryable
          else Permanent
      | Io \<Rightarrow> Retryable
      | Dropped \<Rightarrow> Retryable
      | Transport \<Rightarrow> Retryable
      | Authentication \<Rightarrow> AuthenticationError
      | InvalidDc \<Rightarrow> AuthenticationError
      | Deserialize \<Rightarrow> Corruption)"

fun error_chain :: "err \<Rightarrow> err list" where
  "error_chain (Context msg e) = Context msg e # error_chain e"
| "error_chain e = [e]"

fun classify_chain :: "(RpcError \<Rightarrow> string \<Rightarrow> bool) \<Rightarrow> err list \<Rightarrow> TelegramErrorKind option" where
  "classify_chain matches [] = None"
| "classify_chain matches (cause # causes) =
     (case cause of
        Invocation invocation \<Rightarrow> Some (classify_invocation_error matches invocation)
      | Format _ \<Rightarrow> Some Corruption
      | _ \<Rightarrow> classify_chain matches causes)"

definition contains :: "string \<Rightarrow> string \<Rightarrow> bool" where
  "contains text pat = list_ex (\<lambda>k. prefix pat (drop k text)) [0..<Suc (length text)]"

text \<open>\<open>to_string\<close> of an error is its outermost message; \<open>display\<close> stands for the libraries' own errors.\<close>

definition error_text :: "(err \<Rightarrow> string) \<Rightarrow> err \<Rightarrow> string" where
  "error_text display e = (case e of Anyhow msg \<Rightarrow> msg | Context msg _ \<Rightarrow> msg | _ \<Rightarrow> display e)"

definition classify_error :: "(RpcError \<Rightarrow> string \<Rightarrow> bool) \<Rightarrow> (err \<Rightarrow> string) \<Rightarrow> err \<Rightarrow> TelegramErrorKind" where
  "classify_error matches display error =
     (case classify_chain matches (error_chain error) of
        Some kind \<Rightarrow> kind
      | None \<Rightarrow>
          let text = error_text display error in
          if contains text ''checksum'' \<or> contains text ''wrong object'' \<or> contains text ''wrong generation'' \<or> contains text ''has no media''
          then Corruption
          else if contains text ''not found'' then NotFound
          else Permanent)"

section \<open>The storage\<close>

record TelegramClientConfig =
  tc_api_id :: i32
  tc_api_hash :: string
  tc_session_path :: string
  tc_channel_id :: i64
  tc_channel_access_hash :: "i64 option"
  tc_channel_title :: "string option"

record TelegramStorage =
  ts_config :: TelegramClientConfig
  ts_peer :: PeerRef

fun find_dialog :: "string \<Rightarrow> (InvocationError + (string option \<times> PeerRef)) list \<Rightarrow> PeerRef option res" where
  "find_dialog title [] = Inr None"
| "find_dialog title (item # items) =
     (case item of
        Inl e \<Rightarrow> Inl (Invocation e)
      | Inr (name, peer) \<Rightarrow> if name = Some title then Inr (Some peer) else find_dialog title items)"

definition invalid_channel :: "TelegramClientConfig \<Rightarrow> err" where
  "invalid_channel config = Anyhow (''invalid Telegram channel id '' @ show_int (sint (tc_channel_id config)))"

definition resolve_storage_peer :: "'c client \<Rightarrow> TelegramClientConfig \<Rightarrow> ('c, PeerRef) st" where
  "resolve_storage_peer C config =
     (case tc_channel_access_hash config of
        Some access_hash \<Rightarrow>
          bnd (lift (ok_or (from_bot_api_dialog_id C (tc_channel_id config)) (invalid_channel config))) (\<lambda>i.
          ret \<lparr>pr_id = i, pr_auth = auth_from_hash C access_hash\<rparr>)
      | None \<Rightarrow>
          bnd (case tc_channel_title config of
                 None \<Rightarrow> ret None
               | Some title \<Rightarrow> (\<lambda>c. case iter_dialogs C c of (items, c') \<Rightarrow> (find_dialog title items, c'))) (\<lambda>found.
          case found of
            Some peer \<Rightarrow> ret peer
          | None \<Rightarrow>
              bnd (lift (ok_or (from_bot_api_dialog_id C (tc_channel_id config)) (invalid_channel config))) (\<lambda>i.
              ret (to_ambient_ref C i))))"

text \<open>
  A client is made from its session file; \<open>open_session\<close> is the outcome of creating the directory of
  the file and of \<open>FileSession::open\<close> (theory \<open>Session\<close>). What follows in \<open>connect_client\<close> does not fail.
\<close>

definition connect_client :: "'c client \<Rightarrow> TelegramClientConfig \<Rightarrow> ('c, unit) st" where
  "connect_client C config c = (open_session C (tc_session_path config) c, c)"

definition storage_connect :: "'c client \<Rightarrow> TelegramClientConfig \<Rightarrow> ('c, TelegramStorage) st" where
  "storage_connect C config =
     bnd (connect_client C config) (\<lambda>_.
     bnd (resolve_storage_peer C config) (\<lambda>peer.
     ret \<lparr>ts_config = config, ts_peer = peer\<rparr>))"

record ResolvedChannel =
  rc_bot_api_chat_id :: i64
  rc_bare_channel_id :: i64
  rc_access_hash :: i64
  rc_title :: "string option"

definition resolve_channel :: "'c client \<Rightarrow> TelegramStorage \<Rightarrow> ResolvedChannel" where
  "resolve_channel C S =
     \<lparr>rc_bot_api_chat_id = bot_api_dialog_id C (pr_id (ts_peer S)), rc_bare_channel_id = bare_id C (pr_id (ts_peer S)),
      rc_access_hash = auth_hash C (pr_auth (ts_peer S)), rc_title = tc_channel_title (ts_config S)\<rparr>"

section \<open>Objects as documents\<close>

definition telegram_send_object ::
  "libs \<Rightarrow> 'c client \<Rightarrow> TelegramStorage \<Rightarrow> u64 \<Rightarrow> u64 \<Rightarrow> bytes \<Rightarrow> string \<Rightarrow> ('c, RemoteObjectRef) st" where
  "telegram_send_object L C S object_id generation payload sha =
     bnd (lift (decode L payload object_id generation)) (\<lambda>_.
     let name = ''tgdrive-'' @ hex16 object_id @ ''-'' @ hex16 generation @ ''.bin'' in
     bnd (call (upload_stream C payload (length payload) name)) (\<lambda>uploaded.
     let caption = ''TGDRIVE object='' @ show_nat (unat object_id) @ '' generation='' @ show_nat (unat generation) @ '' sha256='' @ sha in
     bnd (call (send_message C (ts_peer S) caption (Some uploaded))) (\<lambda>message.
     ret \<lparr>ref_chat_id = bot_api_dialog_id C (pr_id (ts_peer S)), ref_message_id = msg_id message, ref_object_id = object_id,
          ref_generation = generation, ref_sha256 = sha\<rparr>)))"

fun join_chunks :: "(InvocationError + bytes) list \<Rightarrow> bytes res" where
  "join_chunks [] = Inr []"
| "join_chunks (item # items) =
     (case item of Inl e \<Rightarrow> Inl (Invocation e) | Inr chunk \<Rightarrow> rbind (join_chunks items) (\<lambda>rest. Inr (chunk @ rest)))"

definition download_message_media :: "'c client \<Rightarrow> Message \<Rightarrow> ('c, bytes) st" where
  "download_message_media C message =
     bnd (lift (ok_or (msg_media message) (Anyhow (''message '' @ show_int (sint (msg_id message)) @ '' has no media'')))) (\<lambda>media.
     (\<lambda>c. case iter_download C media c of (items, c') \<Rightarrow> (join_chunks items, c')))"

fun download_all :: "'c client \<Rightarrow> Message option list \<Rightarrow> ('c, bytes option list) st" where
  "download_all C [] = ret []"
| "download_all C (message # messages) =
     bnd (case message of None \<Rightarrow> ret None | Some m \<Rightarrow> bnd (download_message_media C m) (\<lambda>bs. ret (Some bs))) (\<lambda>x.
     bnd (download_all C messages) (\<lambda>xs. ret (x # xs)))"

fun get_chunks :: "'c client \<Rightarrow> TelegramStorage \<Rightarrow> i32 list list \<Rightarrow> ('c, bytes option list) st" where
  "get_chunks C S [] = ret []"
| "get_chunks C S (chunk # rest) =
     bnd (call (client_get_messages_by_id C (ts_peer S) chunk)) (\<lambda>messages.
     bnd (download_all C messages) (\<lambda>out.
     bnd (get_chunks C S rest) (\<lambda>outs. ret (out @ outs))))"

definition telegram_get_messages_by_id :: "'c client \<Rightarrow> TelegramStorage \<Rightarrow> i32 list \<Rightarrow> ('c, bytes option list) st" where
  "telegram_get_messages_by_id C S ids = get_chunks C S (chunks 100 ids)"

definition telegram_fetch_object :: "libs \<Rightarrow> 'c client \<Rightarrow> TelegramStorage \<Rightarrow> RemoteObjectRef \<Rightarrow> ('c, bytes) st" where
  "telegram_fetch_object L C S reference =
     bnd (telegram_get_messages_by_id C S [ref_message_id reference]) (\<lambda>messages.
     bnd (lift (ok_or (case messages of [] \<Rightarrow> None | m # _ \<Rightarrow> m)
            (Anyhow (''message '' @ show_int (sint (ref_message_id reference)) @ '' not found'')))) (\<lambda>payload.
     bnd (lift (decode L payload (ref_object_id reference) (ref_generation reference))) (\<lambda>_.
     bnd (lift (ensure (sha256_hex L payload = ref_sha256 reference) (Anyhow ''remote payload checksum mismatch''))) (\<lambda>_.
     ret payload))))"

definition telegram_backend :: "libs \<Rightarrow> 'c client \<Rightarrow> TelegramStorage \<Rightarrow> 'c backend" where
  "telegram_backend L C S = \<lparr>send_object = telegram_send_object L C S, fetch_object = telegram_fetch_object L C S,
                             get_messages_by_id = telegram_get_messages_by_id C S\<rparr>"

fun delete_chunks :: "'c client \<Rightarrow> TelegramStorage \<Rightarrow> i32 list list \<Rightarrow> ('c, nat) st" where
  "delete_chunks C S [] = ret 0"
| "delete_chunks C S (chunk # rest) =
     bnd (call (client_delete_messages C (ts_peer S) chunk)) (\<lambda>n.
     bnd (delete_chunks C S rest) (\<lambda>deleted. ret (n + deleted)))"

definition telegram_delete_messages :: "'c client \<Rightarrow> TelegramStorage \<Rightarrow> i32 list \<Rightarrow> ('c, nat) st" where
  "telegram_delete_messages C S message_ids = delete_chunks C S (chunks 100 message_ids)"

section \<open>Superblock messages\<close>

definition pinned_message :: "'c client \<Rightarrow> TelegramStorage \<Rightarrow> ('c, Message option) st" where
  "pinned_message C S c =
     (case get_pinned_message C (ts_peer S) c of
        (Inr message, c') \<Rightarrow> (Inr message, c')
      | (Inl e, c') \<Rightarrow>
          (case e of
             Rpc rpc \<Rightarrow> if rpc_is C rpc ''MESSAGE_IDS_EMPTY'' then (Inr None, c') else (Inl (Invocation e), c')
           | _ \<Rightarrow> (Inl (Invocation e), c')))"

definition pinned_superblock_text :: "'c client \<Rightarrow> TelegramStorage \<Rightarrow> ('c, string option) st" where
  "pinned_superblock_text C S = bnd (pinned_message C S) (\<lambda>message. ret (map_option msg_text message))"

definition send_superblock_backup :: "'c client \<Rightarrow> TelegramStorage \<Rightarrow> string \<Rightarrow> ('c, i32) st" where
  "send_superblock_backup C S text =
     bnd (call (send_message C (ts_peer S) text None)) (\<lambda>message. ret (msg_id message))"

definition upsert_pinned_superblock :: "'c client \<Rightarrow> TelegramStorage \<Rightarrow> string \<Rightarrow> ('c, i32) st" where
  "upsert_pinned_superblock C S text =
     bnd (pinned_message C S) (\<lambda>pinned.
     case (case pinned of Some message \<Rightarrow> if prefix SUPERBLOCK_PREFIX (msg_text message) then Some message else None | None \<Rightarrow> None) of
       Some message \<Rightarrow> bnd (send_superblock_backup C S text) (\<lambda>_. ret (msg_id message))
     | None \<Rightarrow>
         bnd (call (send_message C (ts_peer S) text None)) (\<lambda>message.
         bnd (call (pin_message C (ts_peer S) (msg_id message))) (\<lambda>_.
         bnd (send_superblock_backup C S text) (\<lambda>_.
         ret (msg_id message)))))"

fun best_superblock :: "libs \<Rightarrow> (InvocationError + Message) list \<Rightarrow> (u64 \<times> string) option \<Rightarrow> (u64 \<times> string) option res" where
  "best_superblock L [] best = Inr best"
| "best_superblock L (item # items) best =
     (case item of
        Inl e \<Rightarrow> Inl (Invocation e)
      | Inr message \<Rightarrow>
          (case decode_text L (msg_text message) of
             Inl _ \<Rightarrow> best_superblock L items best
           | Inr superblock \<Rightarrow>
               if (case best of None \<Rightarrow> True | Some (generation, _) \<Rightarrow> generation < sb_manifest_generation superblock)
               then best_superblock L items (Some (sb_manifest_generation superblock, msg_text message))
               else best_superblock L items best))"

definition recover_superblock_text :: "libs \<Rightarrow> 'c client \<Rightarrow> TelegramStorage \<Rightarrow> nat \<Rightarrow> ('c, string option) st" where
  "recover_superblock_text L C S scan_limit =
     bnd (\<lambda>c. case iter_messages C (ts_peer S) scan_limit c of (items, c') \<Rightarrow> (best_superblock L items None, c')) (\<lambda>best.
     case best of
       Some (_, text) \<Rightarrow> ret (Some text)
     | None \<Rightarrow>
         bnd (pinned_superblock_text C S) (\<lambda>pinned.
         ret (case pinned of
                None \<Rightarrow> None
              | Some text \<Rightarrow> (case decode_text L text of Inl _ \<Rightarrow> None | Inr _ \<Rightarrow> Some text))))"

section \<open>Manifests\<close>

fun decode_manifest_leaves ::
  "libs \<Rightarrow> (ManifestTreeLeafRef \<times> bytes option) list \<Rightarrow> ManifestTreeLeaf list res" where
  "decode_manifest_leaves L [] = Inr []"
| "decode_manifest_leaves L ((leaf_ref, encoded) # rest) =
     rbind (ok_or encoded (Anyhow (''manifest leaf '' @ show_nat (unat (lr_leaf_index leaf_ref)) @ '' missing''))) (\<lambda>encoded.
     rbind (decode L encoded (ref_object_id (lr_remote leaf_ref)) (ref_generation (lr_remote leaf_ref))) (\<lambda>envelope.
     rbind (ensure (sha256_hex L encoded = ref_sha256 (lr_remote leaf_ref)) (Anyhow ''manifest leaf checksum mismatch'')) (\<lambda>_.
     rbind (unjson_leaf L (env_payload envelope)) (\<lambda>leaf.
     rbind (decode_manifest_leaves L rest) (\<lambda>leaves. Inr (leaf # leaves))))))"

definition fetch_manifest_tree_leaves :: "libs \<Rightarrow> 'c client \<Rightarrow> TelegramStorage \<Rightarrow> ManifestTreeRoot \<Rightarrow> ('c, ManifestTreeLeaf list) st" where
  "fetch_manifest_tree_leaves L C S root =
     bnd (telegram_get_messages_by_id C S (map (\<lambda>leaf. ref_message_id (lr_remote leaf)) (tr_leaves root))) (\<lambda>messages.
     lift (decode_manifest_leaves L (zip (tr_leaves root) messages)))"

definition fetch_manifest_from_superblock :: "libs \<Rightarrow> 'c client \<Rightarrow> TelegramStorage \<Rightarrow> Superblock \<Rightarrow> ('c, Manifest) st" where
  "fetch_manifest_from_superblock L C S superblock =
     (let root_ref = \<lparr>ref_chat_id = bot_api_dialog_id C (pr_id (ts_peer S)),
            ref_message_id = sb_current_manifest_message_id superblock, ref_object_id = MANIFEST_OBJECT_ID,
            ref_generation = sb_manifest_generation superblock, ref_sha256 = sb_manifest_hash superblock\<rparr> in
      case sb_manifest_encoding superblock of
        FlatJson \<Rightarrow>
          bnd (telegram_fetch_object L C S root_ref) (\<lambda>encoded.
          bnd (lift (decode L encoded MANIFEST_OBJECT_ID (ref_generation root_ref))) (\<lambda>envelope.
          lift (unjson_manifest L (env_payload envelope))))
      | Tree \<Rightarrow>
          bnd (telegram_fetch_object L C S root_ref) (\<lambda>encoded.
          bnd (lift (decode L encoded MANIFEST_OBJECT_ID (ref_generation root_ref))) (\<lambda>envelope.
          bnd (lift (unjson_root L (env_payload envelope))) (\<lambda>root.
          bnd (fetch_manifest_tree_leaves L C S root) (\<lambda>leaves.
          lift (from_tree_root_and_leaves root leaves))))))"

fun send_leaves ::
  "libs \<Rightarrow> 'c client \<Rightarrow> TelegramStorage \<Rightarrow> u64 \<Rightarrow> u32 \<Rightarrow> ManifestTreeLeaf list \<Rightarrow> ('c, ManifestTreeLeafRef list) st" where
  "send_leaves L C S generation object_size [] = ret []"
| "send_leaves L C S generation object_size (leaf # leaves) =
     bnd (lift (json_leaf L leaf)) (\<lambda>payload.
     bnd (lift (object_id_for_index L (tl_leaf_index leaf))) (\<lambda>object_id.
     let encoded = encode L \<lparr>env_object_id = object_id, env_generation = generation, env_object_size = object_size,
           env_flags = 0, env_payload = payload\<rparr> in
     bnd (telegram_send_object L C S object_id generation encoded (sha256_hex L encoded)) (\<lambda>remote.
     bnd (send_leaves L C S generation object_size leaves) (\<lambda>refs.
     ret (\<lparr>lr_leaf_index = tl_leaf_index leaf, lr_start_object_id = tl_start_object_id leaf,
            lr_object_count = of_nat (length (tl_objects leaf)), lr_remote = remote\<rparr> # refs)))))"

definition send_manifest_tree :: "libs \<Rightarrow> 'c client \<Rightarrow> TelegramStorage \<Rightarrow> Manifest \<Rightarrow> u32 \<Rightarrow> ('c, RemoteObjectRef) st" where
  "send_manifest_tree L C S manifest object_size =
     bnd (lift (tree_leaves manifest MANIFEST_TREE_LEAF_SPAN)) (\<lambda>leaves.
     bnd (send_leaves L C S (m_generation manifest) object_size leaves) (\<lambda>refs.
     bnd (lift (json_root L
            \<lparr>tr_magic = ''TGDRIVE_MANIFEST_ROOT'', tr_format_version = 1, tr_device_uuid = m_device_uuid manifest,
             tr_generation = m_generation manifest, tr_object_size = m_object_size manifest,
             tr_object_count = m_object_count manifest, tr_leaf_span = MANIFEST_TREE_LEAF_SPAN,
             tr_leaves = refs, tr_garbage = m_garbage manifest\<rparr>)) (\<lambda>payload.
     let encoded = encode L \<lparr>env_object_id = MANIFEST_OBJECT_ID, env_generation = m_generation manifest,
           env_object_size = object_size, env_flags = 0, env_payload = payload\<rparr> in
     bnd (telegram_send_object L C S MANIFEST_OBJECT_ID (m_generation manifest) encoded (sha256_hex L encoded)) (\<lambda>root_ref.
     bnd (telegram_fetch_object L C S root_ref) (\<lambda>_.
     ret root_ref)))))"

definition send_flat_manifest :: "libs \<Rightarrow> 'c client \<Rightarrow> TelegramStorage \<Rightarrow> Manifest \<Rightarrow> u32 \<Rightarrow> ('c, RemoteObjectRef) st" where
  "send_flat_manifest L C S manifest object_size =
     bnd (lift (json_manifest L manifest)) (\<lambda>payload.
     let encoded = encode L \<lparr>env_object_id = MANIFEST_OBJECT_ID, env_generation = m_generation manifest,
           env_object_size = object_size, env_flags = 0, env_payload = payload\<rparr> in
     bnd (telegram_send_object L C S MANIFEST_OBJECT_ID (m_generation manifest) encoded (sha256_hex L encoded)) (\<lambda>manifest_ref.
     bnd (telegram_fetch_object L C S manifest_ref) (\<lambda>_.
     ret manifest_ref)))"

text \<open>\<open>process::abort\<close> ends the process; it is a panic of the model.\<close>

definition commit_manifest :: "libs \<Rightarrow> 'c client \<Rightarrow> TelegramStorage \<Rightarrow> 'c committer" where
  "commit_manifest L C S manifest device_size logical_sector_size object_size =
     (let use_tree = MANIFEST_TREE_LEAF_SPAN < length (m_objects manifest) in
      bnd (if use_tree then send_manifest_tree L C S manifest object_size
           else send_flat_manifest L C S manifest object_size) (\<lambda>manifest_ref.
      bnd (lift (if env_var C ''TGDRIVE_CRASH_AFTER_MANIFEST_UPLOAD'' = Some ''1'' then Inl (Panic ''abort'') else Inr ())) (\<lambda>_.
      bnd (pinned_superblock_text C S) (\<lambda>text.
      bnd (gets (utc_now C)) (\<lambda>now.
      let previous = (case text of None \<Rightarrow> None | Some t \<Rightarrow> (case decode_text L t of Inl _ \<Rightarrow> None | Inr s \<Rightarrow> Some s));
          superblock = (if use_tree
            then for_tree_manifest now (m_device_uuid manifest) device_size logical_sector_size object_size manifest_ref previous
            else for_manifest now (m_device_uuid manifest) device_size logical_sector_size object_size manifest_ref previous) in
      bnd (lift (encode_text L superblock)) (\<lambda>text.
      bnd (upsert_pinned_superblock C S text) (\<lambda>_. ret ())))))))"

end
