(* ===== verification/TelegramRel.thy ===== *)
theory TelegramRel
  imports Telegram
begin

text \<open>
  What the program relies on of the Telegram client, as the hypotheses \<open>chat_ok\<close> (what a successful
  call means) and \<open>chat_readable\<close> (read calls succeed), over a view of the outside world: the
  messages of the channel, newest first, and the contents of file handles. Under them the storage
  satisfies the backend contract, and a committed manifest can be recovered from the channel.
\<close>

section \<open>The channel\<close>

type_synonym post = "i32 \<times> string \<times> bytes option"

record 'c chat =
  ch_good :: "'c \<Rightarrow> bool"
  ch_posts :: "'c \<Rightarrow> post list"
  ch_files :: "'c \<Rightarrow> nat \<rightharpoonup> bytes"

definition unchanged :: "'c chat \<Rightarrow> 'c \<Rightarrow> 'c \<Rightarrow> bool" where
  "unchanged V c c' \<longleftrightarrow> ch_good V c' \<and> ch_posts V c' = ch_posts V c \<and> ch_files V c \<subseteq>\<^sub>m ch_files V c'"

definition extended :: "'c chat \<Rightarrow> 'c \<Rightarrow> 'c \<Rightarrow> bool" where
  "extended V c c' \<longleftrightarrow> ch_good V c' \<and> (\<exists>new. ch_posts V c' = new @ ch_posts V c) \<and> ch_files V c \<subseteq>\<^sub>m ch_files V c'"

text \<open>New messages, if any, carry the given text (a call that fails may have been carried out).\<close>

definition posted :: "'c chat \<Rightarrow> string \<Rightarrow> 'c \<Rightarrow> 'c \<Rightarrow> bool" where
  "posted V text c c' \<longleftrightarrow> extended V c c' \<and> (\<exists>new. ch_posts V c' = new @ ch_posts V c \<and> (\<forall>p\<in>set new. fst (snd p) = text))"

definition post_shows :: "(nat \<rightharpoonup> bytes) \<Rightarrow> post \<Rightarrow> Message \<Rightarrow> bool" where
  "post_shows files p m \<longleftrightarrow> msg_id m = fst p \<and> msg_text m = fst (snd p) \<and>
     (case snd (snd p) of None \<Rightarrow> msg_media m = None | Some bs \<Rightarrow> \<exists>h. msg_media m = Some h \<and> files h = Some bs)"

definition answers_id :: "post list \<Rightarrow> (nat \<rightharpoonup> bytes) \<Rightarrow> i32 \<Rightarrow> Message option \<Rightarrow> bool" where
  "answers_id posts files i x \<longleftrightarrow>
     (case x of None \<Rightarrow> i \<notin> fst ` set posts | Some m \<Rightarrow> \<exists>p\<in>set posts. fst p = i \<and> post_shows files p m)"

definition writes_ok :: "'c client \<Rightarrow> PeerRef \<Rightarrow> 'c chat \<Rightarrow> bool" where
  "writes_ok C P V \<longleftrightarrow>
     (\<forall>c bs n name x c'. ch_good V c \<longrightarrow> upload_stream C bs n name c = (x, c') \<longrightarrow>
        unchanged V c c' \<and> (\<forall>u. x = Inr u \<longrightarrow> ch_files V c' u = Some (take n bs))) \<and>
     (\<forall>c text doc x c'. ch_good V c \<longrightarrow> send_message C P text doc c = (x, c') \<longrightarrow>
        posted V text c c' \<and>
        (\<forall>m. x = Inr m \<longrightarrow> ch_posts V c' = (msg_id m, text, Option.bind doc (ch_files V c)) # ch_posts V c)) \<and>
     (\<forall>c i x c'. ch_good V c \<longrightarrow> pin_message C P i c = (x, c') \<longrightarrow> posted V [] c c')"

definition reads_ok :: "'c client \<Rightarrow> PeerRef \<Rightarrow> 'c chat \<Rightarrow> bool" where
  "reads_ok C P V \<longleftrightarrow>
     (\<forall>c x c'. ch_good V c \<longrightarrow> get_pinned_message C P c = (x, c') \<longrightarrow> unchanged V c c') \<and>
     (\<forall>c ids x c'. ch_good V c \<longrightarrow> client_get_messages_by_id C P ids c = (x, c') \<longrightarrow>
        unchanged V c c' \<and> (\<forall>ms. x = Inr ms \<longrightarrow> list_all2 (answers_id (ch_posts V c) (ch_files V c')) ids ms)) \<and>
     (\<forall>c n xs c'. ch_good V c \<longrightarrow> iter_messages C P n c = (xs, c') \<longrightarrow>
        unchanged V c c' \<and> (\<forall>ms. xs = map Inr ms \<longrightarrow> list_all2 (post_shows (ch_files V c')) (take n (ch_posts V c)) ms)) \<and>
     (\<forall>c h xs c'. ch_good V c \<longrightarrow> iter_download C h c = (xs, c') \<longrightarrow>
        unchanged V c c' \<and> (\<forall>cs bs. ch_files V c h = Some bs \<longrightarrow> xs = map Inr cs \<longrightarrow> concat cs = bs))"

definition chat_ok :: "'c client \<Rightarrow> PeerRef \<Rightarrow> 'c chat \<Rightarrow> bool" where
  "chat_ok C P V \<longleftrightarrow> (\<forall>c. ch_good V c \<longrightarrow> distinct (map fst (ch_posts V c))) \<and> writes_ok C P V \<and> reads_ok C P V"

definition chat_readable :: "'c client \<Rightarrow> PeerRef \<Rightarrow> 'c chat \<Rightarrow> bool" where
  "chat_readable C P V \<longleftrightarrow>
     (\<forall>c ids. ch_good V c \<longrightarrow> (\<exists>ms c'. client_get_messages_by_id C P ids c = (Inr ms, c'))) \<and>
     (\<forall>c h bs. ch_good V c \<longrightarrow> ch_files V c h = Some bs \<longrightarrow> (\<exists>cs c'. iter_download C h c = (map Inr cs, c'))) \<and>
     (\<forall>c n. ch_good V c \<longrightarrow> (\<exists>ms c'. iter_messages C P n c = (map Inr ms, c')))"

text \<open>The stored object of a message is its document.\<close>

definition stored_doc :: "'c chat \<Rightarrow> 'c \<Rightarrow> i32 \<rightharpoonup> bytes" where
  "stored_doc V c i = Option.bind (map_of (ch_posts V c) i) snd"

section \<open>Frames\<close>

lemma unchanged_extended: "unchanged V c c' \<Longrightarrow> extended V c c'"
  by (auto simp: unchanged_def extended_def)

lemma unchanged_refl [simp]: "ch_good V c \<Longrightarrow> unchanged V c c"
  by (simp add: unchanged_def)

lemma extended_refl [simp]: "ch_good V c \<Longrightarrow> extended V c c"
  by (simp add: extended_def)

lemma unchanged_trans: "unchanged V a b \<Longrightarrow> unchanged V b c \<Longrightarrow> unchanged V a c"
  by (auto simp: unchanged_def intro: map_le_trans)

lemma extended_trans: "extended V a b \<Longrightarrow> extended V b c \<Longrightarrow> extended V a c"
  by (auto simp: extended_def intro: map_le_trans)

lemma framesD: "unchanged V c c' \<Longrightarrow> ch_good V c'" "extended V c c' \<Longrightarrow> ch_good V c'"
  by (simp_all add: unchanged_def extended_def)

lemma posted_extended: "posted V text c c' \<Longrightarrow> extended V c c'"
  by (simp add: posted_def)

definition keeps :: "'c chat \<Rightarrow> ('c, 'a) st \<Rightarrow> bool" where
  "keeps V m \<longleftrightarrow> (\<forall>c. ch_good V c \<longrightarrow> unchanged V c (snd (m c)))"

definition grows :: "'c chat \<Rightarrow> ('c, 'a) st \<Rightarrow> bool" where
  "grows V m \<longleftrightarrow> (\<forall>c. ch_good V c \<longrightarrow> extended V c (snd (m c)))"

lemma keeps_bnd: "keeps V m \<Longrightarrow> (\<And>x. keeps V (f x)) \<Longrightarrow> keeps V (bnd m f)"
  unfolding keeps_def by (auto simp: bnd_apply split: prod.splits sum.splits) (metis snd_conv unchanged_trans framesD(1))+

lemma grows_bnd: "grows V m \<Longrightarrow> (\<And>x. grows V (f x)) \<Longrightarrow> grows V (bnd m f)"
  unfolding grows_def by (auto simp: bnd_apply split: prod.splits sum.splits) (metis snd_conv extended_trans framesD(2))+

lemma keeps_grows: "keeps V m \<Longrightarrow> grows V m"
  by (auto simp: keeps_def grows_def intro: unchanged_extended)

lemma keeps_pure [simp]: "keeps V (ret x)" "keeps V (lift r)" "keeps V (gets g)" "keeps V (fail e)"
  by (simp_all add: keeps_def)

lemma keeps_call: "(\<And>c x c'. ch_good V c \<Longrightarrow> m c = (x, c') \<Longrightarrow> unchanged V c c') \<Longrightarrow> keeps V (call m)"
  by (auto simp: keeps_def call_def split: prod.splits sum.splits)

lemma grows_call: "(\<And>c x c'. ch_good V c \<Longrightarrow> m c = (x, c') \<Longrightarrow> extended V c c') \<Longrightarrow> grows V (call m)"
  by (auto simp: grows_def call_def split: prod.splits sum.splits)

lemma call_Inr [simp]: "call m s = (Inr x, t) \<longleftrightarrow> m s = (Inr x, t)"
  by (auto simp: call_def split: prod.splits sum.splits)

lemma stored_doc_mono:
  assumes "chat_ok C P V" "extended V c c'"
  shows "stored_doc V c \<subseteq>\<^sub>m stored_doc V c'"
proof -
  obtain new where new: "ch_posts V c' = new @ ch_posts V c" using assms(2) by (auto simp: extended_def)
  have "distinct (map fst (ch_posts V c'))" using assms by (simp add: chat_ok_def extended_def)
  then have "map_of new i = None" if "i \<in> dom (map_of (ch_posts V c))" for i
    using that by (auto simp: new map_of_eq_None_iff dom_map_of_conv_image_fst)
  then show ?thesis by (auto simp: map_le_def stored_doc_def new map_add_def bind_eq_Some_conv dom_def split: option.splits)
qed

lemma stored_doc_unchanged: "unchanged V c c' \<Longrightarrow> stored_doc V c' = stored_doc V c"
  by (simp add: unchanged_def stored_doc_def fun_eq_iff)

section \<open>Reading\<close>

lemma join_chunks_map: "join_chunks (map Inr cs) = Inr (concat cs)"
  by (induction cs) simp_all

lemma join_chunks_Inr: "join_chunks xs = Inr bs \<Longrightarrow> \<exists>cs. xs = map Inr cs \<and> bs = concat cs"
proof (induction xs arbitrary: bs)
  case Nil
  then show ?case by simp
next
  case (Cons x xs)
  then obtain chunk rest where x: "x = Inr chunk" "join_chunks xs = Inr rest" "bs = chunk @ rest"
    by (cases x) (auto simp: rbind_Inr_iff)
  from Cons.IH [OF x(2)] obtain cs where "xs = map Inr cs" "rest = concat cs" by blast
  then show ?case using x by (intro exI [of _ "chunk # cs"]) simp
qed

lemma chat_okD:
  assumes "chat_ok C P V" "ch_good V c"
  shows "distinct (map fst (ch_posts V c))"
    "upload_stream C bs n name c = (x, c1) \<Longrightarrow> unchanged V c c1 \<and> (\<forall>u. x = Inr u \<longrightarrow> ch_files V c1 u = Some (take n bs))"
    "send_message C P text doc c = (y, c2) \<Longrightarrow> posted V text c c2 \<and>
       (\<forall>m. y = Inr m \<longrightarrow> ch_posts V c2 = (msg_id m, text, Option.bind doc (ch_files V c)) # ch_posts V c)"
    "pin_message C P i c = (z, c3) \<Longrightarrow> posted V [] c c3"
    "get_pinned_message C P c = (v, c4) \<Longrightarrow> unchanged V c c4"
    "client_get_messages_by_id C P ids c = (w, c5) \<Longrightarrow>
       unchanged V c c5 \<and> (\<forall>ms. w = Inr ms \<longrightarrow> list_all2 (answers_id (ch_posts V c) (ch_files V c5)) ids ms)"
    "iter_messages C P k c = (xs, c6) \<Longrightarrow>
       unchanged V c c6 \<and> (\<forall>ms. xs = map Inr ms \<longrightarrow> list_all2 (post_shows (ch_files V c6)) (take k (ch_posts V c)) ms)"
    "iter_download C h c = (ys, c7) \<Longrightarrow>
       unchanged V c c7 \<and> (\<forall>cs b. ch_files V c h = Some b \<longrightarrow> ys = map Inr cs \<longrightarrow> concat cs = b)"
proof -
  have w: "writes_ok C P V" and r: "reads_ok C P V" and "distinct (map fst (ch_posts V c))"
    using assms by (simp_all add: chat_ok_def)
  note w = w [unfolded writes_ok_def] and r = r [unfolded reads_ok_def]
  show "distinct (map fst (ch_posts V c))" by fact
  show "upload_stream C bs n name c = (x, c1) \<Longrightarrow> unchanged V c c1 \<and> (\<forall>u. x = Inr u \<longrightarrow> ch_files V c1 u = Some (take n bs))"
    using w [THEN conjunct1, rule_format, OF assms(2)] by simp
  show "send_message C P text doc c = (y, c2) \<Longrightarrow> posted V text c c2 \<and>
       (\<forall>m. y = Inr m \<longrightarrow> ch_posts V c2 = (msg_id m, text, Option.bind doc (ch_files V c)) # ch_posts V c)"
    using w [THEN conjunct2, THEN conjunct1, rule_format, OF assms(2)] by simp
  show "pin_message C P i c = (z, c3) \<Longrightarrow> posted V [] c c3"
    using w [THEN conjunct2, THEN conjunct2, rule_format, OF assms(2)] by simp
  show "get_pinned_message C P c = (v, c4) \<Longrightarrow> unchanged V c c4"
    using r [THEN conjunct1, rule_format, OF assms(2)] by simp
  show "client_get_messages_by_id C P ids c = (w, c5) \<Longrightarrow>
       unchanged V c c5 \<and> (\<forall>ms. w = Inr ms \<longrightarrow> list_all2 (answers_id (ch_posts V c) (ch_files V c5)) ids ms)"
    using r [THEN conjunct2, THEN conjunct1, rule_format, OF assms(2)] by simp
  show "iter_messages C P k c = (xs, c6) \<Longrightarrow>
       unchanged V c c6 \<and> (\<forall>ms. xs = map Inr ms \<longrightarrow> list_all2 (post_shows (ch_files V c6)) (take k (ch_posts V c)) ms)"
    using r [THEN conjunct2, THEN conjunct2, THEN conjunct1, rule_format, OF assms(2)] by simp
  show "iter_download C h c = (ys, c7) \<Longrightarrow>
       unchanged V c c7 \<and> (\<forall>cs b. ch_files V c h = Some b \<longrightarrow> ys = map Inr cs \<longrightarrow> concat cs = b)"
    using r [THEN conjunct2, THEN conjunct2, THEN conjunct2, rule_format, OF assms(2)] by simp
qed

lemma post_shows_mono: "post_shows f p m \<Longrightarrow> f \<subseteq>\<^sub>m g \<Longrightarrow> post_shows g p m"
  by (auto simp: post_shows_def map_le_def dom_def split: option.splits)

lemma answers_id_mono: "answers_id posts f i x \<Longrightarrow> f \<subseteq>\<^sub>m g \<Longrightarrow> answers_id posts g i x"
  by (auto simp: answers_id_def split: option.splits intro: post_shows_mono)

text \<open>What a read of a list of messages returns.\<close>

definition reads_doc :: "'c chat \<Rightarrow> 'c \<Rightarrow> i32 \<Rightarrow> bytes option \<Rightarrow> bool" where
  "reads_doc V c i x \<longleftrightarrow> (case x of None \<Rightarrow> i \<notin> fst ` set (ch_posts V c) | Some bs \<Rightarrow> stored_doc V c i = Some bs)"

lemma reads_doc_unchanged: "unchanged V c c' \<Longrightarrow> reads_doc V c' = reads_doc V c"
  by (auto simp: reads_doc_def fun_eq_iff stored_doc_unchanged unchanged_def split: option.splits)

lemma download_media:
  assumes chat: "chat_ok C P V" "ch_good V c" and p: "p \<in> set (ch_posts V c)" "post_shows (ch_files V c) p m"
    and d: "download_message_media C m c = (x, c')"
  shows "unchanged V c c' \<and> (\<forall>bs. x = Inr bs \<longrightarrow> stored_doc V c (fst p) = Some bs)"
proof (cases "msg_media m")
  case None
  then show ?thesis using d chat by (auto simp: download_message_media_def)
next
  case (Some h)
  obtain items c1 where it: "iter_download C h c = (items, c1)" by force
  then have x: "x = join_chunks items" "c' = c1" using d Some by (simp_all add: download_message_media_def)
  obtain b where doc: "snd (snd p) = Some b" "ch_files V c h = Some b"
    using p(2) Some by (auto simp: post_shows_def split: option.splits)
  have "map_of (ch_posts V c) (fst p) = Some (snd p)"
    using chat_okD(1) [OF chat] p(1) by (simp add: map_of_is_SomeI)
  then have "stored_doc V c (fst p) = Some b" using doc(1) by (simp add: stored_doc_def)
  then show ?thesis using chat_okD(8) [OF chat it] join_chunks_Inr x doc(2) by fastforce
qed

lemma download_all_reads:
  assumes chat: "chat_ok C P V" and "ch_good V c" and "list_all2 (answers_id (ch_posts V c) (ch_files V c)) ids ms"
    and "download_all C ms c = (y, c')"
  shows "unchanged V c c' \<and> (\<forall>outs. y = Inr outs \<longrightarrow> list_all2 (reads_doc V c) ids outs)"
  using assms(2-)
proof (induction ms arbitrary: ids c y c')
  case Nil
  then show ?case by auto
next
  case (Cons m ms)
  obtain i ids' where ids: "ids = i # ids'" "answers_id (ch_posts V c) (ch_files V c) i m"
    "list_all2 (answers_id (ch_posts V c) (ch_files V c)) ids' ms"
    using Cons.prems(2) by (auto simp: list_all2_Cons2)
  let ?first = "case m of None \<Rightarrow> ret None | Some m \<Rightarrow> bnd (download_message_media C m) (\<lambda>bs. ret (Some bs))"
  obtain x c1 where f: "?first c = (x, c1)" by force
  have u: "unchanged V c c1 \<and> (\<forall>v. x = Inr v \<longrightarrow> reads_doc V c i v)"
  proof (cases m)
    case None
    then show ?thesis using f ids(2) Cons.prems(1) by (auto simp: reads_doc_def answers_id_def)
  next
    case (Some msg)
    obtain p where p: "p \<in> set (ch_posts V c)" "fst p = i" "post_shows (ch_files V c) p msg"
      using ids(2) Some by (auto simp: answers_id_def)
    obtain z c2 where d: "download_message_media C msg c = (z, c2)" by force
    from download_media [OF chat Cons.prems(1) p(1,3) d] show ?thesis
      using f Some d p(2) by (cases z) (auto simp: bnd_apply reads_doc_def)
  qed
  show ?case
  proof (cases x)
    case (Inl e)
    then show ?thesis using Cons.prems(3) f u by (auto simp: bnd_apply)
  next
    case (Inr v)
    obtain w c2 where r: "download_all C ms c1 = (w, c2)" by force
    have "list_all2 (answers_id (ch_posts V c1) (ch_files V c1)) ids' ms"
      using ids(3) u by (auto simp: unchanged_def elim!: list_all2_mono intro: answers_id_mono)
    moreover have "ch_good V c1" using u by (simp add: unchanged_def)
    ultimately have ih: "unchanged V c1 c2 \<and> (\<forall>outs. w = Inr outs \<longrightarrow> list_all2 (reads_doc V c1) ids' outs)"
      using Cons.IH r by blast
    have c': "c' = c2" "y = (case w of Inl e \<Rightarrow> Inl e | Inr outs \<Rightarrow> Inr (v # outs))"
      using Cons.prems(3) f Inr r by (auto simp: bnd_apply split: sum.splits)
    show ?thesis using u ih Inr c' ids(1) reads_doc_unchanged [of V c c1]
      by (auto intro: unchanged_trans split: sum.splits)
  qed
qed

lemma get_chunks_reads:
  assumes chat: "chat_ok C (ts_peer S) V" and "ch_good V c" and "get_chunks C S css c = (y, c')"
  shows "unchanged V c c' \<and> (\<forall>outs. y = Inr outs \<longrightarrow> list_all2 (reads_doc V c) (concat css) outs)"
  using assms(2-)
proof (induction css arbitrary: c y c')
  case Nil
  then show ?case by auto
next
  case (Cons chunk css)
  obtain x c1 where g: "client_get_messages_by_id C (ts_peer S) chunk c = (x, c1)" by force
  note u = chat_okD(6) [OF chat Cons.prems(1) g]
  show ?case
  proof (cases x)
    case (Inl e)
    then show ?thesis using Cons.prems(2) g u by (auto simp: bnd_apply call_def)
  next
    case (Inr ms)
    then have ms: "list_all2 (answers_id (ch_posts V c1) (ch_files V c1)) chunk ms" using u by (simp add: unchanged_def)
    obtain z c2 where d: "download_all C ms c1 = (z, c2)" by force
    have good1: "ch_good V c1" using u by (simp add: unchanged_def)
    note v = download_all_reads [OF chat good1 ms d]
    obtain w c3 where r: "get_chunks C S css c2 = (w, c3)" by force
    have "ch_good V c2" using v by (simp add: unchanged_def)
    note ih = Cons.IH [OF this r]
    have res: "(y, c') = (case z of Inl e \<Rightarrow> (Inl e, c2) | Inr out \<Rightarrow> (case w of Inl e \<Rightarrow> (Inl e, c3) | Inr outs \<Rightarrow> (Inr (out @ outs), c3)))"
      using Cons.prems(2) g Inr d r by (cases z; cases w) (auto simp: bnd_apply call_def)
    have c2: "unchanged V c c2" using u v unchanged_trans [of V c c1 c2] by simp
    then have rd: "reads_doc V c1 = reads_doc V c" "reads_doc V c2 = reads_doc V c"
      using u reads_doc_unchanged [of V c c1] reads_doc_unchanged [of V c c2] by simp_all
    show ?thesis using c2 res v ih rd by (auto intro: unchanged_trans list_all2_appendI split: sum.splits)
  qed
qed

lemma telegram_get_reads:
  assumes "chat_ok C (ts_peer S) V" "ch_good V c" "telegram_get_messages_by_id C S ids c = (y, c')"
  shows "unchanged V c c' \<and> (\<forall>outs. y = Inr outs \<longrightarrow> list_all2 (reads_doc V c) ids outs)"
  using get_chunks_reads [OF assms(1,2), of "chunks 100 ids"] assms(3) concat_chunks [of 100 ids]
  by (simp add: telegram_get_messages_by_id_def)

lemma telegram_fetch_reads:
  assumes "chat_ok C (ts_peer S) V" "ch_good V c" "telegram_fetch_object L C S r c = (y, c')"
  shows "unchanged V c c' \<and> (\<forall>bs. y = Inr bs \<longrightarrow> stored_doc V c (ref_message_id r) = Some bs)"
proof -
  obtain x c1 where g: "telegram_get_messages_by_id C S [ref_message_id r] c = (x, c1)" by force
  note u = telegram_get_reads [OF assms(1,2) g]
  then show ?thesis using assms(3) g
    by (cases x) (auto simp: telegram_fetch_object_def bnd_apply list_all2_Cons1 reads_doc_def ok_or_def ensure_def split: sum.splits option.splits if_splits)
qed

section \<open>Writing\<close>

lemma telegram_send_stores:
  assumes chat: "chat_ok C (ts_peer S) V" "ch_good V c" and snd_: "telegram_send_object L C S oid gen payload sha c = (y, c')"
  shows "extended V c c' \<and> (\<forall>r. y = Inr r \<longrightarrow>
    (\<exists>caption. ch_posts V c' = (ref_message_id r, ''TGDRIVE '' @ caption, Some payload) # ch_posts V c) \<and>
    (\<exists>e. decode L payload oid gen = Inr e) \<and> ref_object_id r = oid \<and> ref_generation r = gen \<and> ref_sha256 r = sha)"
proof (cases "decode L payload oid gen")
  case (Inl e)
  then show ?thesis using snd_ chat(2) by (auto simp: telegram_send_object_def)
next
  case (Inr env)
  let ?name = "''tgdrive-'' @ hex16 oid @ ''-'' @ hex16 gen @ ''.bin''"
  let ?caption = "''TGDRIVE object='' @ show_nat (unat oid) @ '' generation='' @ show_nat (unat gen) @ '' sha256='' @ sha"
  obtain x c1 where up: "upload_stream C payload (length payload) ?name c = (x, c1)" by force
  note u = chat_okD(2) [OF chat up]
  show ?thesis
  proof (cases x)
    case no: (Inl e)
    then show ?thesis using snd_ Inr up u by (auto simp: telegram_send_object_def bnd_apply call_def Let_def unchanged_extended)
  next
    case yes: (Inr h)
    obtain z c2 where sm: "send_message C (ts_peer S) ?caption (Some h) c1 = (z, c2)" by force
    have good1: "ch_good V c1" using u by (simp add: unchanged_def)
    note v = chat_okD(3) [OF chat(1) good1 sm]
    have ext: "extended V c c2"
      using extended_trans [OF unchanged_extended [OF conjunct1 [OF u]] posted_extended [OF conjunct1 [OF v]]] .
    have "y = (case z of Inl e \<Rightarrow> Inl (Invocation e) | Inr m \<Rightarrow> Inr \<lparr>ref_chat_id = bot_api_dialog_id C (pr_id (ts_peer S)),
        ref_message_id = msg_id m, ref_object_id = oid, ref_generation = gen, ref_sha256 = sha\<rparr>)" "c' = c2"
      using snd_ Inr up yes sm by (auto simp: telegram_send_object_def bnd_apply call_def Let_def split: sum.splits)
    moreover have "ch_files V c1 h = Some payload" "ch_posts V c1 = ch_posts V c" using u yes by (simp_all add: unchanged_def)
    ultimately show ?thesis using ext v Inr by (cases z) auto
  qed
qed

lemma stored_first: "ch_posts V c = (i, text, Some bs) # rest \<Longrightarrow> stored_doc V c i = Some bs"
  by (simp add: stored_doc_def)

lemma telegram_remote_backend:
  assumes chat: "chat_ok C (ts_peer S) V"
  shows "remote_backend (telegram_backend L C S) (ch_good V) (\<lambda>_ _. True) (stored_doc V)"
proof
  fix b n oid gen payload sha r b'
  assume b: "ch_good V b" and s: "send_object (telegram_backend L C S) oid gen payload sha b = (Inr r, b')"
  note t = telegram_send_stores [OF chat b, of L oid gen payload sha "Inr r" b']
  have "extended V b b'" using t s by (simp add: telegram_backend_def)
  then show "ch_good V b' \<and> True \<and> stored_doc V b \<subseteq>\<^sub>m stored_doc V b' \<and> stored_doc V b' (ref_message_id r) = Some payload \<and>
      ref_object_id r = oid \<and> ref_generation r = gen \<and> ref_sha256 r = sha"
    using t s stored_doc_mono [OF chat] stored_first [of V b'] by (auto simp: telegram_backend_def extended_def)
next
  fix b n oid gen payload sha e b'
  assume b: "ch_good V b" and s: "send_object (telegram_backend L C S) oid gen payload sha b = (Inl e, b')"
  then have "extended V b b'" using telegram_send_stores [OF chat b, of L oid gen payload sha "Inl e" b'] by (simp add: telegram_backend_def)
  then show "ch_good V b' \<and> True \<and> stored_doc V b \<subseteq>\<^sub>m stored_doc V b'"
    using stored_doc_mono [OF chat] by (simp add: extended_def)
next
  fix b r x b'
  assume b: "ch_good V b" and s: "fetch_object (telegram_backend L C S) r b = (x, b')"
  then have "unchanged V b b' \<and> (\<forall>bs. x = Inr bs \<longrightarrow> stored_doc V b (ref_message_id r) = Some bs)"
    using telegram_fetch_reads [OF chat b] by (simp add: telegram_backend_def)
  then show "ch_good V b' \<and> (\<lambda>_. True) = (\<lambda>_. True) \<and> stored_doc V b' = stored_doc V b \<and>
      (\<forall>bs. x = Inr bs \<longrightarrow> stored_doc V b (ref_message_id r) = Some bs)"
    using stored_doc_unchanged [of V b b'] by (simp add: unchanged_def)
next
  fix b ids y b'
  assume b: "ch_good V b" and s: "get_messages_by_id (telegram_backend L C S) ids b = (y, b')"
  then have "unchanged V b b' \<and> (\<forall>outs. y = Inr outs \<longrightarrow> list_all2 (reads_doc V b) ids outs)"
    using telegram_get_reads [OF chat b] by (simp add: telegram_backend_def)
  then show "ch_good V b' \<and> (\<lambda>_. True) = (\<lambda>_. True) \<and> stored_doc V b' = stored_doc V b \<and>
      (\<forall>ms. y = Inr ms \<longrightarrow> (\<forall>(i, m) \<in> set (zip ids ms). \<forall>bs. m = Some bs \<longrightarrow> stored_doc V b i = Some bs))"
    using stored_doc_unchanged [of V b b'] by (auto simp: list_all2_iff unchanged_def) (force simp: reads_doc_def)
qed simp

section \<open>Committing\<close>

lemma keeps_pinned: "chat_ok C (ts_peer S) V \<Longrightarrow> keeps V (pinned_message C S)"
  by (auto simp: keeps_def pinned_message_def split: prod.splits sum.splits InvocationError.splits dest: chat_okD(5))

lemma keeps_fetch: "chat_ok C (ts_peer S) V \<Longrightarrow> keeps V (telegram_fetch_object L C S r)"
  unfolding keeps_def by (metis prod.collapse telegram_fetch_reads)

lemma grows_send: "chat_ok C (ts_peer S) V \<Longrightarrow> grows V (telegram_send_object L C S oid gen payload sha)"
  unfolding grows_def by (metis prod.collapse telegram_send_stores)

lemma grows_text: "chat_ok C P V \<Longrightarrow> grows V (call (send_message C P text doc))"
  by (rule grows_call) (blast dest: chat_okD(3) posted_extended)

lemma grows_pin: "chat_ok C P V \<Longrightarrow> grows V (call (pin_message C P i))"
  by (rule grows_call) (blast dest: chat_okD(4) posted_extended)

lemmas keeps_pures = keeps_pure [THEN keeps_grows]

lemma grows_if: "grows V a \<Longrightarrow> grows V b \<Longrightarrow> grows V (if p then a else b)"
  by simp

lemma grows_option: "grows V a \<Longrightarrow> (\<And>x. grows V (f x)) \<Longrightarrow> grows V (case q of None \<Rightarrow> a | Some x \<Rightarrow> f x)"
  by (cases q) simp_all

lemma grows_leaves: "chat_ok C (ts_peer S) V \<Longrightarrow> grows V (send_leaves L C S g osz leaves)"
  by (induction leaves) (auto simp: Let_def intro!: grows_bnd grows_send keeps_pures)

lemma grows_commit: "chat_ok C (ts_peer S) V \<Longrightarrow> grows V (commit_manifest L C S m dsz lsz osz)"
  unfolding commit_manifest_def send_manifest_tree_def send_flat_manifest_def upsert_pinned_superblock_def
    send_superblock_backup_def pinned_superblock_text_def Let_def
  by (intro grows_bnd grows_if grows_option grows_leaves grows_send grows_text grows_pin keeps_pures
      keeps_grows [OF keeps_fetch] keeps_grows [OF keeps_pinned])

section \<open>Availability\<close>

lemma post_of_stored:
  assumes "chat_ok C P V" "ch_good V c" "stored_doc V c i = Some bs" "p \<in> set (ch_posts V c)" "fst p = i"
  shows "snd (snd p) = Some bs"
proof -
  have "map_of (ch_posts V c) (fst p) = Some (snd p)"
    using chat_okD(1) [OF assms(1,2)] assms(4) by (simp add: map_of_is_SomeI)
  then show ?thesis using assms(3,5) by (simp add: stored_doc_def)
qed

lemma download_all_live:
  assumes chat: "chat_ok C P V" "chat_readable C P V" and "ch_good V c"
    and "list_all2 (answers_id (ch_posts V c) (ch_files V c)) ids ms" "\<forall>i\<in>set ids. stored_doc V c i \<noteq> None"
  shows "\<exists>outs c'. download_all C ms c = (Inr outs, c')"
  using assms(3-)
proof (induction ms arbitrary: ids c)
  case Nil
  then show ?case by simp
next
  case (Cons m ms)
  obtain i ids' where ids: "ids = i # ids'" "answers_id (ch_posts V c) (ch_files V c) i m"
    "list_all2 (answers_id (ch_posts V c) (ch_files V c)) ids' ms"
    using Cons.prems(2) by (auto simp: list_all2_Cons2)
  obtain bs where bs: "stored_doc V c i = Some bs" using Cons.prems(3) ids(1) by auto
  then have "i \<in> fst ` set (ch_posts V c)"
    by (auto simp: stored_doc_def bind_eq_Some_conv dest!: map_of_SomeD intro: image_eqI [of _ fst "(i, _)"])
  then obtain msg p where m: "m = Some msg" and p: "p \<in> set (ch_posts V c)" "fst p = i" "post_shows (ch_files V c) p msg"
    using ids(2) by (cases m) (auto simp: answers_id_def)
  have "snd (snd p) = Some bs" by (rule post_of_stored [OF chat(1) Cons.prems(1) bs p(1,2)])
  then obtain h where h: "msg_media msg = Some h" "ch_files V c h = Some bs"
    using p(3) by (auto simp: post_shows_def)
  obtain cs c1 where it: "iter_download C h c = (map Inr cs, c1)"
    using chat(2) Cons.prems(1) h(2) unfolding chat_readable_def by blast
  have u: "unchanged V c c1" using chat_okD(8) [OF chat(1) Cons.prems(1) it] by simp
  have "list_all2 (answers_id (ch_posts V c1) (ch_files V c1)) ids' ms"
    using ids(3) u by (auto simp: unchanged_def elim!: list_all2_mono intro: answers_id_mono)
  moreover have "ch_good V c1" "\<forall>i\<in>set ids'. stored_doc V c1 i \<noteq> None"
    using u Cons.prems(3) ids(1) stored_doc_unchanged [OF u] by (auto simp: unchanged_def)
  ultimately obtain outs c' where "download_all C ms c1 = (Inr outs, c')" using Cons.IH by blast
  then show ?case using m h(1) it by (simp add: bnd_apply download_message_media_def join_chunks_map)
qed

lemma get_chunks_live:
  assumes chat: "chat_ok C (ts_peer S) V" "chat_readable C (ts_peer S) V" and "ch_good V c"
    and "\<forall>i\<in>set (concat css). stored_doc V c i \<noteq> None"
  shows "\<exists>outs c'. get_chunks C S css c = (Inr outs, c')"
  using assms(3-)
proof (induction css arbitrary: c)
  case Nil
  then show ?case by simp
next
  case (Cons chunk css)
  obtain ms c1 where g: "client_get_messages_by_id C (ts_peer S) chunk c = (Inr ms, c1)"
    using chat(2) Cons.prems(1) unfolding chat_readable_def by blast
  note u = chat_okD(6) [OF chat(1) Cons.prems(1) g]
  then have good: "ch_good V c1" and ms: "list_all2 (answers_id (ch_posts V c1) (ch_files V c1)) chunk ms"
    and st: "stored_doc V c1 = stored_doc V c"
    using stored_doc_unchanged [of V c c1] by (simp_all add: unchanged_def)
  obtain outs c2 where d: "download_all C ms c1 = (Inr outs, c2)"
    using download_all_live [OF chat good ms] Cons.prems(2) st by auto
  then have u2: "unchanged V c1 c2" using download_all_reads [OF chat(1) good ms d] by simp
  then have "ch_good V c2" "stored_doc V c2 = stored_doc V c" using stored_doc_unchanged [OF u2] st by (simp_all add: unchanged_def)
  then obtain outs2 c3 where "get_chunks C S css c2 = (Inr outs2, c3)" using Cons.IH [of c2] Cons.prems(2) by auto
  then show ?case using g d by (simp add: bnd_apply call_def)
qed

lemma telegram_get_live:
  assumes chat: "chat_ok C (ts_peer S) V" "chat_readable C (ts_peer S) V" and good: "ch_good V c"
    and st: "\<forall>i\<in>set ids. stored_doc V c i \<noteq> None"
  shows "\<exists>c'. telegram_get_messages_by_id C S ids c = (Inr (map (stored_doc V c) ids), c') \<and> unchanged V c c'"
proof -
  obtain outs c' where g: "telegram_get_messages_by_id C S ids c = (Inr outs, c')"
    using get_chunks_live [OF chat good, of "chunks 100 ids"] st concat_chunks [of 100 ids]
    by (auto simp: telegram_get_messages_by_id_def)
  have r: "unchanged V c c'" "list_all2 (reads_doc V c) ids outs" using telegram_get_reads [OF chat(1) good g] by simp_all
  have "outs = map (stored_doc V c) ids"
  proof (rule nth_equalityI)
    show "length outs = length (map (stored_doc V c) ids)" using r(2) by (simp add: list_all2_lengthD)
    fix k assume k: "k < length outs"
    then have k': "k < length ids" using r(2) by (simp add: list_all2_lengthD)
    have rd: "reads_doc V c (ids ! k) (outs ! k)" by (rule list_all2_nthD [OF r(2) k'])
    obtain bs where bs: "stored_doc V c (ids ! k) = Some bs" using st k' by (meson not_None_eq nth_mem)
    then have "ids ! k \<in> fst ` set (ch_posts V c)"
      by (auto simp: stored_doc_def bind_eq_Some_conv dest!: map_of_SomeD intro: image_eqI [of _ fst "(ids ! k, _)"])
    then show "outs ! k = map (stored_doc V c) ids ! k" using rd bs k' by (auto simp: reads_doc_def split: option.splits)
  qed
  then show ?thesis using g r(1) by auto
qed

lemma telegram_fetch_live:
  assumes chat: "chat_ok C (ts_peer S) V" "chat_readable C (ts_peer S) V" and good: "ch_good V c"
    and st: "stored_doc V c (ref_message_id r) = Some bs" and d: "decode L bs (ref_object_id r) (ref_generation r) = Inr e"
    and sha: "sha256_hex L bs = ref_sha256 r"
  shows "\<exists>c'. telegram_fetch_object L C S r c = (Inr bs, c') \<and> unchanged V c c'"
proof -
  obtain c' where "telegram_get_messages_by_id C S [ref_message_id r] c = (Inr [Some bs], c')" "unchanged V c c'"
    using telegram_get_live [OF chat good, of "[ref_message_id r]"] st by auto
  then show ?thesis using d sha by (auto simp: telegram_fetch_object_def bnd_apply)
qed

lemma download_all_no_panic: "fst (download_all C ms c) \<noteq> Inl (Panic msg)"
proof (induction ms arbitrary: c)
  case Nil
  then show ?case by simp
next
  case (Cons m ms)
  have "join_chunks xs \<noteq> Inl (Panic msg)" for xs
    by (induction xs) (auto simp: rbind_Inl_iff split: sum.splits)
  then have "fst (download_message_media C x c) \<noteq> Inl (Panic msg)" for x c
    by (auto simp: download_message_media_def ok_or_def bnd_apply split: option.splits prod.splits)
  then show ?case using Cons
    by (cases m) (auto simp: bnd_apply split: prod.splits sum.splits; metis fst_conv)+
qed

lemma get_chunks_no_panic: "fst (get_chunks C S css c) \<noteq> Inl (Panic msg)"
proof (induction css arbitrary: c)
  case Nil
  then show ?case by simp
next
  case (Cons chunk css)
  then show ?case using download_all_no_panic [of C _ _ msg]
    by (auto simp: bnd_apply call_def split: prod.splits sum.splits) (metis fst_conv)+
qed

lemma telegram_readable_backend:
  assumes "chat_ok C (ts_peer S) V" "chat_readable C (ts_peer S) V"
  shows "readable_backend (telegram_backend L C S) (ch_good V) (\<lambda>_ _. True) (stored_doc V) L"
proof (intro readable_backend.intro telegram_remote_backend readable_backend_axioms.intro)
  show "chat_ok C (ts_peer S) V" by fact
  fix b and r :: RemoteObjectRef and bs e
  assume "ch_good V b" "stored_doc V b (ref_message_id r) = Some bs" "decode L bs (ref_object_id r) (ref_generation r) = Inr e"
    "sha256_hex L bs = ref_sha256 r"
  then show "\<exists>b'. fetch_object (telegram_backend L C S) r b = (Inr bs, b')"
    using telegram_fetch_live [OF assms] by (fastforce simp: telegram_backend_def)
next
  show "get_messages_by_id (telegram_backend L C S) ids b \<noteq> (Inl (Panic msg), b')" for b ids msg b'
    using get_chunks_no_panic [of C S "chunks 100 ids" b msg] by (auto simp: telegram_backend_def telegram_get_messages_by_id_def)
qed

section \<open>Committed manifests\<close>

text \<open>An envelope with a payload is stored under a reference that describes it.\<close>

definition holds_envelope :: "libs \<Rightarrow> 'c chat \<Rightarrow> 'c \<Rightarrow> RemoteObjectRef \<Rightarrow> bytes \<Rightarrow> bool" where
  "holds_envelope L V c r payload \<longleftrightarrow> (\<exists>enc env. stored_doc V c (ref_message_id r) = Some enc \<and>
     decode L enc (ref_object_id r) (ref_generation r) = Inr env \<and> sha256_hex L enc = ref_sha256 r \<and> env_payload env = payload)"

lemma map_le_SomeD: "f \<subseteq>\<^sub>m g \<Longrightarrow> f x = Some y \<Longrightarrow> g x = Some y"
  by (auto simp: map_le_def dom_def)

lemma holds_envelope_mono: "holds_envelope L V c r payload \<Longrightarrow> chat_ok C P V \<Longrightarrow> extended V c c' \<Longrightarrow> holds_envelope L V c' r payload"
  using map_le_SomeD [OF stored_doc_mono [of C P V c c']] by (auto simp: holds_envelope_def)

lemma fetch_envelope:
  assumes "chat_ok C (ts_peer S) V" "chat_readable C (ts_peer S) V" "ch_good V c" "holds_envelope L V c r payload"
  shows "\<exists>enc env c'. telegram_fetch_object L C S r c = (Inr enc, c') \<and> unchanged V c c' \<and>
    decode L enc (ref_object_id r) (ref_generation r) = Inr env \<and> env_payload env = payload"
  using assms(4) telegram_fetch_live [OF assms(1-3)] unfolding holds_envelope_def by blast

text \<open>No superblock in the channel has a generation above \<open>g\<close>.\<close>

definition below :: "libs \<Rightarrow> 'c chat \<Rightarrow> u64 \<Rightarrow> 'c \<Rightarrow> bool" where
  "below L V g c \<longleftrightarrow> (\<forall>p\<in>set (ch_posts V c). \<forall>sb. decode_text L (fst (snd p)) = Inr sb \<longrightarrow> sb_manifest_generation sb \<le> g)"

lemma decode_text_prefix: "decode_text L t = Inr sb \<Longrightarrow> prefix SUPERBLOCK_PREFIX t"
  by (auto simp: decode_text_def strip_prefix_def rbind_Inr_iff ok_or_Inr_iff split: if_splits)

lemma caption_not_superblock: "decode_text L (''TGDRIVE '' @ caption) \<noteq> Inr sb"
  using decode_text_prefix [of L "''TGDRIVE '' @ caption" sb] by (auto simp: SUPERBLOCK_PREFIX_def)

lemma empty_not_superblock: "decode_text L [] \<noteq> Inr sb"
  using decode_text_prefix [of L "[]" sb] by (auto simp: SUPERBLOCK_PREFIX_def)

lemma below_unchanged: "unchanged V c c' \<Longrightarrow> below L V g c' = below L V g c"
  by (simp add: below_def unchanged_def)

lemma below_posted:
  assumes "posted V text c c'" "\<And>sb. decode_text L text \<noteq> Inr sb" "below L V g c"
  shows "below L V g c'"
proof -
  obtain new where n: "ch_posts V c' = new @ ch_posts V c" "\<forall>p\<in>set new. fst (snd p) = text"
    using assms(1) by (auto simp: posted_def)
  then have "decode_text L (fst (snd p)) \<noteq> Inr sb" if "p \<in> set new" for p sb using that assms(2) by simp
  then show ?thesis using assms(3) by (auto simp: below_def n(1))
qed

lemma telegram_send_below:
  assumes chat: "chat_ok C (ts_peer S) V" "ch_good V c" and snd_: "telegram_send_object L C S oid gen payload sha c = (y, c')"
    and b: "below L V g c"
  shows "below L V g c'"
proof (cases "decode L payload oid gen")
  case (Inl e)
  then show ?thesis using snd_ b by (auto simp: telegram_send_object_def)
next
  case (Inr env)
  let ?name = "''tgdrive-'' @ hex16 oid @ ''-'' @ hex16 gen @ ''.bin''"
  let ?caption = "''TGDRIVE object='' @ show_nat (unat oid) @ '' generation='' @ show_nat (unat gen) @ '' sha256='' @ sha"
  obtain x c1 where up: "upload_stream C payload (length payload) ?name c = (x, c1)" by force
  have u: "unchanged V c c1" using chat_okD(2) [OF chat up] by simp
  have b1: "below L V g c1" using b below_unchanged [OF u] by simp
  show ?thesis
  proof (cases x)
    case (Inl e)
    then show ?thesis using snd_ Inr up b1 by (auto simp: telegram_send_object_def bnd_apply call_def Let_def)
  next
    case yes: (Inr h)
    obtain z c2 where sm: "send_message C (ts_peer S) ?caption (Some h) c1 = (z, c2)" by force
    have "posted V ?caption c1 c2" using chat_okD(3) [OF chat(1) framesD(1) [OF u] sm] by simp
    then have "below L V g c2"
      by (rule below_posted [OF _ _ b1]) (use caption_not_superblock [of L "drop 8 ?caption"] in simp)
    then show ?thesis using snd_ Inr up yes sm by (auto simp: telegram_send_object_def bnd_apply call_def Let_def split: sum.splits)
  qed
qed

text \<open>The contract with an invariant that also bounds the generations of the superblocks.\<close>

lemma telegram_below_backend:
  assumes chat: "chat_ok C (ts_peer S) V"
  shows "remote_backend (telegram_backend L C S) (\<lambda>c. ch_good V c \<and> below L V g c) (\<lambda>_ _. True) (stored_doc V)"
proof -
  let ?B = "telegram_backend L C S"
  note rb = telegram_remote_backend [OF chat, of L]
  have fetches: "below L V g b'" if "ch_good V b" "below L V g b" "fetch_object ?B r b = (x, b')" for b b' r x
    using that telegram_fetch_reads [OF chat that(1), of L r x b'] below_unchanged [of V b b'] by (simp add: telegram_backend_def)
  have gets: "below L V g b'" if "ch_good V b" "below L V g b" "get_messages_by_id ?B ids b = (y, b')" for b b' ids y
    using that telegram_get_reads [OF chat that(1), of ids y b'] below_unchanged [of V b b'] by (simp add: telegram_backend_def)
  have sends: "below L V g b'" if "ch_good V b" "below L V g b" "send_object ?B oid gen payload sha b = (x, b')" for b b' oid gen payload sha x
    using that telegram_send_below [OF chat that(1)] by (simp add: telegram_backend_def)
  show ?thesis
  proof (unfold_locales, goal_cases)
    case (1 b n oid gen payload sha r b')
    then show ?case using remote_backend.send_ok [OF rb _ _ 1(3)] sends [OF _ _ 1(3)] by simp
  next
    case (2 b n oid gen payload sha e b')
    then show ?case using remote_backend.send_err [OF rb _ _ 2(3)] sends [OF _ _ 2(3)] by simp
  next
    case (3 b r x b')
    then show ?case using remote_backend.fetch [OF rb _ 3(2)] fetches [OF _ _ 3(2)] by simp
  next
    case (4 b ids y b')
    then show ?case using remote_backend.get_messages [OF rb _ 4(2)] gets [OF _ _ 4(2)] by simp
  qed simp
qed

lemma send_envelope:
  assumes chat: "chat_ok C (ts_peer S) V" "ch_good V c" and L: "digest32 L"
    and s: "telegram_send_object L C S oid gen (encode L \<lparr>env_object_id = oid, env_generation = gen, env_object_size = osz,
          env_flags = 0, env_payload = payload\<rparr>) (sha256_hex L (encode L \<lparr>env_object_id = oid, env_generation = gen,
          env_object_size = osz, env_flags = 0, env_payload = payload\<rparr>)) c = (Inr r, c')"
  shows "extended V c c' \<and> holds_envelope L V c' r payload \<and> ref_object_id r = oid \<and> ref_generation r = gen \<and>
    (below L V g c \<longrightarrow> below L V g c')"
proof -
  let ?e = "\<lparr>env_object_id = oid, env_generation = gen, env_object_size = osz, env_flags = 0, env_payload = payload\<rparr>"
  obtain caption e where t: "extended V c c'" "ch_posts V c' = (ref_message_id r, ''TGDRIVE '' @ caption, Some (encode L ?e)) # ch_posts V c"
    "decode L (encode L ?e) oid gen = Inr e" "ref_object_id r = oid" "ref_generation r = gen" "ref_sha256 r = sha256_hex L (encode L ?e)"
    using telegram_send_stores [OF chat s] by blast
  have "e = ?e" using t(3) L by (simp add: encode_layout decode_layout_Inr_iff)
  then have "holds_envelope L V c' r payload" using t stored_first [OF t(2)] by (simp add: holds_envelope_def)
  moreover have "below L V g c \<longrightarrow> below L V g c'" using caption_not_superblock by (auto simp: below_def t(2))
  ultimately show ?thesis using t by blast
qed

definition holds_leaf :: "libs \<Rightarrow> 'c chat \<Rightarrow> 'c \<Rightarrow> ManifestTreeLeafRef \<Rightarrow> ManifestTreeLeaf \<Rightarrow> bool" where
  "holds_leaf L V c lref leaf \<longleftrightarrow> (\<exists>payload. holds_envelope L V c (lr_remote lref) payload \<and> unjson_leaf L payload = Inr leaf)"

definition holds_manifest :: "libs \<Rightarrow> 'c chat \<Rightarrow> 'c \<Rightarrow> RemoteObjectRef \<Rightarrow> ManifestEncoding \<Rightarrow> Manifest \<Rightarrow> bool" where
  "holds_manifest L V c r enc m \<longleftrightarrow> (\<exists>payload. holds_envelope L V c r payload \<and>
     (case enc of
        FlatJson \<Rightarrow> unjson_manifest L payload = Inr m
      | Tree \<Rightarrow> \<exists>root leaves. unjson_root L payload = Inr root \<and> list_all2 (holds_leaf L V c) (tr_leaves root) leaves \<and>
          from_tree_root_and_leaves root leaves = Inr m))"

lemma holds_leaf_mono: "holds_leaf L V c lref leaf \<Longrightarrow> chat_ok C P V \<Longrightarrow> extended V c c' \<Longrightarrow> holds_leaf L V c' lref leaf"
  by (auto simp: holds_leaf_def intro: holds_envelope_mono)

lemma holds_manifest_mono:
  assumes "holds_manifest L V c r enc m" "chat_ok C P V" "extended V c c'"
  shows "holds_manifest L V c' r enc m"
proof -
  have "list_all2 (holds_leaf L V c) xs ys \<Longrightarrow> list_all2 (holds_leaf L V c') xs ys" for xs ys
    by (erule list_all2_mono) (rule holds_leaf_mono [OF _ assms(2,3)])
  then show ?thesis using assms(1) holds_envelope_mono [OF _ assms(2,3)]
    unfolding holds_manifest_def by (cases enc) (auto, blast+)
qed

lemma send_flat_holds:
  assumes chat: "chat_ok C (ts_peer S) V" "ch_good V c" and L: "digest32 L" "json_round_trips L"
    and s: "send_flat_manifest L C S m osz c = (Inr r, c')"
  shows "extended V c c' \<and> holds_manifest L V c' r FlatJson m \<and> ref_object_id r = MANIFEST_OBJECT_ID \<and>
    ref_generation r = m_generation m \<and> (below L V g c \<longrightarrow> below L V g c')"
proof -
  obtain payload where j: "json_manifest L m = Inr payload" "unjson_manifest L payload = Inr m"
    using L(2) unfolding json_round_trips_def by blast
  let ?enc = "encode L \<lparr>env_object_id = MANIFEST_OBJECT_ID, env_generation = m_generation m, env_object_size = osz,
    env_flags = 0, env_payload = payload\<rparr>"
  from s j obtain c1 enc2 where sd: "telegram_send_object L C S MANIFEST_OBJECT_ID (m_generation m) ?enc (sha256_hex L ?enc) c = (Inr r, c1)"
    and f: "telegram_fetch_object L C S r c1 = (Inr enc2, c')"
    by (auto simp: send_flat_manifest_def Let_def elim!: bnd_InrE)
  note t = send_envelope [OF chat L(1) sd, of g]
  then have good1: "ch_good V c1" using framesD(2) [of V c c1] by simp
  have u: "unchanged V c1 c'" using telegram_fetch_reads [OF chat(1) good1 f] by simp
  have ext: "extended V c1 c'" by (rule unchanged_extended [OF u])
  have "holds_manifest L V c1 r FlatJson m" using t j(2) by (auto simp: holds_manifest_def)
  then show ?thesis using t holds_manifest_mono [OF _ chat(1) ext] extended_trans [of V c c1 c'] ext below_unchanged [OF u] by blast
qed

lemma send_leaves_holds:
  assumes chat: "chat_ok C (ts_peer S) V" and "ch_good V c" and L: "digest32 L" "json_round_trips L"
    and "send_leaves L C S gen osz leaves c = (Inr refs, c')"
  shows "extended V c c' \<and> list_all2 (holds_leaf L V c') refs leaves \<and> (below L V g c \<longrightarrow> below L V g c')"
  using assms(2,5)
proof (induction leaves arbitrary: c refs)
  case Nil
  then show ?case by simp
next
  case (Cons leaf leaves)
  obtain payload where j: "json_leaf L leaf = Inr payload" "unjson_leaf L payload = Inr leaf"
    using L(2) unfolding json_round_trips_def by blast
  from Cons.prems(2) j obtain oid c1 remote refs' where
    sd: "telegram_send_object L C S oid gen (encode L \<lparr>env_object_id = oid, env_generation = gen, env_object_size = osz,
          env_flags = 0, env_payload = payload\<rparr>) (sha256_hex L (encode L \<lparr>env_object_id = oid, env_generation = gen,
          env_object_size = osz, env_flags = 0, env_payload = payload\<rparr>)) c = (Inr remote, c1)"
    and rest: "send_leaves L C S gen osz leaves c1 = (Inr refs', c')" and refs: "lr_remote (hd refs) = remote" "refs \<noteq> []" "tl refs = refs'"
    by (auto simp: Let_def elim!: bnd_InrE split: sum.splits)
  note t = send_envelope [OF chat Cons.prems(1) L(1) sd, of g]
  then have "ch_good V c1" using framesD(2) [of V c c1] by simp
  note ih = Cons.IH [OF this rest]
  have "holds_leaf L V c1 (hd refs) leaf" using t j(2) refs(1) by (auto simp: holds_leaf_def)
  then have "holds_leaf L V c' (hd refs) leaf" using ih by (auto intro: holds_leaf_mono [OF _ chat])
  then have "list_all2 (holds_leaf L V c') (hd refs # tl refs) (leaf # leaves)" using ih refs(3) by simp
  then show ?case using t ih refs(2) extended_trans [of V c c1 c'] by simp
qed

lemma send_tree_holds:
  assumes chat: "chat_ok C (ts_peer S) V" and good: "ch_good V c" and L: "digest32 L" "json_round_trips L"
    and wf: "manifest_wf m" and s: "send_manifest_tree L C S m osz c = (Inr r, c')"
  shows "extended V c c' \<and> holds_manifest L V c' r Tree m \<and> ref_object_id r = MANIFEST_OBJECT_ID \<and>
    ref_generation r = m_generation m \<and> (below L V g c \<longrightarrow> below L V g c')"
proof -
  let ?n = MANIFEST_TREE_LEAF_SPAN and ?leaves = "leaves_of m MANIFEST_TREE_LEAF_SPAN"
  have tl: "tree_leaves m ?n = Inr ?leaves" by (simp add: tree_leaves_Inr MANIFEST_TREE_LEAF_SPAN_def)
  from s tl obtain refs c1 where sl: "send_leaves L C S (m_generation m) osz ?leaves c = (Inr refs, c1)"
    by (auto simp: send_manifest_tree_def elim!: bnd_InrE)
  note t1 = send_leaves_holds [OF chat good L sl, of g]
  then have good1: "ch_good V c1" using framesD(2) [of V c c1] by simp
  let ?root = "root_of m ?n refs"
  obtain payload where j: "json_root L ?root = Inr payload" "unjson_root L payload = Inr ?root"
    using L(2) unfolding json_round_trips_def by blast
  let ?enc = "encode L \<lparr>env_object_id = MANIFEST_OBJECT_ID, env_generation = m_generation m, env_object_size = osz,
    env_flags = 0, env_payload = payload\<rparr>"
  from s tl sl j obtain c2 enc2 where sd: "telegram_send_object L C S MANIFEST_OBJECT_ID (m_generation m) ?enc (sha256_hex L ?enc) c1 = (Inr r, c2)"
    and f: "telegram_fetch_object L C S r c2 = (Inr enc2, c')"
    by (auto simp: send_manifest_tree_def Let_def root_of_def bnd_Inr elim!: bnd_InrE)
  note t2 = send_envelope [OF chat good1 L(1) sd, of g]
  then have good2: "ch_good V c2" using framesD(2) [of V c1 c2] by simp
  have u: "unchanged V c2 c'" using telegram_fetch_reads [OF chat good2 f] by simp
  have ext: "extended V c2 c'" by (rule unchanged_extended [OF u])
  have "list_all2 (holds_leaf L V c2) refs ?leaves"
    using t1 t2 by (auto elim!: list_all2_mono intro: holds_leaf_mono [OF _ chat])
  moreover have "from_tree_root_and_leaves ?root ?leaves = Inr m" by (rule tree_reassembles [OF wf tl refl])
  moreover have "tr_leaves ?root = refs" by (simp add: root_of_def)
  ultimately have "holds_manifest L V c2 r Tree m"
    unfolding holds_manifest_def using t2 j(2) by (intro exI [of _ payload]) (auto intro!: exI [of _ ?root])
  then show ?thesis
    using t1 t2 holds_manifest_mono [OF _ chat ext] extended_trans [of V c c1 c2] extended_trans [of V c c2 c'] ext below_unchanged [OF u]
    by auto
qed

lemma decode_leaves_holds:
  "list_all2 (holds_leaf L V c) refs leaves \<Longrightarrow>
   decode_manifest_leaves L (zip refs (map (\<lambda>lref. stored_doc V c (ref_message_id (lr_remote lref))) refs)) = Inr leaves"
  by (induction refs leaves rule: list_all2_induct) (auto simp: holds_leaf_def holds_envelope_def)

lemma fetch_manifest_live:
  assumes chat: "chat_ok C (ts_peer S) V" "chat_readable C (ts_peer S) V" and good: "ch_good V c"
    and h: "holds_manifest L V c r (sb_manifest_encoding sb) m" and r: "ref_object_id r = MANIFEST_OBJECT_ID"
    "sb_current_manifest_message_id sb = ref_message_id r" "sb_manifest_generation sb = ref_generation r" "sb_manifest_hash sb = ref_sha256 r"
  shows "\<exists>c'. fetch_manifest_from_superblock L C S sb c = (Inr m, c') \<and> unchanged V c c'"
proof -
  let ?r = "\<lparr>ref_chat_id = bot_api_dialog_id C (pr_id (ts_peer S)), ref_message_id = sb_current_manifest_message_id sb,
    ref_object_id = MANIFEST_OBJECT_ID, ref_generation = sb_manifest_generation sb, ref_sha256 = sb_manifest_hash sb\<rparr>"
  obtain payload where p: "holds_envelope L V c ?r payload" and rest: "case sb_manifest_encoding sb of
        FlatJson \<Rightarrow> unjson_manifest L payload = Inr m
      | Tree \<Rightarrow> \<exists>root leaves. unjson_root L payload = Inr root \<and> list_all2 (holds_leaf L V c) (tr_leaves root) leaves \<and>
          from_tree_root_and_leaves root leaves = Inr m"
    using h by (auto simp: holds_manifest_def holds_envelope_def r)
  obtain enc env c1 where f: "telegram_fetch_object L C S ?r c = (Inr enc, c1)" "unchanged V c c1"
    "decode L enc MANIFEST_OBJECT_ID (sb_manifest_generation sb) = Inr env" "env_payload env = payload"
    using fetch_envelope [OF chat good p] by auto
  show ?thesis
  proof (cases "sb_manifest_encoding sb")
    case FlatJson
    then show ?thesis using f rest by (auto simp: fetch_manifest_from_superblock_def bnd_apply)
  next
    case Tree
    then obtain root leaves where root: "unjson_root L payload = Inr root" "list_all2 (holds_leaf L V c) (tr_leaves root) leaves"
      "from_tree_root_and_leaves root leaves = Inr m" using rest by auto
    let ?ids = "map (\<lambda>leaf. ref_message_id (lr_remote leaf)) (tr_leaves root)"
    have good1: "ch_good V c1" and st: "stored_doc V c1 = stored_doc V c"
      using f(2) stored_doc_unchanged [OF f(2)] by (simp_all add: unchanged_def)
    have "stored_doc V c i \<noteq> None" if i: "i \<in> set ?ids" for i
    proof -
      obtain lref where l: "lref \<in> set (tr_leaves root)" "i = ref_message_id (lr_remote lref)" using i by auto
      then obtain leaf where "holds_leaf L V c lref leaf" using root(2) by (auto simp: list_all2_conv_all_nth in_set_conv_nth)
      then show ?thesis by (auto simp: l(2) holds_leaf_def holds_envelope_def)
    qed
    then obtain c2 where g: "telegram_get_messages_by_id C S ?ids c1 = (Inr (map (stored_doc V c) ?ids), c2)" "unchanged V c1 c2"
      using telegram_get_live [OF chat good1, of ?ids] by (auto simp: st)
    have "decode_manifest_leaves L (zip (tr_leaves root) (map (stored_doc V c) ?ids)) = Inr leaves"
      using decode_leaves_holds [OF root(2)] by (simp add: comp_def)
    then show ?thesis using Tree f g root unchanged_trans [OF f(2) g(2)]
      by (auto simp: fetch_manifest_from_superblock_def fetch_manifest_tree_leaves_def bnd_apply)
  qed
qed

text \<open>A superblock update posts the text once or twice, with service messages in between.\<close>

lemma upsert_posts:
  assumes chat: "chat_ok C (ts_peer S) V" and good: "ch_good V c"
    and u: "upsert_pinned_superblock C S text c = (Inr i, c')"
  shows "extended V c c' \<and> (\<exists>j new. ch_posts V c' = (j, text, None) # new @ ch_posts V c \<and> (\<forall>p\<in>set new. fst (snd p) \<in> {text, []}))"
proof -
  have send: "extended V a a' \<and> ch_posts V a' = (msg_id m, text, None) # ch_posts V a"
    if "ch_good V a" "send_message C (ts_peer S) text None a = (Inr m, a')" for a a' m
    using chat_okD(3) [OF chat that] posted_extended by auto
  obtain pinned c1 where p: "pinned_message C S c = (Inr pinned, c1)"
    using u by (auto simp: upsert_pinned_superblock_def elim: bnd_InrE)
  have u1: "unchanged V c c1" using keeps_pinned [OF chat] good p unfolding keeps_def by (metis snd_conv)
  have c1: "ch_good V c1" "ch_posts V c1 = ch_posts V c" "extended V c c1"
    using u1 unchanged_extended [OF u1] by (simp_all add: unchanged_def)
  let ?old = "case pinned of Some message \<Rightarrow> if prefix SUPERBLOCK_PREFIX (msg_text message) then Some message else None | None \<Rightarrow> None"
  show ?thesis
  proof (cases ?old)
    case (Some old)
    then obtain m where "send_message C (ts_peer S) text None c1 = (Inr m, c')"
      using u p by (auto simp: upsert_pinned_superblock_def send_superblock_backup_def bnd_apply call_def split: prod.splits sum.splits)
    from send [OF c1(1) this] show ?thesis using c1 extended_trans [of V c c1 c'] by auto
  next
    case None
    then obtain m2 c2 c3 m3 where s2: "send_message C (ts_peer S) text None c1 = (Inr m2, c2)"
      and pin: "pin_message C (ts_peer S) (msg_id m2) c2 = (Inr (), c3)" and s3: "send_message C (ts_peer S) text None c3 = (Inr m3, c')"
      using u p by (auto simp: upsert_pinned_superblock_def send_superblock_backup_def bnd_apply call_def split: prod.splits sum.splits)
    have c2: "extended V c1 c2" "ch_posts V c2 = (msg_id m2, text, None) # ch_posts V c" "ch_good V c2"
      using send [OF c1(1) s2] c1(2) framesD(2) [of V c1 c2] by simp_all
    obtain new where new: "ch_posts V c3 = new @ ch_posts V c2" "\<forall>p\<in>set new. fst (snd p) = []" "extended V c2 c3"
      using chat_okD(4) [OF chat c2(3) pin] unfolding posted_def by blast
    have c': "extended V c3 c'" "ch_posts V c' = (msg_id m3, text, None) # ch_posts V c3" using send [OF framesD(2) [OF new(3)] s3] by simp_all
    have "ch_posts V c' = (msg_id m3, text, None) # (new @ [(msg_id m2, text, None)]) @ ch_posts V c" by (simp add: c'(2) new(1) c2(2))
    moreover have "\<forall>p\<in>set (new @ [(msg_id m2, text, None)]). fst (snd p) \<in> {text, []}" using new(2) by auto
    moreover have "extended V c c'" by (rule extended_trans [OF c1(3) extended_trans [OF c2(1) extended_trans [OF new(3) c'(1)]]])
    ultimately show ?thesis by blast
  qed
qed

lemma upsert_superblock:
  assumes chat: "chat_ok C (ts_peer S) V" and good: "ch_good V c" and b: "below L V g c"
    and d: "decode_text L text = Inr sb" "sb_manifest_generation sb \<le> g"
    and u: "upsert_pinned_superblock C S text c = (Inr i, c')"
  shows "extended V c c' \<and> below L V g c' \<and> (\<exists>j rest. ch_posts V c' = (j, text, None) # rest)"
proof -
  obtain j new where n: "extended V c c'" "ch_posts V c' = (j, text, None) # new @ ch_posts V c" "\<forall>p\<in>set new. fst (snd p) \<in> {text, []}"
    using upsert_posts [OF chat good u] by blast
  have "sb_manifest_generation s \<le> g" if q: "p \<in> set new" "decode_text L (fst (snd p)) = Inr s" for p s
  proof -
    have "fst (snd p) = text" using n(3) q empty_not_superblock [of L s] by fastforce
    then show ?thesis using q(2) d by simp
  qed
  then have "below L V g c'" using b d unfolding below_def n(2) by auto
  then show ?thesis using n(1,2) by blast
qed

text \<open>The state after a successful commit.\<close>

lemma commit_holds:
  assumes chat: "chat_ok C (ts_peer S) V" and good: "ch_good V c" and L: "digest32 L" "json_round_trips L"
    and wf: "manifest_wf m" and b: "below L V (m_generation m) c"
    and s: "commit_manifest L C S m dsz lsz osz c = (Inr (), c')"
  shows "\<exists>sb r text j rest. extended V c c' \<and> below L V (m_generation m) c' \<and> ch_posts V c' = (j, text, None) # rest \<and>
    decode_text L text = Inr sb \<and> holds_manifest L V c' r (sb_manifest_encoding sb) m \<and> ref_object_id r = MANIFEST_OBJECT_ID \<and>
    sb_current_manifest_message_id sb = ref_message_id r \<and> sb_manifest_generation sb = ref_generation r \<and>
    sb_manifest_hash sb = ref_sha256 r \<and> ref_generation r = m_generation m \<and>
    sb_device_uuid sb = m_device_uuid m \<and> sb_device_size sb = dsz \<and> sb_object_size sb = osz"
proof -
  let ?tree = "MANIFEST_TREE_LEAF_SPAN < length (m_objects m)" and ?g = "m_generation m"
  obtain r c1 where sm: "(if ?tree then send_manifest_tree L C S m osz else send_flat_manifest L C S m osz) c = (Inr r, c1)"
    using s by (auto simp: commit_manifest_def Let_def elim!: bnd_InrE)
  have h: "extended V c c1" "holds_manifest L V c1 r (if ?tree then Tree else FlatJson) m" "ref_object_id r = MANIFEST_OBJECT_ID"
    "ref_generation r = ?g" "below L V ?g c1"
    using send_tree_holds [OF chat good L wf, of osz r c1 ?g] send_flat_holds [OF chat good L, of m osz r c1 ?g] sm b
    by (auto split: if_splits)
  have step: "bnd (if ?tree then send_manifest_tree L C S m osz else send_flat_manifest L C S m osz) f c = f r c1" for f :: "RemoteObjectRef \<Rightarrow> ('a, unit) st"
    by (rule bnd_Inr) (rule sm)
  obtain pinned c2 where p: "pinned_superblock_text C S c1 = (Inr pinned, c2)"
    using s unfolding commit_manifest_def Let_def step by (auto elim!: bnd_InrE split: if_splits)
  have "keeps V (pinned_superblock_text C S)"
    unfolding pinned_superblock_text_def by (intro keeps_bnd keeps_pinned [OF chat] keeps_pure)
  then have u: "unchanged V c1 c2" using framesD(2) [OF h(1)] p unfolding keeps_def by (metis snd_conv)
  define sb where "sb = (if ?tree
      then for_tree_manifest (utc_now C c2) (m_device_uuid m) dsz lsz osz r (case pinned of None \<Rightarrow> None | Some t \<Rightarrow> (case decode_text L t of Inl _ \<Rightarrow> None | Inr s \<Rightarrow> Some s))
      else for_manifest (utc_now C c2) (m_device_uuid m) dsz lsz osz r (case pinned of None \<Rightarrow> None | Some t \<Rightarrow> (case decode_text L t of Inl _ \<Rightarrow> None | Inr s \<Rightarrow> Some s)))"
  obtain json where j: "json_superblock L sb = Inr json" "unjson_superblock L json = Inr sb"
    using L(2) unfolding json_round_trips_def by blast
  let ?text = "SUPERBLOCK_PREFIX @ json"
  have dt: "decode_text L ?text = Inr sb" using j(2) by (simp add: decode_text_def strip_prefix_def)
  have "bnd (lift (encode_text L sb)) (\<lambda>text. bnd (upsert_pinned_superblock C S text) (\<lambda>_. ret ())) c2 = (Inr (), c')"
    using s unfolding commit_manifest_def Let_def step by (simp add: bnd_apply [of "pinned_superblock_text C S"] p sb_def split: if_splits)
  then obtain i where up: "upsert_pinned_superblock C S ?text c2 = (Inr i, c')"
    using j(1) by (auto simp: encode_text_def elim!: bnd_InrE)
  have sel: "sb_manifest_encoding sb = (if ?tree then Tree else FlatJson)" "sb_current_manifest_message_id sb = ref_message_id r"
    "sb_manifest_generation sb = ref_generation r" "sb_manifest_hash sb = ref_sha256 r" "sb_device_uuid sb = m_device_uuid m"
    "sb_device_size sb = dsz" "sb_object_size sb = osz"
    by (simp_all add: sb_def for_tree_manifest_def for_manifest_def)
  have c2: "ch_good V c2" "below L V ?g c2" using u h(5) below_unchanged [OF u] by (simp_all add: unchanged_def)
  from upsert_superblock [OF chat c2 dt _ up] sel(3) h(4)
  obtain j rest where f: "extended V c2 c'" "below L V ?g c'" "ch_posts V c' = (j, ?text, None) # rest" by auto
  have e: "extended V c1 c'" by (rule extended_trans [OF unchanged_extended [OF u] f(1)])
  have "holds_manifest L V c' r (sb_manifest_encoding sb) m" using holds_manifest_mono [OF h(2) chat e] by (simp add: sel(1))
  then show ?thesis using f dt sel h extended_trans [OF h(1) e]
    by - (rule exI [of _ sb], rule exI [of _ r], rule exI [of _ ?text], rule exI [of _ j], rule exI [of _ rest], simp)
qed

lemma best_superblock_keeps:
  assumes "\<forall>m\<in>set ms. \<forall>sb. decode_text L (msg_text m) = Inr sb \<longrightarrow> sb_manifest_generation sb \<le> g"
  shows "best_superblock L (map Inr ms) (Some (g, text)) = Inr (Some (g, text))"
  using assms by (induction ms) (auto split: sum.splits simp: not_less)

lemma recover_newest:
  assumes chat: "chat_ok C (ts_peer S) V" "chat_readable C (ts_peer S) V" and good: "ch_good V c"
    and p: "ch_posts V c = (j, text, None) # rest" "decode_text L text = Inr sb" "below L V (sb_manifest_generation sb) c" and n: "0 < n"
  shows "\<exists>c'. recover_superblock_text L C S n c = (Inr (Some text), c') \<and> unchanged V c c'"
proof -
  obtain ms c' where it: "iter_messages C (ts_peer S) n c = (map Inr ms, c')"
    using chat(2) good unfolding chat_readable_def by blast
  have u: "unchanged V c c'" and l: "list_all2 (post_shows (ch_files V c')) (take n (ch_posts V c)) ms"
    using chat_okD(7) [OF chat(1) good it] by auto
  obtain m ms' where ms: "ms = m # ms'" "msg_text m = text" "list_all2 (post_shows (ch_files V c')) (take (n - 1) rest) ms'"
    using l n p(1) by (cases n) (auto simp: list_all2_Cons1 post_shows_def)
  have "sb_manifest_generation s \<le> sb_manifest_generation sb" if m: "m' \<in> set ms'" "decode_text L (msg_text m') = Inr s" for m' s
  proof -
    obtain q where "q \<in> set (take (n - 1) rest)" "post_shows (ch_files V c') q m'"
      using ms(3) m(1) by (metis in_set_conv_nth list_all2_conv_all_nth)
    then have "q \<in> set (ch_posts V c)" "msg_text m' = fst (snd q)" using p(1) by (auto simp: post_shows_def dest: in_set_takeD)
    then show ?thesis using p(3) m(2) unfolding below_def by auto
  qed
  then have "best_superblock L (map Inr ms) None = Inr (Some (sb_manifest_generation sb, text))"
    using best_superblock_keeps [of ms' L "sb_manifest_generation sb" "text"] by (simp add: ms p(2))
  then show ?thesis using it u by (simp add: recover_superblock_text_def bnd_apply)
qed

section \<open>A channel for the examples\<close>

text \<open>
  The world is the list of posts; message ids count up from one; the handle of a file is the number
  of its contents in an enumeration of all byte strings, so every handle can be downloaded; the
  first superblock posted is the pinned message.
\<close>

definition toy_shown :: "post \<Rightarrow> Message" where
  "toy_shown p = \<lparr>msg_id = fst p, msg_text = fst (snd p), msg_media = map_option to_nat (snd (snd p))\<rparr>"

definition toy_find :: "i32 \<Rightarrow> post list \<Rightarrow> Message option" where
  "toy_find i w = map_option toy_shown (find (\<lambda>p. fst p = i) w)"

definition toy_client :: "post list client" where
  "toy_client = \<lparr>upload_stream = (\<lambda>bs n name w. (Inr (to_nat (take n bs)), w)),
     send_message = (\<lambda>peer text doc w.
       if 2 ^ 31 - 1 \<le> Suc (length w) then (Inl Dropped, w)
       else let p = (of_nat (Suc (length w)), text, map_option from_nat doc) in (Inr (toy_shown p), p # w)),
     pin_message = (\<lambda>peer i w. (Inr (), w)),
     get_pinned_message = (\<lambda>peer w. (Inr (map_option toy_shown (find (\<lambda>p. prefix SUPERBLOCK_PREFIX (fst (snd p))) (rev w))), w)),
     iter_messages = (\<lambda>peer n w. (map (Inr \<circ> toy_shown) (take n w), w)),
     client_delete_messages = (\<lambda>peer ids w. (Inr (length (filter (\<lambda>p. fst p \<in> set ids) w)), filter (\<lambda>p. fst p \<notin> set ids) w)),
     client_get_messages_by_id = (\<lambda>peer ids w. (Inr (map (\<lambda>i. toy_find i w) ids), w)),
     iter_download = (\<lambda>h w. ([Inr (from_nat h)], w)),
     iter_dialogs = (\<lambda>w. ([], w)),
     rpc_is = (\<lambda>rpc pat. rpc_name rpc = pat),
     from_bot_api_dialog_id = (\<lambda>i. Some (unat i)), bot_api_dialog_id = (\<lambda>i. of_nat i), bare_id = (\<lambda>i. of_nat i),
     to_ambient_ref = (\<lambda>i. \<lparr>pr_id = i, pr_auth = 0\<rparr>), auth_from_hash = (\<lambda>h. unat h), auth_hash = (\<lambda>a. of_nat a),
     utc_now = (\<lambda>w. int (length w)), env_var = (\<lambda>name. None), open_session = (\<lambda>path w. Inr ())\<rparr>"

definition toy_chat :: "post list chat" where
  "toy_chat = \<lparr>ch_good = (\<lambda>w. length w < 2 ^ 31 \<and> map fst w = rev (map of_nat [1..<Suc (length w)])),
     ch_posts = (\<lambda>w. w), ch_files = (\<lambda>w h. Some (from_nat h))\<rparr>"

lemma toy_shows: "post_shows (\<lambda>h. Some (from_nat h)) p (toy_shown p)"
  by (simp add: post_shows_def toy_shown_def split: option.split)

lemma toy_ids_distinct:
  assumes "n < 2 ^ 31"
  shows "distinct (map (of_nat :: nat \<Rightarrow> i32) [1..<Suc n])"
proof -
  have "unat (of_nat k :: i32) = k" if "k < Suc n" for k
    using that assms by (simp add: unsigned_of_nat take_bit_nat_eq_self)
  then have "inj_on (of_nat :: nat \<Rightarrow> i32) {1..<Suc n}" by (intro inj_onI) (metis atLeastLessThan_iff)
  then show ?thesis by (simp add: distinct_map del: upt_Suc)
qed

lemma toy_send:
  assumes "ch_good toy_chat w" "send_message toy_client P text doc w = (x, w')"
  shows "posted toy_chat text w w' \<and> (\<forall>m. x = Inr m \<longrightarrow> w' = (msg_id m, text, Option.bind doc (\<lambda>h. Some (from_nat h))) # w)"
proof (cases "2 ^ 31 - 1 \<le> Suc (length w)")
  case True
  then show ?thesis using assms by (auto simp: toy_client_def posted_def)
next
  case False
  let ?p = "(of_nat (Suc (length w)), text, map_option from_nat doc) :: post"
  have w': "x = Inr (toy_shown ?p)" "w' = ?p # w" using assms(2) False by (simp_all add: toy_client_def Let_def)
  have "ch_good toy_chat w'" using assms(1) False by (simp add: toy_chat_def w')
  moreover have "Option.bind doc (\<lambda>h. Some (from_nat h :: bytes)) = map_option from_nat doc" by (cases doc) simp_all
  ultimately show ?thesis by (auto simp: w' posted_def extended_def toy_shown_def) (simp_all add: toy_chat_def)
qed

lemma toy_chat_sel [simp]: "ch_posts toy_chat w = w" "ch_files toy_chat w = (\<lambda>h. Some (from_nat h))"
  by (simp_all add: toy_chat_def)

lemma toy_chat_ok: "chat_ok toy_client P toy_chat"
proof -
  have "distinct (map fst w)" if "ch_good toy_chat w" for w
    using that toy_ids_distinct [of "length w"] by (simp add: toy_chat_def)
  moreover have "writes_ok toy_client P toy_chat"
    unfolding writes_ok_def
  proof (intro conjI allI impI)
    fix c bs n name x c' and u :: nat
    assume "ch_good toy_chat c" "upload_stream toy_client bs n name c = (x, c')"
    then show "unchanged toy_chat c c'" "x = Inr u \<Longrightarrow> ch_files toy_chat c' u = Some (take n bs)" by (auto simp: toy_client_def)
  next
    fix c tx doc x c' m
    assume "ch_good toy_chat c" "send_message toy_client P tx doc c = (x, c')"
    note t = toy_send [OF this]
    show "posted toy_chat tx c c'" "x = Inr m \<Longrightarrow> ch_posts toy_chat c' = (msg_id m, tx, Option.bind doc (ch_files toy_chat c)) # ch_posts toy_chat c"
      using t by simp_all
  next
    fix c i x c'
    assume "ch_good toy_chat c" "pin_message toy_client P i c = (x, c')"
    then show "posted toy_chat [] c c'" by (simp add: toy_client_def posted_def)
  qed
  moreover have "reads_ok toy_client P toy_chat"
  proof -
    have "answers_id w (\<lambda>h. Some (from_nat h)) i (toy_find i w)" for i w
    proof (cases "find (\<lambda>p. fst p = i) w")
      case None
      then have "i \<notin> fst ` set w" by (auto simp: find_None_iff)
      then show ?thesis using None by (simp add: answers_id_def toy_find_def)
    next
      case (Some p)
      then have "p \<in> set w" "fst p = i" by (auto simp: find_Some_iff)
      then show ?thesis using Some toy_shows [of p] by (auto simp: answers_id_def toy_find_def)
    qed
    moreover have "list_all2 (post_shows (\<lambda>h. Some (from_nat h))) w ms" if "map (Inr \<circ> toy_shown) w = map (Inr :: Message \<Rightarrow> InvocationError + Message) ms" for w ms
      using that toy_shows by (induction w arbitrary: ms) (auto simp: Cons_eq_map_conv)
    ultimately show ?thesis
      unfolding reads_ok_def by (simp add: toy_client_def list_all2_map2 list_all2_same Cons_eq_map_conv)
  qed
  ultimately show ?thesis by (simp add: chat_ok_def)
qed

lemma toy_chat_readable: "chat_readable toy_client P toy_chat"
  unfolding chat_readable_def
  by (auto simp: toy_client_def intro: exI [of _ "[_]"] exI [of _ "map toy_shown _"])

end
