(* ===== verification/ChannelExample.thy ===== *)
theory ChannelExample
  imports TelegramRel
begin

text \<open>
  A concrete channel and concrete libraries for the witnesses: two commits to the channel of
  \<open>toy_client\<close>, computed.
\<close>

section \<open>The calls of the example\<close>

text \<open>Libraries whose JSON of two given manifests is short.\<close>

definition small_libs :: "Manifest \<Rightarrow> Manifest \<Rightarrow> libs" where
  "small_libs a b = (toy_libs True)
     \<lparr>json_manifest := (\<lambda>m. Inr (if m = a then [] else if m = b then [0] else replicate (2 + to_nat m) 0)),
      unjson_manifest := (\<lambda>bs. Inr (if bs = [] then a else if length bs = 1 then b else from_nat (length bs - 2)))\<rparr>"

lemma small_libs_ok [simp]: "digest32 (small_libs a b)" "json_round_trips (small_libs a b)"
  using toy_libs_ok(1,3) [of True]
  by (simp_all add: digest32_def small_libs_def json_round_trips_def)

lemma small_libs_json:
  "json_manifest (small_libs a b) a = Inr []" "a \<noteq> b \<Longrightarrow> json_manifest (small_libs a b) b = Inr [0]"
  "unjson_manifest (small_libs a b) [] = Inr a"  "unjson_manifest (small_libs a b) [0] = Inr b"
  by (auto simp: small_libs_def)

definition toy_post :: "post list \<Rightarrow> string \<Rightarrow> bytes option \<Rightarrow> post" where
  "toy_post w text doc = (of_nat (Suc (length w)), text, doc)"

lemma toy_calls:
  "upload_stream toy_client bs n name w = (Inr (to_nat (take n bs)), w)"
  "Suc (length w) < 2 ^ 31 - 1 \<Longrightarrow> send_message toy_client peer text doc w = (let p = toy_post w text (map_option from_nat doc) in (Inr (toy_shown p), p # w))"
  "pin_message toy_client peer i w = (Inr (), w)"
  "get_pinned_message toy_client peer w = (Inr (map_option toy_shown (find (\<lambda>p. prefix SUPERBLOCK_PREFIX (fst (snd p))) (rev w))), w)"
  "client_get_messages_by_id toy_client peer ids w = (Inr (map (\<lambda>i. toy_find i w) ids), w)"
  "iter_download toy_client h w = ([Inr (from_nat h)], w)"
  "bot_api_dialog_id toy_client k = of_nat k" "utc_now toy_client w = int (length w)" "env_var toy_client x = None"
  by (simp_all add: toy_client_def toy_post_def)

definition toy_caption :: "libs \<Rightarrow> u64 \<Rightarrow> u64 \<Rightarrow> bytes \<Rightarrow> string" where
  "toy_caption L oid gen payload = ''TGDRIVE object='' @ show_nat (unat oid) @ '' generation='' @ show_nat (unat gen) @ '' sha256='' @ sha256_hex L payload"

lemma toy_send_object:
  assumes "decode L payload oid gen = Inr e" "Suc (length w) < 2 ^ 31 - 1"
  shows "telegram_send_object L toy_client S oid gen payload (sha256_hex L payload) w =
    (Inr \<lparr>ref_chat_id = of_nat (pr_id (ts_peer S)), ref_message_id = of_nat (Suc (length w)), ref_object_id = oid,
          ref_generation = gen, ref_sha256 = sha256_hex L payload\<rparr>,
     toy_post w (toy_caption L oid gen payload) (Some payload) # w)"
  using assms by (simp add: telegram_send_object_def bnd_apply call_def toy_calls toy_caption_def Let_def toy_shown_def)
    (simp add: toy_post_def)

lemma toy_fetch:
  assumes "decode L bs oid gen = Inr e" "find (\<lambda>p. fst p = i) w = Some (i, tx, Some bs)"
  shows "telegram_fetch_object L toy_client S \<lparr>ref_chat_id = cid, ref_message_id = i, ref_object_id = oid,
      ref_generation = gen, ref_sha256 = sha256_hex L bs\<rparr> w = (Inr bs, w)"
  using assms by (simp add: telegram_fetch_object_def telegram_get_messages_by_id_def chunks.simps bnd_apply call_def toy_calls toy_find_def toy_shown_def
      download_message_media_def)

definition flat_env :: "Manifest \<Rightarrow> u32 \<Rightarrow> bytes \<Rightarrow> ObjectEnvelope" where
  "flat_env m osz js = \<lparr>env_object_id = MANIFEST_OBJECT_ID, env_generation = m_generation m, env_object_size = osz, env_flags = 0, env_payload = js\<rparr>"

lemma toy_send_flat:
  assumes "digest32 L" "json_manifest L m = Inr js" "length js < 2 ^ 64 - 76" "Suc (length w) < 2 ^ 31 - 1"
    and bs: "bs = encode L (flat_env m osz js)"
  shows "send_flat_manifest L toy_client S m osz w =
    (Inr \<lparr>ref_chat_id = of_nat (pr_id (ts_peer S)), ref_message_id = of_nat (Suc (length w)), ref_object_id = MANIFEST_OBJECT_ID,
          ref_generation = m_generation m, ref_sha256 = sha256_hex L bs\<rparr>,
     toy_post w (toy_caption L MANIFEST_OBJECT_ID (m_generation m) bs) (Some bs) # w)"
proof -
  let ?e = "flat_env m osz js"
  have d: "decode L bs MANIFEST_OBJECT_ID (m_generation m) = Inr ?e"
    using decode_encode [OF assms(1), of ?e] assms(3) by (simp add: bs flat_env_def)
  show ?thesis
    using toy_send_object [OF d assms(4), of S] d
    by (simp add: send_flat_manifest_def bnd_apply assms(2) Let_def flat_env_def [symmetric] bs [symmetric])
      (subst toy_fetch [OF d], simp_all add: toy_post_def)
qed

definition toy_pinned :: "post list \<Rightarrow> post option" where
  "toy_pinned w = find (\<lambda>p. prefix SUPERBLOCK_PREFIX (fst (snd p))) (rev w)"

definition toy_publish :: "string \<Rightarrow> post list \<Rightarrow> post list" where
  "toy_publish t w = (if toy_pinned w = None then let w1 = toy_post w t None # w in toy_post w1 t None # w1 else toy_post w t None # w)"

lemma toy_pinned_message: "pinned_message toy_client S w = (Inr (map_option toy_shown (toy_pinned w)), w)"
  by (simp add: pinned_message_def toy_calls toy_pinned_def)

lemma toy_pinned_prefix: "toy_pinned w = Some p \<Longrightarrow> prefix SUPERBLOCK_PREFIX (fst (snd p))"
  by (auto simp: toy_pinned_def find_Some_iff)

lemma toy_upsert:
  assumes "length w + 2 < 2 ^ 31 - 1" 
  shows "\<exists>i. upsert_pinned_superblock toy_client S t w = (Inr i, toy_publish t w)"
proof (cases "toy_pinned w")
  case None
  then show ?thesis using assms
    by (simp add: upsert_pinned_superblock_def send_superblock_backup_def bnd_apply toy_pinned_message call_def toy_calls toy_publish_def Let_def)
next
  case (Some p)
  then show ?thesis using assms toy_pinned_prefix [OF Some]
    by (simp add: upsert_pinned_superblock_def send_superblock_backup_def bnd_apply toy_pinned_message call_def toy_calls toy_publish_def Let_def toy_shown_def)
qed

text \<open>The posts after a commit of a flat manifest: the manifest, the superblock and its backup.\<close>

definition toy_commit :: "libs \<Rightarrow> TelegramStorage \<Rightarrow> Manifest \<Rightarrow> u64 \<Rightarrow> u32 \<Rightarrow> u32 \<Rightarrow> bytes \<Rightarrow> post list \<Rightarrow> Superblock \<times> post list" where
  "toy_commit L S m dsz lsz osz js w =
    (let bs = encode L (flat_env m osz js);
         r = \<lparr>ref_chat_id = of_nat (pr_id (ts_peer S)), ref_message_id = of_nat (Suc (length w)), ref_object_id = MANIFEST_OBJECT_ID,
          ref_generation = m_generation m, ref_sha256 = sha256_hex L bs\<rparr>;
         w1 = toy_post w (toy_caption L MANIFEST_OBJECT_ID (m_generation m) bs) (Some bs) # w;
         previous = (case toy_pinned w1 of None \<Rightarrow> None | Some p \<Rightarrow> (case decode_text L (fst (snd p)) of Inl _ \<Rightarrow> None | Inr s \<Rightarrow> Some s)) 
     in (for_manifest (int (length w1)) (m_device_uuid m) dsz lsz osz r previous, w1))"

lemma toy_commits:
  assumes "digest32 L" "json_manifest L m = Inr js" "length js < 2 ^ 64 - 76" "length (m_objects m) \<le> MANIFEST_TREE_LEAF_SPAN"
    and "length w + 3 < 2 ^ 31 - 1" "toy_commit L S m dsz lsz osz js w = (sb, w1)" "json_superblock L sb = Inr j"
  shows "commit_manifest L toy_client S m dsz lsz osz w = (Inr (), toy_publish (SUPERBLOCK_PREFIX @ j) w1)"
proof -
  have l: "length w1 + 2 < 2 ^ 31 - 1" using assms(5,6) by (auto simp: toy_commit_def Let_def)
  obtain i where u: "upsert_pinned_superblock toy_client S (SUPERBLOCK_PREFIX @ j) w1 = (Inr i, toy_publish (SUPERBLOCK_PREFIX @ j) w1)"
    using toy_upsert [OF l] by blast
  show ?thesis
    using toy_send_flat [OF assms(1-3) _ refl, of w S osz] assms(4-7) u
    by (auto simp: commit_manifest_def Let_def bnd_apply toy_calls pinned_superblock_text_def toy_pinned_message toy_commit_def encode_text_def
        toy_shown_def option.map_comp o_def split: option.splits)
qed

section \<open>Two commits\<close>

definition toy_storage :: TelegramStorage where
  "toy_storage = \<lparr>ts_config = \<lparr>tc_api_id = 1, tc_api_hash = ''h'', tc_session_path = ''s'', tc_channel_id = 5,
     tc_channel_access_hash = None, tc_channel_title = None\<rparr>, ts_peer = \<lparr>pr_id = 5, pr_auth = 0\<rparr>\<rparr>"

definition toy_manifest :: "u64 \<Rightarrow> Manifest" where
  "toy_manifest g = (manifest_empty 7 131072 512)\<lparr>m_generation := g\<rparr>"

definition two_libs :: libs where
  "two_libs = small_libs (toy_manifest 1) (toy_manifest 2)"

lemma toy_manifest_facts [simp]: "manifest_wf (toy_manifest g)" "m_generation (toy_manifest g) = g" "m_device_uuid (toy_manifest g) = 7"
  "length (m_objects (toy_manifest g)) = 512" "toy_manifest g = toy_manifest h \<longleftrightarrow> g = h"
  by (auto simp: toy_manifest_def manifest_wf_def manifest_empty_def zero_object_def comp_def map_of_nat_upt_distinct)

lemma two_libs_facts [simp]: "digest32 two_libs" "json_round_trips two_libs"
  "json_manifest two_libs (toy_manifest 1) = Inr []" "json_manifest two_libs (toy_manifest 2) = Inr [0]"
  "unjson_manifest two_libs [] = Inr (toy_manifest 1)"
  "json_superblock two_libs s = Inr (replicate (to_nat s) CHR ''x'')" "unjson_superblock two_libs t = Inr (from_nat (length t))"
  by (simp_all add: two_libs_def small_libs_json) (simp_all add: small_libs_def toy_libs_def)

definition toy_doc :: "u64 \<Rightarrow> bytes \<Rightarrow> bytes" where
  "toy_doc g js = encode two_libs (flat_env (toy_manifest g) 131072 js)"

definition toy_doc_post :: "u64 \<Rightarrow> bytes \<Rightarrow> i32 \<Rightarrow> post" where
  "toy_doc_post g js i = (i, toy_caption two_libs MANIFEST_OBJECT_ID g (toy_doc g js), Some (toy_doc g js))"

definition first_commit :: "Superblock \<times> post list" where
  "first_commit = toy_commit two_libs toy_storage (toy_manifest 1) 67108864 4096 131072 [] []"

definition first_text :: string where
  "first_text = SUPERBLOCK_PREFIX @ replicate (to_nat (fst first_commit)) CHR ''x''"

definition first_world :: "post list" where
  "first_world = [(3, first_text, None), (2, first_text, None), toy_doc_post 1 [] 1]"

definition second_commit :: "Superblock \<times> post list" where
  "second_commit = toy_commit two_libs toy_storage (toy_manifest 2) 67108864 4096 131072 [0] first_world"

definition second_text :: string where
  "second_text = SUPERBLOCK_PREFIX @ replicate (to_nat (fst second_commit)) CHR ''x''"

definition second_world :: "post list" where
  "second_world = [(5, second_text, None), toy_doc_post 2 [0] 4] @ first_world"

lemma toy_caption_plain [simp]: "prefix SUPERBLOCK_PREFIX (toy_caption L oid gen bs) = False"
  "decode_text L (toy_caption L' oid gen bs) = Inl (Anyhow ''missing superblock prefix'')"
  by (simp_all add: SUPERBLOCK_PREFIX_def toy_caption_def decode_text_def strip_prefix_def)

lemma toy_texts [simp]: "prefix SUPERBLOCK_PREFIX first_text" "prefix SUPERBLOCK_PREFIX second_text"
  "decode_text two_libs first_text = Inr (fst first_commit)" "decode_text two_libs second_text = Inr (fst second_commit)"
  by (simp_all add: first_text_def second_text_def decode_text_def strip_prefix_def)

lemma first_posts: "toy_publish first_text (snd first_commit) = first_world"
  by (simp add: first_commit_def toy_commit_def Let_def toy_publish_def toy_pinned_def toy_post_def first_world_def toy_doc_post_def toy_doc_def)

lemma first_commits: "commit_manifest two_libs toy_client toy_storage (toy_manifest 1) 67108864 4096 131072 [] = (Inr (), first_world)"
  using toy_commits [of two_libs "toy_manifest 1" "[]" "[]" toy_storage 67108864 4096 131072 "fst first_commit" "snd first_commit"] first_posts
  by (simp add: first_commit_def [symmetric] first_text_def MANIFEST_TREE_LEAF_SPAN_def)

lemma first_world_length [simp]: "length first_world = 3"
  by (simp add: first_world_def)

lemma second_posts: "toy_publish second_text (snd second_commit) = second_world"
  by (simp add: second_commit_def toy_commit_def Let_def toy_publish_def first_world_def toy_pinned_def toy_doc_post_def toy_post_def
      second_world_def toy_doc_def)

lemma second_commits:
  "commit_manifest two_libs toy_client toy_storage (toy_manifest 2) 67108864 4096 131072 first_world = (Inr (), second_world)"
  using toy_commits [of two_libs "toy_manifest 2" "[0]" first_world toy_storage 67108864 4096 131072 "fst second_commit" "snd second_commit"] second_posts
  by (simp add: second_commit_def [symmetric] second_text_def MANIFEST_TREE_LEAF_SPAN_def)

lemma first_superblock:
  "sb_manifest_generation (fst first_commit) = 1" "sb_current_manifest_message_id (fst first_commit) = 1"
  "sb_manifest_hash (fst first_commit) = sha256_hex two_libs (toy_doc 1 [])" "sb_manifest_encoding (fst first_commit) = FlatJson"
  by (simp_all add: first_commit_def toy_commit_def for_manifest_def Let_def toy_doc_def)

lemma second_superblock:
  "sb_manifest_generation (fst second_commit) = 2" "sb_previous_manifest_message_id (fst second_commit) = Some 1"
  "sb_previous_manifest_generation (fst second_commit) = Some 1"
  "sb_previous_manifest_hash (fst second_commit) = Some (sha256_hex two_libs (toy_doc 1 []))"
  "sb_manifest_encoding (fst second_commit) = FlatJson"
  by (simp_all add: second_commit_def toy_commit_def for_manifest_def Let_def toy_pinned_def first_world_def toy_doc_post_def first_superblock)

lemma toy_worlds_good [simp]: "ch_good toy_chat []" "ch_good toy_chat first_world" "ch_good toy_chat second_world"
  by (simp_all add: toy_chat_def first_world_def second_world_def toy_doc_post_def upt_rec)

end
