(* ===== verification/Cli.thy ===== *)
theory Cli
  imports Nbd Telegram
begin

text \<open>
  The command line (\<open>crates/tgdrive-cli/src/main.rs\<close>): sizes, the \<open>.env\<close> file, the mount lock,
  the benchmark and the commands. A command acts on the local store (absent before the first
  \<open>open\<close>), on small files by path, and on the outside world through the Telegram client; what it
  prints is not modelled. \<open>Uuid::new_v4\<close> is an argument. The login dialogue, \<open>serve-nbd\<close> and the
  dispatch of \<open>main\<close> are in \<open>Commands\<close>.
\<close>

section \<open>Sizes\<close>

definition is_space :: "char \<Rightarrow> bool" where
  "is_space c = (of_char c \<in> {9, 10, 11, 12, 13, 32 :: nat})"

definition trim :: "string \<Rightarrow> string" where
  "trim s = rev (dropWhile is_space (rev (dropWhile is_space s)))"

definition strip_suffix :: "string \<Rightarrow> string \<Rightarrow> string option" where
  "strip_suffix suf s = (if suffix suf s then Some (take (length s - length suf) s) else None)"

definition size_unit :: "string \<Rightarrow> string \<times> u64" where
  "size_unit trimmed =
     (case strip_suffix ''MiB'' trimmed of Some number \<Rightarrow> (number, 1024 * 1024) | None \<Rightarrow>
      case strip_suffix ''GiB'' trimmed of Some number \<Rightarrow> (number, 1024 * 1024 * 1024) | None \<Rightarrow>
      case strip_suffix ''KiB'' trimmed of Some number \<Rightarrow> (number, 1024) | None \<Rightarrow>
      case strip_suffix ''M'' trimmed of Some number \<Rightarrow> (number, 1000 * 1000) | None \<Rightarrow>
      case strip_suffix ''G'' trimmed of Some number \<Rightarrow> (number, 1000 * 1000 * 1000) | None \<Rightarrow>
      case strip_suffix ''K'' trimmed of Some number \<Rightarrow> (number, 1000) | None \<Rightarrow>
      (trimmed, 1))"

definition parse_size :: "'z base_scheme \<Rightarrow> string \<Rightarrow> u64 res" where
  "parse_size L input =
     (case size_unit (trim input) of (number, multiplier) \<Rightarrow>
        rbind (parse_u64 (trim number)) (\<lambda>n. mul_w L n multiplier))"

section \<open>Settings\<close>

datatype BackendChoice = TelegramBackend | LocalBackend

definition telegram_config :: "TgDriveConfig \<Rightarrow> TelegramClientConfig res" where
  "telegram_config cfg =
     rbind (ok_or (cfg_telegram_api_id cfg) (Anyhow ''missing TELEGRAM_API_ID'')) (\<lambda>api_id.
     rbind (ok_or (cfg_telegram_api_hash cfg) (Anyhow ''missing TELEGRAM_API_HASH'')) (\<lambda>api_hash.
     rbind (ok_or (cfg_telegram_channel_id cfg) (Anyhow ''missing TELEGRAM_CHANNEL_ID'')) (\<lambda>channel_id.
     Inr \<lparr>tc_api_id = api_id, tc_api_hash = api_hash, tc_session_path = cfg_telegram_session_path cfg,
          tc_channel_id = channel_id, tc_channel_access_hash = cfg_telegram_channel_access_hash cfg,
          tc_channel_title = cfg_telegram_channel_title cfg\<rparr>)))"

definition nbd_options :: "string \<Rightarrow> string \<Rightarrow> TgDriveConfig \<Rightarrow> NbdServerOptions" where
  "nbd_options bind export_name cfg =
     \<lparr>op_bind = bind, op_export_name = export_name, op_device_size = cfg_device_size cfg,
      op_logical_block_size = cfg_logical_sector_size cfg, op_max_inflight = 64\<rparr>"

section \<open>The machine\<close>

record 'c machine =
  mc_store :: "LocalStore option"
  mc_objects :: "string \<rightharpoonup> bytes"
  mc_files :: "string \<rightharpoonup> string"
  mc_stdin :: "string list"
  mc_net :: 'c

definition on_net :: "('c, 'a) st \<Rightarrow> ('c machine, 'a) st" where
  "on_net m w = (case m (mc_net w) of (x, c) \<Rightarrow> (x, w\<lparr>mc_net := c\<rparr>))"

definition opened :: "TgDriveConfig \<Rightarrow> 'c machine \<Rightarrow> LocalStore" where
  "opened cfg w = (case mc_store w of None \<Rightarrow> store_open (cfg_cache_dir cfg) (mc_objects w) | Some s \<Rightarrow> s)"

text \<open>\<open>LocalStore::open\<close> followed by operations on the store.\<close>

definition on_local :: "TgDriveConfig \<Rightarrow> (LocalStore, 'a) st \<Rightarrow> ('c machine, 'a) st" where
  "on_local cfg m w = (case m (opened cfg w) of (x, s) \<Rightarrow> (x, w\<lparr>mc_store := Some s\<rparr>))"

definition no_manifest :: err where
  "no_manifest = Anyhow ''no local manifest; run tgdrive format first''"

text \<open>Opens the store and loads its manifest, which has to exist.\<close>

definition local_manifest :: "libs \<Rightarrow> TgDriveConfig \<Rightarrow> ('c machine, Manifest) st" where
  "local_manifest L cfg =
     bnd (on_local cfg (\<lambda>s. (load_manifest L s, s))) (\<lambda>loaded.
     lift (ok_or loaded no_manifest))"

definition connect_storage :: "'c client \<Rightarrow> TgDriveConfig \<Rightarrow> ('c machine, TelegramStorage) st" where
  "connect_storage C cfg = bnd (lift (telegram_config cfg)) (\<lambda>tc. on_net (storage_connect C tc))"

section \<open>Recovering the manifest from the channel\<close>

definition previous_superblock :: "Superblock \<Rightarrow> i32 \<Rightarrow> string \<Rightarrow> u64 \<Rightarrow> Superblock" where
  "previous_superblock superblock message_id hash generation =
     superblock\<lparr>sb_current_manifest_message_id := message_id, sb_manifest_hash := hash, sb_manifest_generation := generation,
       sb_previous_manifest_message_id := None, sb_previous_manifest_hash := None, sb_previous_manifest_generation := None\<rparr>"

definition recover_remote_manifest :: "libs \<Rightarrow> 'c client \<Rightarrow> TelegramStorage \<Rightarrow> TgDriveConfig \<Rightarrow> ('c, Superblock \<times> Manifest) st" where
  "recover_remote_manifest L C S cfg =
     bnd (recover_superblock_text L C S 200) (\<lambda>found.
     bnd (lift (ok_or found (Anyhow ''no TGDrive superblock found''))) (\<lambda>superblock_text.
     bnd (lift (decode_text L superblock_text)) (\<lambda>superblock.
     bnd (lift (ensure (sb_device_size superblock = cfg_device_size cfg) (Anyhow ''remote device size does not match local config''))) (\<lambda>_.
     bnd (lift (ensure (sb_object_size superblock = cfg_object_size cfg) (Anyhow ''remote object size does not match local config''))) (\<lambda>_.
     bnd (\<lambda>c. case fetch_manifest_from_superblock L C S superblock c of
            (Inr manifest, c') \<Rightarrow> (Inr manifest, c')
          | (Inl current_error, c') \<Rightarrow>
              (case sb_previous_manifest_message_id superblock of
                 None \<Rightarrow> (Inl (Context ''latest manifest verification failed'' current_error), c')
               | Some previous_message_id \<Rightarrow>
                   bnd (lift (ok_or (sb_previous_manifest_hash superblock) (Anyhow ''previous manifest hash missing''))) (\<lambda>previous_hash.
                   bnd (lift (ok_or (sb_previous_manifest_generation superblock) (Anyhow ''previous manifest generation missing''))) (\<lambda>previous_generation.
                   fetch_manifest_from_superblock L C S
                     (previous_superblock superblock previous_message_id previous_hash previous_generation))) c')) (\<lambda>manifest.
     bnd (lift (ensure (m_device_uuid manifest = sb_device_uuid superblock) (Anyhow ''remote manifest UUID does not match superblock''))) (\<lambda>_.
     ret (superblock, manifest))))))))"

section \<open>Commands\<close>

definition cmd_recover_from_remote :: "libs \<Rightarrow> 'c client \<Rightarrow> TgDriveConfig \<Rightarrow> ('c machine, unit) st" where
  "cmd_recover_from_remote L C cfg =
     bnd (connect_storage C cfg) (\<lambda>S.
     bnd (on_net (recover_remote_manifest L C S cfg)) (\<lambda>(_, manifest).
     on_local cfg (replace_from_manifest L manifest)))"

definition format_config :: "'z base_scheme \<Rightarrow> string option \<Rightarrow> string option \<Rightarrow> TgDriveConfig \<Rightarrow> TgDriveConfig res" where
  "format_config L sz object_sz cfg =
     rbind (case sz of None \<Rightarrow> Inr cfg | Some s \<Rightarrow> rbind (parse_size L s) (\<lambda>n. Inr (cfg\<lparr>cfg_device_size := n\<rparr>))) (\<lambda>cfg1.
     case object_sz of None \<Rightarrow> Inr cfg1 | Some s \<Rightarrow> rbind (parse_size L s) (\<lambda>n. Inr (cfg1\<lparr>cfg_object_size := ucast n\<rparr>)))"

definition cmd_format ::
  "libs \<Rightarrow> 'c client \<Rightarrow> 128 word \<Rightarrow> string option \<Rightarrow> string option \<Rightarrow> bool \<Rightarrow> bool \<Rightarrow> TgDriveConfig \<Rightarrow> ('c machine, Manifest) st" where
  "cmd_format L C uuid sz object_sz force local_only cfg0 =
     bnd (lift (format_config L sz object_sz cfg0)) (\<lambda>cfg.
     bnd (lift (validate cfg)) (\<lambda>_.
     bnd (gets (\<lambda>w. mc_store w \<noteq> None)) (\<lambda>existing.
     bnd (lift (ensure (\<not> (existing \<and> \<not> force))
            (Anyhow (cfg_sqlite_path cfg @ '' already exists; pass --force to replace local metadata'')))) (\<lambda>_.
     bnd (on_local cfg (ret ())) (\<lambda>_.
     bnd (lift (config_object_count cfg)) (\<lambda>n.
     let manifest = manifest_empty uuid (cfg_object_size cfg) n in
     bnd (if local_only then ret ()
          else bnd (connect_storage C cfg) (\<lambda>S.
            on_net (commit_manifest L C S manifest (cfg_device_size cfg) (cfg_logical_sector_size cfg) (cfg_object_size cfg)))) (\<lambda>_.
     bnd (on_local cfg (replace_from_manifest L manifest)) (\<lambda>_.
     ret manifest))))))))"

text \<open>\<open>serve-nbd\<close> with the Telegram backend, up to the device it serves.\<close>

definition serve_telegram :: "libs \<Rightarrow> 'c client \<Rightarrow> TgDriveConfig \<Rightarrow> ('c machine, 'c BlockDevice) st" where
  "serve_telegram L C cfg =
     bnd (connect_storage C cfg) (\<lambda>S.
     bnd (on_local cfg (\<lambda>s. (load_manifest L s, s))) (\<lambda>loaded.
     bnd (case loaded of
            Some manifest \<Rightarrow>
              bnd (on_net (recover_superblock_text L C S 200)) (\<lambda>found.
              bnd (case found of
                     None \<Rightarrow> ret ()
                   | Some text \<Rightarrow>
                       bnd (lift (decode_text L text)) (\<lambda>remote_superblock.
                       lift (ensure (sb_device_uuid remote_superblock = m_device_uuid manifest)
                         (Anyhow ''local manifest UUID does not match remote channel superblock'')))) (\<lambda>_.
              ret manifest))
          | None \<Rightarrow>
              bnd (on_net (recover_remote_manifest L C S cfg)) (\<lambda>(_, manifest).
              bnd (on_local cfg (replace_from_manifest L manifest)) (\<lambda>_.
              ret manifest))) (\<lambda>manifest.
     bnd (lift (block_map_new (cfg_device_size cfg) (cfg_logical_sector_size cfg) (cfg_object_size cfg))) (\<lambda>bmap.
     gets (\<lambda>w. with_committer (commit_manifest L C S) (device_new bmap (mc_net w) (opened cfg w) manifest))))))"

text \<open>The \<open>flush\<close> command: \<open>LocalStore::flush\<close> only checkpoints the database file.\<close>

definition cmd_flush :: "libs \<Rightarrow> TgDriveConfig \<Rightarrow> ('c machine, unit) st" where
  "cmd_flush L cfg =
     bnd (local_manifest L cfg) (\<lambda>manifest.
     bnd (lift (block_map_new (cfg_device_size cfg) (cfg_logical_sector_size cfg) (cfg_object_size cfg))) (\<lambda>bmap.
     on_local cfg (\<lambda>s.
       let device = device_new bmap (memory_new (unwrap_or (cfg_telegram_channel_id cfg) (- 100))) s manifest in
       case flush L (memory_backend L) device of (x, device') \<Rightarrow> (x, bd_store device'))))"

definition cmd_fsck :: "libs \<Rightarrow> TgDriveConfig \<Rightarrow> ('c machine, string) st" where
  "cmd_fsck L cfg =
     bnd (local_manifest L cfg) (\<lambda>manifest.
     bnd (lift (manifest_hash_hex L manifest)) (\<lambda>hash.
     bnd (lift (verify_hash L manifest hash)) (\<lambda>_.
     bnd (lift (config_object_count cfg)) (\<lambda>n.
     bnd (lift (ensure (m_object_count manifest = n) (Anyhow ''manifest object count does not match config''))) (\<lambda>_.
     ret hash)))))"

definition cmd_gc :: "libs \<Rightarrow> 'c client \<Rightarrow> bool \<Rightarrow> TgDriveConfig \<Rightarrow> ('c machine, nat) st" where
  "cmd_gc L C yes cfg =
     (if \<not> yes then fail (Anyhow ''live GC deletes Telegram messages; rerun with --yes after reviewing garbage'')
      else
        bnd (local_manifest L cfg) (\<lambda>manifest.
        let ids = map ref_message_id (m_garbage manifest) in
        if ids = [] then ret 0
        else
          bnd (connect_storage C cfg) (\<lambda>S.
          on_net (telegram_delete_messages C S ids))))"

definition rollback_superblock :: "libs \<Rightarrow> 'c client \<Rightarrow> TelegramStorage \<Rightarrow> TgDriveConfig \<Rightarrow> ('c, Manifest) st" where
  "rollback_superblock L C S cfg =
     bnd (recover_superblock_text L C S 200) (\<lambda>found.
     bnd (lift (ok_or found (Anyhow ''no TGDrive superblock found''))) (\<lambda>text.
     bnd (lift (decode_text L text)) (\<lambda>current.
     bnd (lift (ok_or (sb_previous_manifest_message_id current) (Anyhow ''superblock has no previous manifest''))) (\<lambda>previous_message_id.
     bnd (lift (ok_or (sb_previous_manifest_hash current) (Anyhow ''superblock has no previous manifest hash''))) (\<lambda>previous_hash.
     bnd (lift (ok_or (sb_previous_manifest_generation current) (Anyhow ''superblock has no previous manifest generation''))) (\<lambda>previous_generation.
     let previous_ref = \<lparr>ref_chat_id = unwrap_or (cfg_telegram_channel_id cfg) 0, ref_message_id = previous_message_id,
           ref_object_id = MANIFEST_OBJECT_ID, ref_generation = previous_generation, ref_sha256 = previous_hash\<rparr> in
     bnd (fetch_manifest_from_superblock L C S
            (previous_superblock current previous_message_id previous_hash previous_generation)) (\<lambda>manifest.
     bnd (gets (utc_now C)) (\<lambda>now.
     bnd (lift (encode_text L (for_manifest now (m_device_uuid manifest) (sb_device_size current) (sb_logical_sector_size current)
            (sb_object_size current) previous_ref (Some current)))) (\<lambda>text.
     bnd (upsert_pinned_superblock C S text) (\<lambda>_.
     ret manifest))))))))))"

definition cmd_recover :: "libs \<Rightarrow> 'c client \<Rightarrow> TgDriveConfig \<Rightarrow> ('c machine, Manifest) st" where
  "cmd_recover L C cfg =
     bnd (connect_storage C cfg) (\<lambda>S.
     bnd (on_net (rollback_superblock L C S cfg)) (\<lambda>manifest.
     bnd (on_local cfg (replace_from_manifest L manifest)) (\<lambda>_.
     ret manifest)))"

definition cmd_status :: "libs \<Rightarrow> TgDriveConfig \<Rightarrow> ('c machine, LocalStats \<times> Manifest option) st" where
  "cmd_status L cfg =
     bnd (on_local cfg (\<lambda>s. (Inr (stats s), s))) (\<lambda>st.
     bnd (on_local cfg (\<lambda>s. (load_manifest L s, s))) (\<lambda>manifest.
     ret (st, manifest)))"

section \<open>The environment file\<close>

definition newline :: char where "newline = CHR 0x0A"
definition carriage_return :: char where "carriage_return = CHR 0x0D"

fun split_newlines :: "string \<Rightarrow> string list" where
  "split_newlines [] = [[]]"
| "split_newlines (c # cs) =
     (if c = newline then [] # split_newlines cs
      else (case split_newlines cs of [] \<Rightarrow> [[c]] | l # ls \<Rightarrow> (c # l) # ls))"

definition strip_cr :: "string \<Rightarrow> string" where
  "strip_cr l = (if l \<noteq> [] \<and> last l = carriage_return then butlast l else l)"

text \<open>\<open>str::lines\<close>: a final line without a newline is a line unless it is empty.\<close>

definition str_lines :: "string \<Rightarrow> string list" where
  "str_lines s = (let ls = split_newlines s in
     map strip_cr (butlast ls) @ (if last ls = [] then [] else [last ls]))"

fun join_lines :: "string list \<Rightarrow> string" where
  "join_lines [] = []"
| "join_lines [l] = l"
| "join_lines (l # ls) = l @ newline # join_lines ls"

definition upsert_lines :: "string \<Rightarrow> string \<Rightarrow> string list \<Rightarrow> string list" where
  "upsert_lines key v ls =
     (let entry = key @ ''='' @ v;
          replaced = map (\<lambda>l. if prefix (key @ ''='') l then entry else l) ls in
      if list_ex (prefix (key @ ''='')) ls then replaced else replaced @ [entry])"

definition upsert_env :: "string \<Rightarrow> string \<Rightarrow> string \<Rightarrow> ('c machine, unit) st" where
  "upsert_env path key v =
     upd (\<lambda>w. let existing = (case mc_files w path of None \<Rightarrow> [] | Some s \<Rightarrow> s) in
       w\<lparr>mc_files := (mc_files w)(path \<mapsto> join_lines (upsert_lines key v (str_lines existing)) @ [newline])\<rparr>)"

definition cmd_resolve_channel :: "'c client \<Rightarrow> TgDriveConfig \<Rightarrow> ('c machine, ResolvedChannel) st" where
  "cmd_resolve_channel C cfg =
     bnd (connect_storage C cfg) (\<lambda>S.
     let resolved = resolve_channel C S in
     bnd (upsert_env ''.env'' ''TELEGRAM_CHANNEL_ID'' (show_int (sint (rc_bot_api_chat_id resolved)))) (\<lambda>_.
     bnd (upsert_env ''.env'' ''TELEGRAM_CHANNEL_ACCESS_HASH'' (show_int (sint (rc_access_hash resolved)))) (\<lambda>_.
     bnd (case rc_title resolved of None \<Rightarrow> ret () | Some title \<Rightarrow> upsert_env ''.env'' ''TELEGRAM_CHANNEL_TITLE'' title) (\<lambda>_.
     ret resolved))))"

section \<open>The mount lock\<close>

definition lock_path :: "string \<Rightarrow> string" where
  "lock_path cache_dir = path_join cache_dir ''mount.lock''"

definition mount_lock_acquire :: "string \<Rightarrow> ('c machine, string) st" where
  "mount_lock_acquire cache_dir w =
     (case mc_files w (lock_path cache_dir) of
        Some _ \<Rightarrow> (Inl (Anyhow (''failed to acquire mount lock at '' @ lock_path cache_dir @
                      '': File exists (os error 17); another tgdrive may be running'')), w)
      | None \<Rightarrow> (Inr (lock_path cache_dir), w\<lparr>mc_files := (mc_files w)(lock_path cache_dir \<mapsto> [])\<rparr>))"

definition mount_lock_drop :: "string \<Rightarrow> 'c machine \<Rightarrow> 'c machine" where
  "mount_lock_drop path w = w\<lparr>mc_files := (mc_files w)(path := None)\<rparr>"

section \<open>The benchmark\<close>

fun xorshift_bytes :: "nat \<Rightarrow> u64 \<Rightarrow> bytes" where
  "xorshift_bytes 0 state = []"
| "xorshift_bytes (Suc n) state =
     (let s1 = state XOR push_bit 13 state;
          s2 = s1 XOR drop_bit 7 s1;
          s3 = s2 XOR push_bit 17 s2 in
      ucast s3 # xorshift_bytes n s3)"

definition deterministic_bytes :: "nat \<Rightarrow> u64 \<Rightarrow> bytes" where
  "deterministic_bytes len seed = xorshift_bytes len seed"

definition pseudo_random_index :: "u64 \<Rightarrow> u64 \<Rightarrow> u64" where
  "pseudo_random_index index modulus =
     (if modulus = 0 then 0 else (index * 6364136223846793005 + 1) mod modulus)"

text \<open>The sequential loops advance by \<open>min (device_size - offset) object_size\<close>; not returning is \<open>None\<close>.\<close>

partial_function (option) sequential ::
  "(u64 \<Rightarrow> nat \<Rightarrow> ('d, unit) st) \<Rightarrow> u64 \<Rightarrow> u32 \<Rightarrow> u64 \<Rightarrow> 'd \<Rightarrow> (unit res \<times> 'd) option" where
  "sequential step device_size object_size offset d =
     (if offset < device_size then
        let k = min (unat (device_size - offset)) (unat object_size);
            r = step offset k d in
        if isl (fst r) then Some r
        else sequential step device_size object_size (offset + of_nat k) (snd r)
      else Some (Inr (), d))"

definition sequential_write :: "libs \<Rightarrow> 'b backend \<Rightarrow> bytes \<Rightarrow> u64 \<Rightarrow> u32 \<Rightarrow> 'b BlockDevice \<Rightarrow> (unit res \<times> 'b BlockDevice) option" where
  "sequential_write L B object device_size object_size =
     sequential (\<lambda>offset k. write_at L B offset (take k object)) device_size object_size 0"

definition sequential_read :: "libs \<Rightarrow> 'b backend \<Rightarrow> u64 \<Rightarrow> u32 \<Rightarrow> 'b BlockDevice \<Rightarrow> (unit res \<times> 'b BlockDevice) option" where
  "sequential_read L B device_size object_size =
     sequential (\<lambda>offset k. bnd (read_at L B offset k) (\<lambda>_. ret ())) device_size object_size 0"

fun random_reads :: "libs \<Rightarrow> 'b backend \<Rightarrow> u32 \<Rightarrow> u64 \<Rightarrow> nat list \<Rightarrow> ('b BlockDevice, unit) st" where
  "random_reads L B sector_size max_sector [] = ret ()"
| "random_reads L B sector_size max_sector (index # rest) =
     (let sector = pseudo_random_index (of_nat index) max_sector in
      bnd (lift (mul_w L sector (ucast sector_size))) (\<lambda>offset.
      bnd (read_at L B offset (unat sector_size)) (\<lambda>_.
      random_reads L B sector_size max_sector rest)))"

fun random_writes :: "libs \<Rightarrow> 'b backend \<Rightarrow> bytes \<Rightarrow> u32 \<Rightarrow> u64 \<Rightarrow> nat list \<Rightarrow> ('b BlockDevice, unit) st" where
  "random_writes L B random_write sector_size max_sector [] = ret ()"
| "random_writes L B random_write sector_size max_sector (index # rest) =
     bnd (lift (add_w L (of_nat index) 0x1000)) (\<lambda>i.
     let sector = pseudo_random_index i max_sector in
     bnd (lift (mul_w L sector (ucast sector_size))) (\<lambda>offset.
     bnd (write_at L B offset random_write) (\<lambda>_.
     random_writes L B random_write sector_size max_sector rest)))"

definition and_then :: "(unit res \<times> 'd) option \<Rightarrow> ('d \<Rightarrow> (unit res \<times> 'd) option) \<Rightarrow> (unit res \<times> 'd) option" where
  "and_then r k = (case r of None \<Rightarrow> None | Some (Inl e, d) \<Rightarrow> Some (Inl e, d) | Some (Inr _, d) \<Rightarrow> k d)"

definition div_u64 :: "u64 \<Rightarrow> u64 \<Rightarrow> u64 res" where
  "div_u64 a b = (if b = 0 then Inl (Panic ''attempt to divide by zero'') else Inr (a div b))"

definition bench_device :: "libs \<Rightarrow> TgDriveConfig \<Rightarrow> u64 \<Rightarrow> u32 \<Rightarrow> nat \<Rightarrow> MemoryBackend BlockDevice \<Rightarrow>
    (unit res \<times> MemoryBackend BlockDevice) option" where
  "bench_device L cfg device_size object_size ops d0 =
     (let B = memory_backend L;
          object = deterministic_bytes (unat object_size) 0x54474452495645;
          random_write = deterministic_bytes (unat (cfg_logical_sector_size cfg)) 0x52414e444f4d in
      and_then (sequential_write L B object device_size object_size d0) (\<lambda>d1.
      and_then (Some (flush L B d1)) (\<lambda>d2.
      and_then (sequential_read L B device_size object_size d2) (\<lambda>d3.
      case div_u64 device_size (ucast (cfg_logical_sector_size cfg)) of
        Inl e \<Rightarrow> Some (Inl e, d3)
      | Inr max_sector \<Rightarrow>
          and_then (Some (random_reads L B (cfg_logical_sector_size cfg) max_sector [0..<ops] d3)) (\<lambda>d4.
          and_then (Some (random_writes L B random_write (cfg_logical_sector_size cfg) max_sector [0..<ops] d4)) (\<lambda>d5.
          Some (flush L B d5)))))))"

definition run_bench :: "libs \<Rightarrow> 128 word \<Rightarrow> string \<Rightarrow> TgDriveConfig \<Rightarrow> string \<Rightarrow> string \<Rightarrow> nat \<Rightarrow> DeviceMetrics res option" where
  "run_bench L uuid bench_dir cfg sz object_sz ops =
     (case rbind (ensure (0 < ops) (Anyhow ''--ops must be greater than zero'')) (\<lambda>_.
           rbind (parse_size L sz) (\<lambda>device_size.
           rbind (parse_size L object_sz) (\<lambda>n.
           rbind (block_map_new device_size (cfg_logical_sector_size cfg) (ucast n)) (\<lambda>bmap.
           rbind (object_count bmap) (\<lambda>objects.
           Inr (device_size, ucast n, device_new bmap (memory_new (- 100)) (store_open bench_dir Map.empty) (manifest_empty uuid (ucast n) objects))))))) of
        Inl e \<Rightarrow> Some (Inl e)
      | Inr (device_size, object_size, device) \<Rightarrow>
          (case bench_device L cfg device_size object_size ops device of
             None \<Rightarrow> None
           | Some (Inl e, _) \<Rightarrow> Some (Inl e)
           | Some (Inr _, d) \<Rightarrow> Some (Inr (bd_metrics d))))"

end
