(* ===== verification/CliTheorems.thy ===== *)
theory CliTheorems
  imports DeviceTheorems ChannelExample Cli
begin

text \<open>
  Theorems about the channel and the commands: which superblock recovery chooses, that a committed
  manifest is recovered, what the \<open>flush\<close> and \<open>recover\<close> commands really do, sizes, the \<open>.env\<close>
  file, and the termination of the benchmark.
\<close>

section \<open>Choosing a superblock\<close>

text \<open>
  The chosen text: every superblock before it (newer) has a smaller generation, every one after it
  (older) has at most the same.
\<close>

definition chosen :: "libs \<Rightarrow> string list \<Rightarrow> string \<Rightarrow> Superblock \<Rightarrow> bool" where
  "chosen L texts t sb \<longleftrightarrow> (\<exists>newer older. texts = newer @ t # older \<and> decode_text L t = Inr sb \<and>
     (\<forall>u\<in>set newer. \<forall>s. decode_text L u = Inr s \<longrightarrow> sb_manifest_generation s < sb_manifest_generation sb) \<and>
     (\<forall>u\<in>set older. \<forall>s. decode_text L u = Inr s \<longrightarrow> sb_manifest_generation s \<le> sb_manifest_generation sb))"

lemma best_superblock_start:
  assumes "\<forall>m\<in>set ms. \<forall>s. decode_text L (msg_text m) = Inr s \<longrightarrow> sb_manifest_generation s < sb_manifest_generation sb"
    and "decode_text L (msg_text m) = Inr sb" and "case best of None \<Rightarrow> True | Some (g, _) \<Rightarrow> g < sb_manifest_generation sb"
  shows "best_superblock L (map Inr ms @ Inr m # rest) best = best_superblock L rest (Some (sb_manifest_generation sb, msg_text m))"
  using assms(1,3)
proof (induction ms arbitrary: best)
  case Nil
  then show ?case using assms(2) by auto
next
  case (Cons x ms)
  show ?case
  proof (cases "decode_text L (msg_text x)")
    case (Inl e)
    then show ?thesis using Cons by simp
  next
    case (Inr s)
    then show ?thesis using Cons.prems Cons.IH [of "Some (sb_manifest_generation s, msg_text x)"] Cons.IH [of best] by auto
  qed
qed

lemma best_superblock_chosen:
  assumes "chosen L (map msg_text ms) t sb"
  shows "best_superblock L (map Inr ms) None = Inr (Some (sb_manifest_generation sb, t))"
proof -
  obtain newer older where c: "map msg_text ms = newer @ t # older" "decode_text L t = Inr sb"
    "\<forall>u\<in>set newer. \<forall>s. decode_text L u = Inr s \<longrightarrow> sb_manifest_generation s < sb_manifest_generation sb"
    "\<forall>u\<in>set older. \<forall>s. decode_text L u = Inr s \<longrightarrow> sb_manifest_generation s \<le> sb_manifest_generation sb"
    using assms by (auto simp: chosen_def)
  obtain ms1 m ms2 where ms: "ms = ms1 @ m # ms2" "map msg_text ms1 = newer" "msg_text m = t" "map msg_text ms2 = older"
    using c(1) by (auto simp: map_eq_append_conv map_eq_Cons_conv)
  have "best_superblock L (map Inr ms) None = best_superblock L (map Inr ms2) (Some (sb_manifest_generation sb, t))"
    using best_superblock_start [of ms1 L sb m None "map Inr ms2"] c(2,3) ms by auto
  also have "\<dots> = Inr (Some (sb_manifest_generation sb, t))"
    using c(4) ms(4) by (intro best_superblock_keeps) auto
  finally show ?thesis .
qed

lemma chosen_append:
  assumes "chosen L texts t sb" "\<forall>u\<in>set pre. \<forall>s. decode_text L u = Inr s \<longrightarrow> sb_manifest_generation s < sb_manifest_generation sb"
  shows "chosen L (pre @ texts) t sb"
proof -
  obtain newer older where c: "texts = newer @ t # older" "decode_text L t = Inr sb"
    "\<forall>u\<in>set newer. \<forall>s. decode_text L u = Inr s \<longrightarrow> sb_manifest_generation s < sb_manifest_generation sb"
    "\<forall>u\<in>set older. \<forall>s. decode_text L u = Inr s \<longrightarrow> sb_manifest_generation s \<le> sb_manifest_generation sb"
    using assms(1) by (auto simp: chosen_def)
  then show ?thesis using assms(2) unfolding chosen_def
    by - (rule exI [of _ "pre @ newer"], rule exI [of _ older], auto)
qed

lemma chosen_exists:
  assumes "\<exists>u\<in>set texts. \<exists>s. decode_text L u = Inr s"
  shows "\<exists>t sb. chosen L texts t sb"
  using assms
proof (induction texts)
  case Nil
  then show ?case by simp
next
  case (Cons x texts)
  have front: "chosen L (x # texts) x s" if "decode_text L x = Inr s"
      "\<forall>u\<in>set texts. \<forall>q. decode_text L u = Inr q \<longrightarrow> sb_manifest_generation q \<le> sb_manifest_generation s" for s
    using that unfolding chosen_def by - (rule exI [of _ "[]"], rule exI [of _ texts], auto)
  show ?case
  proof (cases "\<exists>u\<in>set texts. \<exists>s. decode_text L u = Inr s")
    case False
    then obtain s where "decode_text L x = Inr s" using Cons.prems by auto
    then show ?thesis using front False by blast
  next
    case True
    then obtain t sb where c: "chosen L texts t sb" using Cons.IH by blast
    then have all: "\<forall>u\<in>set texts. \<forall>q. decode_text L u = Inr q \<longrightarrow> sb_manifest_generation q \<le> sb_manifest_generation sb"
      by (auto simp: chosen_def less_imp_le)
    show ?thesis
    proof (cases "\<exists>s. decode_text L x = Inr s \<and> sb_manifest_generation sb \<le> sb_manifest_generation s")
      case True
      then show ?thesis using front all order_trans by blast
    next
      case False
      then have "chosen L (x # texts) t sb" using chosen_append [OF c, of "[x]"] by (auto simp: not_le)
      then show ?thesis by blast
    qed
  qed
qed

definition post_texts :: "'c chat \<Rightarrow> nat \<Rightarrow> 'c \<Rightarrow> string list" where
  "post_texts V n c = map (\<lambda>p. fst (snd p)) (take n (ch_posts V c))"

lemma recover_chosen:
  assumes chat: "chat_ok C (ts_peer S) V" "chat_readable C (ts_peer S) V" and good: "ch_good V c"
    and ch: "chosen L (post_texts V n c) t sb"
  shows "\<exists>c'. recover_superblock_text L C S n c = (Inr (Some t), c') \<and> unchanged V c c'"
proof -
  obtain ms c' where it: "iter_messages C (ts_peer S) n c = (map Inr ms, c')"
    using chat(2) good unfolding chat_readable_def by blast
  have u: "unchanged V c c'" and l: "list_all2 (post_shows (ch_files V c')) (take n (ch_posts V c)) ms"
    using chat_okD(7) [OF chat(1) good it] by auto
  have "map msg_text ms = post_texts V n c"
    using l unfolding post_texts_def by (induction rule: list_all2_induct) (auto simp: post_shows_def)
  then have "best_superblock L (map Inr ms) None = Inr (Some (sb_manifest_generation sb, t))"
    using best_superblock_chosen [of L ms t sb] ch by simp
  then show ?thesis using it u by (simp add: recover_superblock_text_def bnd_apply)
qed

lemma second_chosen: "chosen two_libs (post_texts toy_chat 200 second_world) second_text (fst second_commit)"
  unfolding chosen_def post_texts_def
  by (rule exI [of _ "[]"], rule exI [of _ "map (fst \<circ> snd) (tl second_world)"])
    (simp add: second_world_def first_world_def toy_doc_post_def first_superblock second_superblock)

lemma toy_rollback: "\<exists>w. rollback_superblock two_libs toy_client toy_storage cfg second_world = (Inr (toy_manifest 1), w) \<and> length w = 6"
proof -
  obtain w where "recover_superblock_text two_libs toy_client toy_storage 200 second_world = (Inr (Some second_text), w) \<and> unchanged toy_chat second_world w"
    using recover_chosen [OF toy_chat_ok toy_chat_readable _ second_chosen] by auto
  then have r: "recover_superblock_text two_libs toy_client toy_storage 200 second_world = (Inr (Some second_text), second_world)"
    by (simp add: unchanged_def)
  let ?prev = "previous_superblock (fst second_commit) 1 (sha256_hex two_libs (toy_doc 1 [])) 1"
  let ?e = "flat_env (toy_manifest 1) 131072 []"
  have d: "decode two_libs (toy_doc 1 []) MANIFEST_OBJECT_ID 1 = Inr ?e"
    using decode_encode [of two_libs ?e] by (simp add: toy_doc_def flat_env_def)
  have "fetch_manifest_from_superblock two_libs toy_client toy_storage ?prev second_world = (Inr (toy_manifest 1), second_world)"
    using toy_fetch [OF d, of 1 second_world _ toy_storage]
    by (simp add: fetch_manifest_from_superblock_def previous_superblock_def second_superblock bnd_apply d flat_env_def toy_calls
      second_world_def first_world_def toy_doc_post_def)
  moreover have "\<forall>t. \<exists>i. upsert_pinned_superblock toy_client toy_storage t second_world = (Inr i, toy_publish t second_world)"
    by (intro allI toy_upsert) (simp add: second_world_def)
  then obtain f where "\<And>t. upsert_pinned_superblock toy_client toy_storage t second_world = (Inr (f t), toy_publish t second_world)"
    by metis
  moreover have "length (toy_publish t second_world) = 6" for t
    by (simp add: toy_publish_def toy_pinned_def second_world_def first_world_def toy_doc_post_def)
  ultimately show ?thesis
    by (simp add: rollback_superblock_def bnd_apply r second_superblock Let_def encode_text_def)
qed

section \<open>Properties of the channel\<close>

text \<open>
  C31. Among the newest \<open>n\<close> messages of the channel, recovery chooses the superblock with the highest
  generation, the newest of them if there are several, as soon as there is one.
\<close>

theorem recover_superblock_highest:
  assumes "chat_ok C (ts_peer S) V" "chat_readable C (ts_peer S) V" "ch_good V c"
    and "\<exists>u\<in>set (post_texts V n c). \<exists>s. decode_text L u = Inr s"
  shows "\<exists>t sb c'. recover_superblock_text L C S n c = (Inr (Some t), c') \<and> unchanged V c c' \<and> chosen L (post_texts V n c) t sb"
  using chosen_exists [OF assms(4)] recover_chosen [OF assms(1-3)] by blast

theorem recover_superblock_highest_witness:
  "\<exists>t sb c'. recover_superblock_text two_libs toy_client toy_storage 200 second_world = (Inr (Some t), c') \<and>
     unchanged toy_chat second_world c' \<and> chosen two_libs (post_texts toy_chat 200 second_world) t sb"
proof -
  have "second_text \<in> set (post_texts toy_chat 200 second_world)" by (simp add: post_texts_def second_world_def)
  then show ?thesis
    using recover_superblock_highest [OF toy_chat_ok toy_chat_readable toy_worlds_good(3), of 200 two_libs toy_storage] by fastforce
qed

lemma committed_is_recovered:
  assumes "chat_ok C (ts_peer S) V" "chat_readable C (ts_peer S) V" "ch_good V c"
    and "digest32 L" "json_round_trips L" and "manifest_wf m" and "below L V (m_generation m) c"
    and "commit_manifest L C S m (cfg_device_size cfg) lsz (cfg_object_size cfg) c = (Inr (), c')"
  shows "\<exists>sb c2. recover_remote_manifest L C S cfg c' = (Inr (sb, m), c2) \<and> unchanged V c' c2"
proof -
  obtain sb r t j rest where h: "extended V c c'" "below L V (m_generation m) c'" "ch_posts V c' = (j, t, None) # rest"
    "decode_text L t = Inr sb" "holds_manifest L V c' r (sb_manifest_encoding sb) m" "ref_object_id r = MANIFEST_OBJECT_ID"
    "sb_current_manifest_message_id sb = ref_message_id r" "sb_manifest_generation sb = ref_generation r"
    "sb_manifest_hash sb = ref_sha256 r" "ref_generation r = m_generation m"
    "sb_device_uuid sb = m_device_uuid m" "sb_device_size sb = cfg_device_size cfg" "sb_object_size sb = cfg_object_size cfg"
    using commit_holds [OF assms(1,3-8)] by blast
  have good: "ch_good V c'" using framesD(2) [OF h(1)] .
  obtain c1 where r: "recover_superblock_text L C S 200 c' = (Inr (Some t), c1)" and u: "unchanged V c' c1"
    using recover_newest [OF assms(1,2) good h(3,4), of 200] h(2,8,10) by auto
  have good1: "ch_good V c1" using framesD(1) [OF u] .
  have "holds_manifest L V c1 r (sb_manifest_encoding sb) m"
    by (rule holds_manifest_mono [OF h(5) assms(1) unchanged_extended [OF u]])
  then obtain c2 where f: "fetch_manifest_from_superblock L C S sb c1 = (Inr m, c2)" "unchanged V c1 c2"
    using fetch_manifest_live [OF assms(1,2) good1 _ h(6-9)] by blast
  have "recover_remote_manifest L C S cfg c' = (Inr (sb, m), c2)"
    by (simp add: recover_remote_manifest_def bnd_apply r f h(4,11-13))
  then show ?thesis using unchanged_trans [OF u f(2)] by blast
qed

text \<open>
  C6. A manifest that has been committed to the channel, flat or as a tree, is what recovery
  returns: the superblock found by scanning the channel leads to the manifest, whose every field is
  as it was committed, provided that no superblock in the channel has a higher generation.
\<close>

theorem commit_then_recover:
  assumes "chat_ok C (ts_peer S) V" "chat_readable C (ts_peer S) V" "ch_good V c"
    and "digest32 L" "json_round_trips L" and "manifest_wf m" and "below L V (m_generation m) c"
    and "commit_manifest L C S m (cfg_device_size cfg) lsz (cfg_object_size cfg) c = (Inr (), c')"
  shows "\<exists>sb c2. recover_remote_manifest L C S cfg c' = (Inr (sb, m), c2) \<and> unchanged V c' c2"
  using assms by (rule committed_is_recovered)

theorem commit_then_recover_witness:
  "\<exists>c' sb c2. commit_manifest two_libs toy_client toy_storage (toy_manifest 2) 67108864 4096 131072 first_world = (Inr (), c') \<and>
     recover_remote_manifest two_libs toy_client toy_storage toy_config c' = (Inr (sb, toy_manifest 2), c2)"
proof -
  have sz: "cfg_device_size toy_config = 67108864" "cfg_object_size toy_config = 131072" by (simp_all add: toy_config_def)
  have "below two_libs toy_chat (m_generation (toy_manifest 2)) first_world"
    by (simp add: below_def first_world_def toy_doc_post_def first_superblock)
  from commit_then_recover [OF toy_chat_ok toy_chat_readable toy_worlds_good(2) two_libs_facts(1,2) toy_manifest_facts(1) this, of toy_storage toy_config 4096 second_world]
  show ?thesis using second_commits by (auto simp: sz)
qed

text \<open>
  C32. The \<open>recover\<close> command does not roll the channel back. When it succeeds, the newest message of
  the channel is a superblock that names the previous manifest (its message, its hash and its lower
  generation); but the next recovery scans the channel for the highest generation and, if the
  channel then has at most 200 messages, the number it scans, chooses the superblock that was to be
  replaced again.
\<close>

theorem rollback_not_chosen:
  assumes "chat_ok C (ts_peer S) V" "chat_readable C (ts_peer S) V" "ch_good V c" and "json_round_trips L"
    and "chosen L (post_texts V 200 c) t sb" and "sb_previous_manifest_generation sb = Some g" "g < sb_manifest_generation sb"
    and "rollback_superblock L C S cfg c = (Inr m, c')" and "length (ch_posts V c') \<le> 200"
  shows "(\<exists>text new. hd (post_texts V 200 c') = text \<and> decode_text L text = Inr new \<and>
      sb_manifest_generation new = g \<and> Some (sb_current_manifest_message_id new) = sb_previous_manifest_message_id sb \<and>
      Some (sb_manifest_hash new) = sb_previous_manifest_hash sb) \<and>
    (\<exists>c2. recover_superblock_text L C S 200 c' = (Inr (Some t), c2))"
proof -
  have dt: "decode_text L t = Inr sb" using assms(5) by (auto simp: chosen_def)
  obtain c0 where r: "recover_superblock_text L C S 200 c = (Inr (Some t), c0)" "unchanged V c c0"
    using recover_chosen [OF assms(1-3,5)] by blast
  have good0: "ch_good V c0" using framesD(1) [OF r(2)] .
  obtain i h where ih: "sb_previous_manifest_message_id sb = Some i" "sb_previous_manifest_hash sb = Some h"
    using assms(8) by (auto simp: rollback_superblock_def bnd_apply r dt ok_or_def split: option.splits)
  let ?prev = "previous_superblock sb i h g"
  let ?ref = "\<lparr>ref_chat_id = unwrap_or (cfg_telegram_channel_id cfg) 0, ref_message_id = i,
           ref_object_id = MANIFEST_OBJECT_ID, ref_generation = g, ref_sha256 = h\<rparr>"
  obtain m' c1 where f: "fetch_manifest_from_superblock L C S ?prev c0 = (Inr m', c1)"
    using assms(8) by (auto simp: rollback_superblock_def bnd_apply r dt ih assms(6) Let_def split: prod.splits sum.splits)
  let ?new = "for_manifest (utc_now C c1) (m_device_uuid m') (sb_device_size sb) (sb_logical_sector_size sb) (sb_object_size sb) ?ref (Some sb)"
  obtain json where j: "json_superblock L ?new = Inr json" "unjson_superblock L json = Inr ?new"
    using assms(4) unfolding json_round_trips_def by blast
  let ?text = "SUPERBLOCK_PREFIX @ json"
  obtain k where up: "upsert_pinned_superblock C S ?text c1 = (Inr k, c')"
    using assms(8) by (auto simp: rollback_superblock_def bnd_apply r dt ih assms(6) Let_def f encode_text_def j(1) split: prod.splits sum.splits)
  have keeps_get: "keeps V (telegram_get_messages_by_id C S ids)" for ids
    unfolding keeps_def by (metis prod.collapse telegram_get_reads [OF assms(1)])
  have "keeps V (fetch_manifest_from_superblock L C S ?prev)"
    unfolding fetch_manifest_from_superblock_def fetch_manifest_tree_leaves_def Let_def
    by (cases "sb_manifest_encoding ?prev") (auto intro!: keeps_bnd keeps_fetch [OF assms(1)] keeps_get)
  then have u1: "unchanged V c0 c1" using f good0 unfolding keeps_def by (metis snd_conv)
  have c1: "ch_good V c1" "ch_posts V c1 = ch_posts V c" using u1 r(2) by (simp_all add: unchanged_def)
  obtain j0 new where n: "extended V c1 c'" "ch_posts V c' = (j0, ?text, None) # new @ ch_posts V c" "\<forall>p\<in>set new. fst (snd p) \<in> {?text, []}"
    using upsert_posts [OF assms(1) c1(1) up] c1(2) by auto
  have texts: "post_texts V 200 c' = map (\<lambda>p. fst (snd p)) ((j0, ?text, None) # new) @ post_texts V 200 c"
    using assms(9) by (simp add: post_texts_def n(2))
  have new: "decode_text L ?text = Inr ?new" using j(2) by (simp add: decode_text_def strip_prefix_def)
  moreover have "hd (post_texts V 200 c') = ?text" by (simp add: texts)
  ultimately have pub: "\<exists>text new. hd (post_texts V 200 c') = text \<and> decode_text L text = Inr new \<and>
      sb_manifest_generation new = g \<and> Some (sb_current_manifest_message_id new) = sb_previous_manifest_message_id sb \<and>
      Some (sb_manifest_hash new) = sb_previous_manifest_hash sb"
    using ih by (auto simp: for_manifest_def)
  from new have "sb_manifest_generation s < sb_manifest_generation sb"
    if "q \<in> {?text, []}" "decode_text L q = Inr s" for q s
    using that assms(7) empty_not_superblock [of L s] by (auto simp: for_manifest_def)
  then have "chosen L (post_texts V 200 c') t sb"
    unfolding texts using n(3) by (intro chosen_append [OF assms(5)]) auto
  then show ?thesis using pub recover_chosen [OF assms(1,2) framesD(2) [OF n(1)]] by blast
qed

theorem rollback_not_chosen_witness:
  "\<exists>m w w2 new. rollback_superblock two_libs toy_client toy_storage toy_config second_world = (Inr m, w) \<and> m_generation m = 1 \<and>
     length w \<le> 200 \<and> decode_text two_libs (hd (post_texts toy_chat 200 w)) = Inr new \<and> sb_manifest_generation new = 1 \<and>
     recover_superblock_text two_libs toy_client toy_storage 200 w = (Inr (Some second_text), w2)"
proof -
  obtain w where r: "rollback_superblock two_libs toy_client toy_storage toy_config second_world = (Inr (toy_manifest 1), w)" "length w = 6"
    using toy_rollback by blast
  from rollback_not_chosen [OF toy_chat_ok toy_chat_readable toy_worlds_good(3) two_libs_facts(2) second_chosen second_superblock(3) _ r(1)] r
  show ?thesis by (auto simp: second_superblock)
qed

section \<open>Sizes\<close>

lemma show_nat_digits: "c \<in> set (show_nat n) \<Longrightarrow> of_char c \<in> {48..<58 :: nat}"
proof (induction n rule: show_nat.induct)
  case (1 n)
  have d: "of_char (digit k) \<in> {48..<58 :: nat}" if "k < 10" for k using that by (simp add: digit_def)
  show ?case
  proof (cases "n < 10")
    case True
    then show ?thesis using 1 d by (simp add: show_nat.simps [of n])
  next
    case False
    then have "c \<in> set (show_nat (n div 10)) \<or> c = digit (n mod 10)" using "1.prems" by (auto simp: show_nat.simps [of n])
    then show ?thesis using 1(1) [OF False] d [of "n mod 10"] by auto
  qed
qed

lemma show_nat_not_Nil [simp]: "show_nat n \<noteq> []"
  using show_nat_hd [of n] by auto

lemma show_nat_not_space: "c \<in> set (show_nat n) \<Longrightarrow> \<not> is_space c"
  using show_nat_digits [of c n] by (auto simp: is_space_def)

lemma trim_core:
  assumes "\<forall>c\<in>set pre. is_space c" "\<forall>c\<in>set post. is_space c" "xs \<noteq> []" "\<not> is_space (hd xs)" "\<not> is_space (last xs)"
  shows "trim (pre @ xs @ post) = xs"
proof -
  have "dropWhile is_space (pre @ xs @ post) = xs @ post" using assms(1,3,4) by (cases xs) (simp_all add: dropWhile_append2)
  moreover have "dropWhile is_space (rev post @ rev xs) = rev xs"
    using assms(2,3,5) dropWhile_append2 [of "rev post" is_space] by (cases xs rule: rev_cases) simp_all
  ultimately show ?thesis by (simp add: trim_def)
qed

definition size_units :: "(string \<times> nat) list" where
  "size_units = [('''', 1), (''K'', 1000), (''M'', 1000 ^ 2), (''G'', 1000 ^ 3), (''KiB'', 1024), (''MiB'', 1024 ^ 2), (''GiB'', 1024 ^ 3)]"

lemma strip_suffix_own: "strip_suffix u (xs @ u) = Some xs"
  by (simp add: strip_suffix_def suffix_def)

lemma strip_suffix_other: "last u \<noteq> last s \<Longrightarrow> u \<noteq> [] \<Longrightarrow> strip_suffix u s = None"
  by (auto simp: strip_suffix_def suffix_def)

lemma size_unit_exact:
  assumes "(u, k) \<in> set size_units" "xs \<noteq> []" "u = [] \<Longrightarrow> last xs \<notin> set ''BMGK''" 
  shows "size_unit (xs @ u) = (xs, of_nat k)"
proof -
  have "strip_suffix ''MiB'' (xs @ ''GiB'') = None" "strip_suffix ''MiB'' (xs @ ''KiB'') = None" "strip_suffix ''GiB'' (xs @ ''KiB'') = None"
    using suffix_same_cases by (auto simp: strip_suffix_def suffix_def)
  then show ?thesis
    using assms unfolding size_units_def
    by (auto simp: size_unit_def strip_suffix_own strip_suffix_other)
qed

text \<open>
  Sizes are read exactly: a decimal number, spaces, one of the units K, M, G (powers of 1000),
  KiB, MiB, GiB (powers of 1024) or none, with any white space around, is the product, and a product
  that does not fit 64 bits is a panic in a checked build and wraps around in an unchecked one.
\<close>

theorem parse_size_exact:
  assumes "(u, k) \<in> set size_units" "n < 2 ^ 64"
    and "\<forall>c\<in>set pre \<union> set mid \<union> set post. is_space c"
  shows "parse_size L (pre @ show_nat n @ mid @ u @ post) =
    (if n * k < 2 ^ 64 then Inr (of_nat (n * k))
     else overflow L ''attempt to multiply with overflow'' (of_nat (n * k)))"
proof -
  let ?s = "show_nat n"
  have hd: "\<not> is_space (hd ?s)" "\<not> is_space (last ?s)" 
    using show_nat_not_space [of "hd ?s" n] show_nat_not_space [of "last ?s" n] by simp_all
  have last: "last ?s \<notin> set ''BMGK''" using show_nat_digits [OF last_in_set, of n] by auto
  have u: "u = [] \<or> \<not> is_space (last u)" using assms(1) by (auto simp: size_units_def is_space_def)
  have k: "unat (of_nat k :: u64) = k" using assms(1) by (auto simp: size_units_def)
  have nn: "unat (of_nat n :: u64) = n" using assms(2) by (rule unat_of_nat_len)
  have "\<exists>mid'. (\<forall>c\<in>set mid'. is_space c) \<and> size_unit (trim (pre @ ?s @ mid @ u @ post)) = (?s @ mid', of_nat k)"
  proof (cases "u = []")
    case True
    then have "trim (pre @ ?s @ mid @ u @ post) = ?s" using trim_core [of pre "mid @ post" ?s] assms(3) hd by auto
    then show ?thesis using size_unit_exact [OF assms(1), of ?s] True last by (intro exI [of _ "[]"]) simp
  next
    case False
    then have "trim (pre @ (?s @ mid @ u) @ post) = ?s @ mid @ u" using assms(3) hd u by (intro trim_core) auto
    then show ?thesis using size_unit_exact [OF assms(1), of "?s @ mid"] False assms(3) by (intro exI [of _ mid]) auto
  qed
  moreover have "trim (?s @ mid') = ?s" if "\<forall>c\<in>set mid'. is_space c" for mid'
    using trim_core [of "[]" mid' ?s] that hd by simp
  moreover have "parse_u64 ?s = Inr (of_nat n)"
    using parse_int_show_nat [of n "2 ^ 64 - 1" 0 False] assms(2) by (simp add: parse_u64_def)
  ultimately show ?thesis by (auto simp: parse_size_def mul_w_def nn k)
qed

theorem parse_size_exact_witness:
  "parse_size (toy_libs True) '' 12 MiB'' = Inr 12582912 \<and>
   parse_size (toy_libs True) ''17179869184GiB'' = Inl (Panic ''attempt to multiply with overflow'') \<and>
   parse_size (toy_libs False) ''17179869184GiB'' = Inr 0"
proof -
  have s: "show_nat 12 = ''12''" "show_nat 17179869184 = ''17179869184''" by (simp_all add: show_nat.simps digit_def char_of_def bit_0)
  show ?thesis
    using parse_size_exact [of "''MiB''" "1024 ^ 2" 12 "'' ''" "'' ''" "[]" "toy_libs True"]
      parse_size_exact [of "''GiB''" "1024 ^ 3" 17179869184 "[]" "[]" "[]" "toy_libs True"]
      parse_size_exact [of "''GiB''" "1024 ^ 3" 17179869184 "[]" "[]" "[]" "toy_libs False"]
    by (simp add: s size_units_def is_space_def overflow_def)
qed

section \<open>The benchmark returns\<close>

lemma sequential_returns:
  assumes "object_size \<noteq> 0"
  shows "\<exists>r. sequential step device_size object_size offset d = Some r"
proof (induction "unat (device_size - offset)" arbitrary: offset d rule: less_induct)
  case less
  show ?case
  proof (cases "offset < device_size")
    case False
    then show ?thesis by (simp add: sequential.simps)
  next
    case True
    let ?k = "min (unat (device_size - offset)) (unat object_size)"
    have left: "unat (device_size - offset) = unat device_size - unat offset" using True by (simp add: unat_sub less_imp_le)
    have pos: "0 < unat device_size - unat offset" "0 < unat object_size"
      using True assms by (simp_all add: word_less_nat_alt unat_gt_0)
    have k: "unat (of_nat ?k :: u64) = ?k"
      by (rule unat_of_nat_len) (use unsigned_less [of "device_size - offset", where ?'a = nat] in simp)
    have "unat offset + ?k < 2 ^ 64" using left unsigned_less [of device_size, where ?'a = nat] pos by simp
    then have o': "unat (offset + of_nat ?k) = unat offset + ?k" using k by (simp add: unat_word_ariths)
    have "offset + of_nat ?k \<le> device_size" using o' left pos by (simp add: word_le_nat_alt)
    then have "unat (device_size - (offset + of_nat ?k)) < unat (device_size - offset)"
      using o' left pos by (simp add: unat_sub)
    then have ih: "\<exists>r. sequential step device_size object_size (offset + of_nat ?k) d' = Some r" for d'
      by (rule less)
    show ?thesis using True ih by (subst sequential.simps) (simp add: Let_def)
  qed
qed

lemma and_then_returns: "\<exists>r. a = Some r \<Longrightarrow> (\<And>d. \<exists>r. k d = Some r) \<Longrightarrow> \<exists>r. and_then a k = Some r"
  by (auto simp: and_then_def split: option.split sum.split)

text \<open>
  C39. The benchmark always returns, with metrics or with an error, whatever sizes, number of
  operations and block size it is given: its sequential loops advance because an object size of
  zero has already been rejected when the objects were counted.
\<close>

theorem run_bench_returns: "\<exists>r. run_bench L uuid bench_dir cfg sz object_sz ops = Some r"
proof -
  have b: "bench_device L cfg device_size object_size ops d \<noteq> None" if "object_size \<noteq> 0" for device_size object_size d
    unfolding bench_device_def sequential_write_def sequential_read_def Let_def not_None_eq
    by (intro and_then_returns sequential_returns [OF that]) (auto simp: and_then_def split: sum.split option.split prod.split)
  have z: "object_size \<noteq> 0"
    if "block_map_new device_size lsz object_size = Inr bmap" "object_count bmap = Inr n" for device_size lsz object_size bmap n
    using that by (auto simp: block_map_new_def object_count_def div_ceil_def rbind_Inr_iff)
  show ?thesis
    unfolding run_bench_def by (auto simp: rbind_Inr_iff split: sum.split option.split dest: z b)
qed

section \<open>The environment file\<close>

lemma split_newlines_Nil [simp]: "split_newlines s \<noteq> []"
  by (induction s) (auto split: list.splits)

lemma split_newlines_append:
  assumes "newline \<notin> set l"
  shows "split_newlines (l @ newline # s) = l # split_newlines s"
  using assms by (induction l) auto

lemma split_join:
  assumes "\<forall>l\<in>set ls. newline \<notin> set l" "ls \<noteq> []"
  shows "split_newlines (join_lines ls @ [newline]) = ls @ [[]]"
  using assms
proof (induction ls rule: join_lines.induct)
  case (2 l)
  then show ?case using split_newlines_append [of l "[]"] by simp
next
  case (3 l m ls)
  then show ?case using split_newlines_append [of l "join_lines (m # ls) @ [newline]"] by simp
qed simp

lemma lines_join: "\<forall>l\<in>set ls. newline \<notin> set l \<Longrightarrow> ls \<noteq> [] \<Longrightarrow> str_lines (join_lines ls @ [newline]) = map strip_cr ls"
  by (simp add: str_lines_def split_join Let_def butlast_append)

lemma split_newlines_clean: "l \<in> set (split_newlines s) \<Longrightarrow> newline \<notin> set l"
proof (induction s arbitrary: l)
  case (Cons c s)
  then show ?case by (cases "split_newlines s") (auto split: if_splits)
qed simp

lemma str_lines_clean: "l \<in> set (str_lines s) \<Longrightarrow> newline \<notin> set l"
  using split_newlines_clean [of _ s] split_newlines_clean [OF last_in_set [OF split_newlines_Nil], of s]
  by (auto simp: str_lines_def strip_cr_def Let_def split: if_splits dest!: in_set_butlastD)

lemma prefix_strip_cr: "prefix (key @ ''='') (strip_cr l) = prefix (key @ ''='') l"
proof (cases "l \<noteq> [] \<and> last l = carriage_return")
  case True
  then obtain m where l: "l = m @ [carriage_return]" by (metis append_butlast_last_id)
  have "carriage_return \<noteq> CHR ''=''" by (simp add: carriage_return_def)
  then have "prefix (key @ ''='') l \<longleftrightarrow> prefix (key @ ''='') m"
    by (auto simp: l prefix_snoc)
  then show ?thesis by (simp add: strip_cr_def l)
qed (auto simp: strip_cr_def)

lemma filter_map_same: "(\<And>x. P (f x) = P x) \<Longrightarrow> filter P (map f xs) = map f (filter P xs)"
  by (induction xs) simp_all

text \<open>
  Setting a key in the environment file: afterwards the file has a line for the key, every line
  for the key has the new value, the other lines are the same in the same order (without a trailing
  carriage return), and no other file changes.
\<close>

theorem upsert_env_sets_key:
  assumes "newline \<notin> set (key @ v)" "v = [] \<or> last v \<noteq> carriage_return" "upsert_env path key v w = (Inr (), w')"
  shows "\<exists>s'. mc_files w' = (mc_files w)(path \<mapsto> s') \<and> mc_store w' = mc_store w \<and> mc_net w' = mc_net w \<and>
    filter (prefix (key @ ''='')) (str_lines s') \<noteq> [] \<and>
    (\<forall>l\<in>set (str_lines s'). prefix (key @ ''='') l \<longrightarrow> l = key @ ''='' @ v) \<and>
    filter (\<lambda>l. \<not> prefix (key @ ''='') l) (str_lines s') =
      map strip_cr (filter (\<lambda>l. \<not> prefix (key @ ''='') l) (str_lines (case mc_files w path of None \<Rightarrow> [] | Some s \<Rightarrow> s)))"
proof -
  let ?P = "prefix (key @ ''='')" and ?entry = "key @ ''='' @ v"
  let ?old = "str_lines (case mc_files w path of None \<Rightarrow> [] | Some s \<Rightarrow> s)"
  let ?new = "upsert_lines key v ?old"
  have e: "strip_cr ?entry = ?entry" "?P ?entry" using assms(2) by (auto simp: strip_cr_def carriage_return_def)
  have clean: "\<forall>l\<in>set ?new. newline \<notin> set l"
    using assms(1) str_lines_clean by (auto simp: upsert_lines_def Let_def newline_def split: if_splits)
  have ne: "?new \<noteq> []" by (auto simp: upsert_lines_def Let_def)
  have lines: "str_lines (join_lines ?new @ [newline]) = map strip_cr ?new" using lines_join [OF clean ne] .
  have other: "filter (\<lambda>l. \<not> ?P l) ?new = filter (\<lambda>l. \<not> ?P l) ?old"
    using e(2) by (auto simp: upsert_lines_def Let_def filter_map comp_def intro: map_idI)
  have own: "\<forall>l\<in>set ?new. ?P l \<longrightarrow> l = ?entry" by (auto simp: upsert_lines_def Let_def)
  have "?entry \<in> set ?new"
  proof (cases "list_ex ?P ?old")
    case True
    then obtain l where "l \<in> set ?old" "?P l" by (auto simp: list_ex_iff)
    then have "?entry \<in> (\<lambda>l. if ?P l then ?entry else l) ` set ?old" by (intro image_eqI [of _ _ l]) simp_all
    then show ?thesis using True by (simp add: upsert_lines_def Let_def)
  qed (simp add: upsert_lines_def Let_def)
  then have some: "\<exists>l\<in>set ?new. ?P l" using e(2) by blast
  show ?thesis
    using assms(3) own some e
    by (intro exI [of _ "join_lines ?new @ [newline]"])
      (auto simp: upsert_env_def Let_def lines prefix_strip_cr filter_map_same filter_empty_conv other [symmetric])
qed

theorem upsert_env_sets_key_witness:
  "\<exists>w' s'. upsert_env ''.env'' ''A'' ''2'' \<lparr>mc_store = None, mc_objects = Map.empty, mc_files = [''.env'' \<mapsto> ''A=1''], mc_stdin = [], mc_net = ()\<rparr> = (Inr (), w') \<and>
     mc_files w' = [''.env'' \<mapsto> s'] \<and> filter (prefix ''A='') (str_lines s') \<noteq> [] \<and>
     (\<forall>l\<in>set (str_lines s'). prefix ''A='' l \<longrightarrow> l = ''A=2'')"
proof -
  let ?w = "\<lparr>mc_store = None, mc_objects = Map.empty, mc_files = [''.env'' \<mapsto> ''A=1''], mc_stdin = [], mc_net = ()\<rparr>"
  obtain w' where u: "upsert_env ''.env'' ''A'' ''2'' ?w = (Inr (), w')" by (simp add: upsert_env_def)
  then show ?thesis using upsert_env_sets_key [OF _ _ u] by (auto simp: newline_def carriage_return_def)
qed

section \<open>The flush command\<close>

lemma flush_clears: "flush L B d = (Inr (), d') \<Longrightarrow> ls_dirty_objects (bd_store d') = []"
  by (auto simp: flush_def bnd_apply clear_dirty_and_wal_def split: prod.splits sum.splits if_splits)

text \<open>
  C33. The \<open>flush\<close> command does not reach the channel. It builds a device over a fresh in-memory
  backend, so when it succeeds nothing outside the machine has changed, and yet the local store no
  longer records any object as dirty.
\<close>

theorem flush_command_stays_local:
  assumes "cmd_flush L cfg w = (Inr (), w')"
  shows "mc_net w' = mc_net w \<and> (\<exists>s. mc_store w' = Some s \<and> ls_dirty_objects s = [])"
  using assms flush_clears
  by (auto simp: cmd_flush_def local_manifest_def on_local_def bnd_apply Let_def split: prod.splits sum.splits)

theorem flush_command_stays_local_witness:
  "\<exists>d w'. write_at (toy_libs True) (memory_backend (toy_libs True)) 131070 [1, 2, 3] toy_device = (Inr (), d) \<and>
     ls_dirty_objects (bd_store d) \<noteq> [] \<and>
     cmd_flush (toy_libs True) toy_config \<lparr>mc_store = Some (bd_store d), mc_objects = Map.empty, mc_files = Map.empty, mc_stdin = [], mc_net = first_world\<rparr> = (Inr (), w') \<and>
     mc_net w' = first_world \<and> (\<exists>s. mc_store w' = Some s \<and> ls_dirty_objects s = [])"
proof -
  let ?L = "toy_libs True" and ?disk = "splice_at 131070 [1, 2, 3] (replicate (512 * 131072) 0) :: bytes"
  let ?B = "memory_backend (toy_libs True)" and ?m = "manifest_empty 7 131072 512"
  obtain d where w: "write_at ?L ?B 131070 [1, 2, 3] toy_device = (Inr (), d)" and ne: "ls_dirty_objects (bd_store d) \<noteq> []"
    using toy_written [of ?L] by auto
  have wr: "wrote ?L memory_invar memory_room mb_messages toy_device d ?disk"
    using mem.write_at_rel [OF toy_rel _ _ _ w] by (auto simp: toy_sel)
  have gr: "grown 1 toy_device d" using write_at_grown [of 0 toy_device ?L ?B 131070 "[1, 2, 3]"] w by (simp add: gens_below_def toy_sel)
  have sel: "bd_manifest d = ?m" "bd_map d = bd_map toy_device" "mb_messages (bd_backend d) = Map.empty"
    using wr by (simp_all add: wrote_def same_config_def toy_sel memory_new_def)
  have load: "load_manifest ?L (bd_store d) = Inr (Some ?m)"
    using gr formatted_store [OF toy_format] by (auto simp: grown_def load_manifest_def toy_device_def device_new_def)
  let ?d = "device_new (bd_map d) (memory_new (- 100)) (bd_store d) ?m"
  have "dev_rel ?L memory_invar mb_messages d ?disk" using wr by (simp add: wrote_def)
  moreover have "mb_messages (bd_backend d) \<subseteq>\<^sub>m mb_messages (memory_new (- 100))" by (simp add: sel)
  ultimately have "dev_rel ?L memory_invar mb_messages (d\<lparr>bd_backend := memory_new (- 100), bd_metrics := metrics_default\<rparr>) ?disk"
    by (intro dev_rel_backend memory_new_ok(1))
  then have rel: "dev_rel ?L memory_invar mb_messages ?d ?disk"
    by (simp add: dev_rel_def shape_ok_def objects_ok_def device_object_size_def device_new_def sel)
  have "length (ls_dirty_objects (bd_store d)) \<le> 4096" using gr wr by (simp add: grown_def toy_sel wrote_def same_config_def)
  then obtain d' where fl: "flush ?L ?B ?d = (Inr (), d')"
    using mem_live.flush_live [OF rel, of 0 0] by (auto simp: device_new_def toy_sel dirty_objects_def)
  have "validate toy_config = Inr ()" by code_simp
  then have "block_map_new 67108864 4096 131072 = Inr (bd_map d)"
    using valid_block_map [of toy_config] sel(2) by (simp add: toy_config_def toy_sel)
  then have "\<exists>w'. cmd_flush ?L toy_config \<lparr>mc_store = Some (bd_store d), mc_objects = Map.empty, mc_files = Map.empty, mc_stdin = [], mc_net = first_world\<rparr> = (Inr (), w')"
    using fl load by (simp add: cmd_flush_def local_manifest_def on_local_def opened_def bnd_apply toy_config_def unwrap_or_def)
  then show ?thesis using flush_command_stays_local w ne by fastforce
qed

section \<open>The committer\<close>

text \<open>The committer of the storage satisfies the contract of the device's flush.\<close>

lemma telegram_commits_safely:
  assumes "chat_ok C (ts_peer S) V"
  shows "commits_safely (ch_good V) (\<lambda>_ _. True) (stored_doc V) n (Some (commit_manifest L C S))"
  unfolding commits_safely_def
proof (intro allI impI)
  fix c m dsz lsz osz b k y b'
  assume c: "Some (commit_manifest L C S) = Some c" and b: "ch_good V b" and r: "c m dsz lsz osz b = (y, b')"
  have "extended V b b'" using grows_commit [OF assms, of L m dsz lsz osz] b c r unfolding grows_def by (metis option.inject snd_conv)
  then show "ch_good V b' \<and> True \<and> stored_doc V b \<subseteq>\<^sub>m stored_doc V b'" using stored_doc_mono [OF assms] by (simp add: extended_def)
qed

end
