(* ===== verification/RecoveryExample.thy ===== *)
theory RecoveryExample
  imports CliTheorems
begin

text \<open>
  A device over the example channel that writes one object and flushes it, computed step by step:
  the inputs of the witness for recovery from the channel.
\<close>

text \<open>The storage over the example channel satisfies the backend contract.\<close>

interpretation toy_tg: readable_backend "telegram_backend L toy_client S" "ch_good toy_chat" "\<lambda>_ _. True" "stored_doc toy_chat" L for L S
  by (rule telegram_readable_backend [OF toy_chat_ok toy_chat_readable])

definition toy_block :: bytes where "toy_block = replicate 131072 1"

lemma toy_block_length [simp]: "length toy_block = 131072"
  by (simp add: toy_block_def)

definition toy_map :: BlockMap where
  "toy_map = \<lparr>bm_device_size = 67108864, bm_logical_sector_size = 4096, bm_object_size = 131072\<rparr>"

definition block_env :: ObjectEnvelope where
  "block_env = \<lparr>env_object_id = 0, env_generation = 1, env_object_size = 131072, env_flags = 0, env_payload = toy_block\<rparr>"

definition block_doc :: bytes where "block_doc = encode (toy_libs True) block_env"

definition block_ref :: RemoteObjectRef where
  "block_ref = \<lparr>ref_chat_id = 5, ref_message_id = 1, ref_object_id = 0, ref_generation = 1, ref_sha256 = sha256_hex (toy_libs True) block_doc\<rparr>"

definition block_manifest :: Manifest where
  "block_manifest = commit_entry 0 1 block_ref (sha256_hex (toy_libs True) block_doc) ((manifest_empty 7 131072 512)\<lparr>m_generation := 1\<rparr>)"

definition block_libs :: libs where
  "block_libs = small_libs block_manifest block_manifest"

lemma block_libs_base: "encode block_libs e = encode (toy_libs True) e" "sha256_hex block_libs bs = sha256_hex (toy_libs True) bs"
  "overflow_checks block_libs = True"
  by (simp_all add: block_libs_def small_libs_def encode_def sha256_hex_def sha256_bytes_def toy_libs_def)

definition chat_device :: "post list BlockDevice" where
  "chat_device = with_committer (commit_manifest block_libs toy_client toy_storage)
     (device_new toy_map [] (store_open ''c'' Map.empty) (manifest_empty 7 131072 512))"

lemma chat_device_sel: "bd_map chat_device = toy_map" "bd_backend chat_device = []" "bd_store chat_device = store_open ''c'' Map.empty"
  "bd_manifest chat_device = manifest_empty 7 131072 512" "bd_committer chat_device = Some (commit_manifest block_libs toy_client toy_storage)"
  "bd_max_dirty_objects chat_device = 4096" "m_generation (manifest_empty 7 131072 512) = 0"
  by (simp_all add: chat_device_def with_committer_def device_new_def manifest_empty_def)

lemma chat_device_rel: "dev_rel block_libs (ch_good toy_chat) (stored_doc toy_chat) chat_device (replicate 67108864 0)"
  using initial_rel [of toy_map 512 "store_open ''c'' Map.empty" "ch_good toy_chat" "[]" chat_device 7 131072 block_libs "stored_doc toy_chat"]
  by (simp add: chat_device_sel toy_map_def store_open_def)

lemma block_steps:
  "add_w block_libs 0 (131072 :: u64) = Inr 131072" "add_w block_libs 0 (1 :: u64) = Inr 1" "sub_w block_libs 131072 (0 :: u64) = Inr 131072"
  "locate toy_map 0 = Inr (0, 0)" "bm_object_size toy_map = 131072" "bm_device_size toy_map = 67108864"
  "encode block_libs \<lparr>env_object_id = 0, env_generation = 1, env_object_size = 131072, env_flags = 0, env_payload = toy_block\<rparr> = block_doc"
  "slice 0 131072 toy_block = toy_block" "splice_at 0 toy_block (replicate 131072 0) = toy_block" "resize 131072 0 toy_block = toy_block"
  by (simp_all add: add_w_def sub_w_def block_libs_base locate_def toy_map_def ensure_def block_doc_def block_env_def slice_def splice_at_def resize_def)

definition written :: "post list BlockDevice \<Rightarrow> bool" where
  "written d \<longleftrightarrow> bd_manifest d = manifest_empty 7 131072 512 \<and> bd_map d = toy_map \<and> bd_backend d = [] \<and>
     bd_committer d = Some (commit_manifest block_libs toy_client toy_storage) \<and>
     ls_files (bd_store d) (cache_path (store_open ''c'' Map.empty) 0 1) = Some block_doc \<and>
     dirty_objects (bd_store d) = [\<lparr>do_object_id = 0, do_generation = 1, do_cache_path = cache_path (store_open ''c'' Map.empty) 0 1,
       do_sha256 = sha256_hex (toy_libs True) block_doc\<rparr>]"

lemma chat_dirty: "\<exists>d. write_dirty_object block_libs 0 toy_block 0 131072 chat_device = (Inr (), d) \<and> written d"
proof -
  let ?s = "store_open ''c'' Map.empty"
  have mr: "merged_range [] 0 1 0 131072 = (0, 131072)" by (simp add: merged_range_def)
  obtain s1 where w: "write_cache block_libs 0 1 block_doc True ?s = (Inr (sha256_hex (toy_libs True) block_doc), s1)"
    and s1: "ls_files s1 = [cache_path ?s 0 1 \<mapsto> block_doc]" "ls_dirty_objects s1 = []" "ls_wal_entries s1 = []" "ls_cache_dir s1 = ''c''"
    by (simp add: write_cache_def tick_def block_libs_base Let_def store_open_def)
  have path: "cache_path s1 0 1 = cache_path ?s 0 1" by (simp add: cache_path_def s1 store_open_def)
  obtain s2 where m: "mark_dirty block_libs 0 1 (cache_path ?s 0 1) (sha256_hex (toy_libs True) block_doc) 0 131072 s1 = (Inr (), s2)"
    and s2: "ls_files s2 = ls_files s1" "dirty_objects s2 = [\<lparr>do_object_id = 0, do_generation = 1, do_cache_path = cache_path ?s 0 1,
       do_sha256 = sha256_hex (toy_libs True) block_doc\<rparr>]"
    by (simp add: mark_dirty_def bnd_apply tick_def s1 upsert_dirty_row_def block_steps mr dirty_objects_def dirty_of_row_def)
  have "st_dirty_objects (stats ?s) < 4096" by (simp add: stats_def store_open_def)
  then have "write_dirty_object block_libs 0 toy_block 0 131072 chat_device = (Inr (), chat_device\<lparr>bd_store := s2\<rparr>)"
    by (simp add: write_dirty_object_def bnd_apply chat_device_sel block_steps device_object_size_def on_store_def w path m)
  then show ?thesis using s1 s2 by (simp add: written_def chat_device_sel)
qed

lemma chat_write: "\<exists>d. write_at block_libs B 0 toy_block chat_device = (Inr (), d) \<and> written d"
proof -
  obtain d where d: "write_dirty_object block_libs 0 toy_block 0 131072 chat_device = (Inr (), d)" "written d"
    using chat_dirty by blast
  have "write_loop block_libs B toy_block 0 131072 131072 d = (Inr (), d)" by (subst write_loop.simps) simp
  then have "write_loop block_libs B toy_block 131072 0 0 chat_device = (Inr (), d)"
    by (subst write_loop.simps) (simp add: block_steps chat_device_sel Let_def d(1))
  then show ?thesis using d(2) by (simp add: write_at_def bnd_apply block_steps chat_device_sel)
qed

lemma block_libs_facts [simp]: "digest32 block_libs" "json_round_trips block_libs" "json_manifest block_libs block_manifest = Inr []"
  "json_superblock block_libs s = Inr (replicate (to_nat s) CHR ''x'')"
  by (simp_all add: block_libs_def) (simp_all add: small_libs_def toy_libs_def)

lemma block_decodes: "decode block_libs block_doc 0 1 = Inr block_env"
  using decode_encode [of block_libs block_env] by (simp add: block_libs_base block_doc_def) (simp add: block_env_def)

lemma block_manifest_facts: "length (m_objects block_manifest) = 512" "distinct (map mo_object_id (m_objects block_manifest))"
  by (simp_all add: block_manifest_def commit_entry_ids) (simp_all add: commit_entry_def Let_def manifest_empty_def zero_object_def comp_def map_of_nat_upt_distinct)

lemma chat_flush:
  assumes "written d"
  shows "\<exists>d'. flush block_libs (telegram_backend block_libs toy_client toy_storage) d = (Inr (), d')"
proof -
  let ?x = "\<lparr>do_object_id = 0, do_generation = 1, do_cache_path = cache_path (store_open ''c'' Map.empty) 0 1, do_sha256 = sha256_hex (toy_libs True) block_doc\<rparr>"
  let ?B = "telegram_backend block_libs toy_client toy_storage"
  define d0 where "d0 = d\<lparr>bd_manifest := (manifest_empty 7 131072 512)\<lparr>m_generation := 1\<rparr>\<rparr>"
  note d = assms [unfolded written_def]
  have mg: "max_generation [?x] = 1" by (simp add: max_generation_def)
  have pos: "position_of 0 (m_objects (manifest_empty 7 131072 512)) = Some 0"
    using position_of_nth [of "m_objects (manifest_empty 7 131072 512)" 0] by (simp add: manifest_empty_def zero_object_def comp_def)
  obtain w where send: "telegram_send_object block_libs toy_client toy_storage 0 1 block_doc (sha256_hex block_libs block_doc) [] = (Inr block_ref, w)"
    and w: "length w = 1"
    using toy_send_object [OF block_decodes, of "[]" toy_storage] by (simp add: block_ref_def block_libs_base toy_storage_def)
  obtain d1 where up: "upload_all block_libs ?B [?x] d0 = (Inr (), d1)"
    and d1: "bd_manifest d1 = block_manifest" "bd_backend d1 = w" "bd_map d1 = toy_map" "bd_committer d1 = bd_committer d" "bd_store d1 = bd_store d"
    using d send by (simp add: d0_def upload_dirty_def bnd_apply read_file_def block_decodes block_libs_base on_backend_def telegram_backend_def on_metrics_def pos
      block_manifest_def)
  obtain sb w1 where tc: "toy_commit block_libs toy_storage block_manifest 67108864 4096 131072 [] w = (sb, w1)" by force
  obtain w2 where com: "commit_manifest block_libs toy_client toy_storage block_manifest 67108864 4096 131072 w = (Inr (), w2)"
    using toy_commits [OF block_libs_facts(1,3) _ _ _ tc block_libs_facts(4)] w block_manifest_facts by (simp add: MANIFEST_TREE_LEAF_SPAN_def)
  have rc: "run_committer d1 = (Inr (), d1\<lparr>bd_backend := w2\<rparr>)"
    using com d1 d by (simp add: run_committer_def on_backend_def toy_map_def)
  obtain s' where "replace_from_manifest block_libs block_manifest (bd_store d) = (Inr (), s')"
    using replace_from_manifest_ok [OF block_manifest_facts(2) block_libs_facts(3)] by blast
  then show ?thesis
    using d up rc d1 by (simp add: flush_def bnd_apply mg chat_device_sel block_steps d0_def [symmetric] on_store_def)
qed

end
