(* ===== verification/Session.thy ===== *)
theory Session
  imports Backend "HOL-Library.Finite_Map"
begin

text \<open>
  The session file of the Telegram client (\<open>FileSession\<close> in \<open>crates/tgdrive-telegram/src/client.rs\<close>):
  the session data in memory and the file it is written to after every update. The data of the
  client library (data centres, peers, the default session, their JSON) is a parameter, and so is
  the outcome of writing a file: its new contents, and whether the write succeeded. The setters ignore
  that outcome, so the file can fall behind; the theory ends with what holds nevertheless: the memory
  has every update, and the first save that succeeds makes up for all that have failed.
\<close>

record ChannelState =
  cs_id :: i64
  cs_pts :: i32

record UpdatesState =
  us_pts :: i32
  us_qts :: i32
  us_date :: i32
  us_seq :: i32
  us_channels :: "ChannelState list"

datatype UpdateState =
    AllStates UpdatesState
  | Primary i32 i32 i32
  | Secondary i32
  | Channel i64 i32

record ('d, 'p) SessionData =
  sd_home_dc :: i32
  sd_dc_options :: "(i32, 'd) fmap"
  sd_peer_infos :: "(nat, 'p) fmap"
  sd_updates_state :: UpdatesState

record ('d, 'p) session_libs =
  dc_id :: "'d \<Rightarrow> i32"
  peer_id :: "'p \<Rightarrow> nat"
  extend_info :: "'p \<Rightarrow> 'p \<Rightarrow> 'p"
  default_session :: "('d, 'p) SessionData"
  json_session :: "('d, 'p) SessionData \<Rightarrow> bytes res"
  unjson_session :: "bytes \<Rightarrow> ('d, 'p) SessionData res"
  fs_write :: "bytes \<Rightarrow> bytes option \<Rightarrow> unit res \<times> bytes option"

record ('d, 'p) FileSession =
  fs_data :: "('d, 'p) SessionData"
  fs_file :: "bytes option"

section \<open>Operations\<close>

definition session_open :: "('d, 'p) session_libs \<Rightarrow> bytes option \<Rightarrow> ('d, 'p) FileSession res" where
  "session_open Q contents =
     rbind (case contents of None \<Rightarrow> Inr (default_session Q) | Some bs \<Rightarrow> unjson_session Q bs) (\<lambda>data.
     Inr \<lparr>fs_data = data, fs_file = contents\<rparr>)"

definition save_locked :: "('d, 'p) session_libs \<Rightarrow> (('d, 'p) FileSession, unit) st" where
  "save_locked Q s =
     (case json_session Q (fs_data s) of
        Inl e \<Rightarrow> (Inl e, s)
      | Inr bs \<Rightarrow> (case fs_write Q bs (fs_file s) of (x, contents) \<Rightarrow> (x, s\<lparr>fs_file := contents\<rparr>)))"

text \<open>Every setter changes the data and ignores the outcome of saving it.\<close>

definition update_session :: "('d, 'p) session_libs \<Rightarrow> (('d, 'p) SessionData \<Rightarrow> ('d, 'p) SessionData) \<Rightarrow>
    ('d, 'p) FileSession \<Rightarrow> ('d, 'p) FileSession" where
  "update_session Q f s = snd (save_locked Q (s\<lparr>fs_data := f (fs_data s)\<rparr>))"

definition home_dc_id :: "('d, 'p) FileSession \<Rightarrow> i32" where
  "home_dc_id s = sd_home_dc (fs_data s)"

definition set_home_dc_id :: "('d, 'p) session_libs \<Rightarrow> i32 \<Rightarrow> ('d, 'p) FileSession \<Rightarrow> ('d, 'p) FileSession" where
  "set_home_dc_id Q i = update_session Q (\<lambda>data. data\<lparr>sd_home_dc := i\<rparr>)"

definition dc_option :: "i32 \<Rightarrow> ('d, 'p) FileSession \<Rightarrow> 'd option" where
  "dc_option i s = fmlookup (sd_dc_options (fs_data s)) i"

definition set_dc_option :: "('d, 'p) session_libs \<Rightarrow> 'd \<Rightarrow> ('d, 'p) FileSession \<Rightarrow> ('d, 'p) FileSession" where
  "set_dc_option Q option = update_session Q (\<lambda>data. data\<lparr>sd_dc_options := fmupd (dc_id Q option) option (sd_dc_options data)\<rparr>)"

definition session_peer :: "nat \<Rightarrow> ('d, 'p) FileSession \<Rightarrow> 'p option" where
  "session_peer i s = fmlookup (sd_peer_infos (fs_data s)) i"

definition cache_peer :: "('d, 'p) session_libs \<Rightarrow> 'p \<Rightarrow> ('d, 'p) FileSession \<Rightarrow> ('d, 'p) FileSession" where
  "cache_peer Q peer = update_session Q (\<lambda>data.
     let info = (case fmlookup (sd_peer_infos data) (peer_id Q peer) of None \<Rightarrow> peer | Some old \<Rightarrow> old) in
     data\<lparr>sd_peer_infos := fmupd (peer_id Q peer) (extend_info Q info peer) (sd_peer_infos data)\<rparr>)"

definition updates_state :: "('d, 'p) FileSession \<Rightarrow> UpdatesState" where
  "updates_state s = sd_updates_state (fs_data s)"

definition apply_update :: "UpdateState \<Rightarrow> UpdatesState \<Rightarrow> UpdatesState" where
  "apply_update update u =
     (case update of
        AllStates v \<Rightarrow> v
      | Primary pts date seq \<Rightarrow> u\<lparr>us_pts := pts, us_date := date, us_seq := seq\<rparr>
      | Secondary qts \<Rightarrow> u\<lparr>us_qts := qts\<rparr>
      | Channel i pts \<Rightarrow> u\<lparr>us_channels := filter (\<lambda>c. cs_id c \<noteq> i) (us_channels u) @ [\<lparr>cs_id = i, cs_pts = pts\<rparr>]\<rparr>)"

definition set_update_state :: "('d, 'p) session_libs \<Rightarrow> UpdateState \<Rightarrow> ('d, 'p) FileSession \<Rightarrow> ('d, 'p) FileSession" where
  "set_update_state Q update = update_session Q (\<lambda>data. data\<lparr>sd_updates_state := apply_update update (sd_updates_state data)\<rparr>)"

section \<open>The file follows the memory\<close>

text \<open>
  What is relied on: JSON that has been written is read back, and a write that reports success has
  left the bytes in the file. Neither is assumed to succeed.
\<close>

definition session_json_ok :: "('d, 'p) session_libs \<Rightarrow> bool" where
  "session_json_ok Q \<longleftrightarrow> (\<forall>data bs. json_session Q data = Inr bs \<longrightarrow> unjson_session Q bs = Inr data)"

definition write_reports :: "(bytes \<Rightarrow> bytes option \<Rightarrow> unit res \<times> bytes option) \<Rightarrow> bool" where
  "write_reports wr \<longleftrightarrow> (\<forall>bs old contents. wr bs old = (Inr (), contents) \<longrightarrow> contents = Some bs)"

datatype ('d, 'p) session_op =
    SetHomeDc i32
  | SetDcOption 'd
  | CachePeer 'p
  | SetUpdateState UpdateState

definition session_exec :: "('d, 'p) session_libs \<Rightarrow> ('d, 'p) session_op \<Rightarrow> ('d, 'p) FileSession \<Rightarrow> ('d, 'p) FileSession" where
  "session_exec Q op = (case op of
     SetHomeDc i \<Rightarrow> set_home_dc_id Q i
   | SetDcOption x \<Rightarrow> set_dc_option Q x
   | CachePeer x \<Rightarrow> cache_peer Q x
   | SetUpdateState u \<Rightarrow> set_update_state Q u)"

text \<open>An update whose save has an outcome of its own.\<close>

definition session_step :: "('d, 'p) session_libs \<Rightarrow> (bytes \<Rightarrow> bytes option \<Rightarrow> unit res \<times> bytes option) \<times> ('d, 'p) session_op \<Rightarrow>
    ('d, 'p) FileSession \<Rightarrow> ('d, 'p) FileSession" where
  "session_step Q = (\<lambda>(wr, op). session_exec (Q\<lparr>fs_write := wr\<rparr>) op)"

text \<open>What an update means for the data.\<close>

definition session_change :: "('d, 'p) session_libs \<Rightarrow> ('d, 'p) session_op \<Rightarrow> ('d, 'p) SessionData \<Rightarrow> ('d, 'p) SessionData" where
  "session_change Q op = (case op of
     SetHomeDc i \<Rightarrow> (\<lambda>data. data\<lparr>sd_home_dc := i\<rparr>)
   | SetDcOption x \<Rightarrow> (\<lambda>data. data\<lparr>sd_dc_options := fmupd (dc_id Q x) x (sd_dc_options data)\<rparr>)
   | CachePeer x \<Rightarrow> (\<lambda>data. data\<lparr>sd_peer_infos := fmupd (peer_id Q x)
       (extend_info Q (case fmlookup (sd_peer_infos data) (peer_id Q x) of None \<Rightarrow> x | Some old \<Rightarrow> old) x) (sd_peer_infos data)\<rparr>)
   | SetUpdateState u \<Rightarrow> (\<lambda>data. data\<lparr>sd_updates_state := apply_update u (sd_updates_state data)\<rparr>))"

lemma session_step_change: "session_step Q (wr, op) = update_session (Q\<lparr>fs_write := wr\<rparr>) (session_change Q op)"
  by (cases op) (simp_all add: session_step_def session_exec_def set_home_dc_id_def set_dc_option_def cache_peer_def
      set_update_state_def session_change_def Let_def)

lemma update_data [simp]: "fs_data (update_session Q f s) = f (fs_data s)"
  by (auto simp: update_session_def save_locked_def split: sum.split prod.split)

lemma saved_reopens:
  assumes "session_json_ok Q" "write_reports wr" "save_locked (Q\<lparr>fs_write := wr\<rparr>) s = (Inr (), s')"
  shows "session_open Q (fs_file s') = Inr s'"
proof -
  obtain bs where bs: "json_session Q (fs_data s) = Inr bs" "wr bs (fs_file s) = (Inr (), fs_file s')" "s' = s\<lparr>fs_file := fs_file s'\<rparr>"
    using assms(3) by (auto simp: save_locked_def split: sum.splits prod.splits)
  then have "fs_file s' = Some bs" "fs_data s' = fs_data s" "unjson_session Q bs = Inr (fs_data s)"
    using assms(1,2) by (simp_all add: session_json_ok_def write_reports_def) (metis FileSession.select_convs(1) FileSession.surjective FileSession.update_convs(2))
  then show ?thesis using bs(3) by (simp add: session_open_def)
qed

lemma session_steps_data: "fs_data (fold (session_step Q) steps s) = fold (session_change Q) (map snd steps) (fs_data s)"
  by (induction steps arbitrary: s) (auto simp: session_step_change)

section \<open>What a setter sets\<close>

lemma session_lookups:
  "home_dc_id (set_home_dc_id Q i s) = i"
  "dc_option k (set_dc_option Q x s) = (if k = dc_id Q x then Some x else dc_option k s)"
  "session_peer n (cache_peer Q p s) = (if n = peer_id Q p
     then Some (extend_info Q (case session_peer n s of None \<Rightarrow> p | Some old \<Rightarrow> old) p) else session_peer n s)"
  "updates_state (set_update_state Q u s) = apply_update u (updates_state s)"
  by (simp_all add: home_dc_id_def set_home_dc_id_def dc_option_def set_dc_option_def session_peer_def cache_peer_def Let_def
      updates_state_def set_update_state_def)

text \<open>A channel has at most one entry, the last one that was set.\<close>

lemma channel_entries:
  assumes "distinct (map cs_id (us_channels u))" "apply_update (Channel i pts) u = u'"
  shows "distinct (map cs_id (us_channels u')) \<and> map_of (map (\<lambda>c. (cs_id c, cs_pts c)) (us_channels u')) =
    (map_of (map (\<lambda>c. (cs_id c, cs_pts c)) (us_channels u)))(i \<mapsto> pts)"
proof -
  let ?f = "\<lambda>c :: ChannelState. (cs_id c, cs_pts c)"
  have "map_of (map ?f (filter (\<lambda>c. cs_id c \<noteq> i) xs)) k = (if k = i then None else map_of (map ?f xs) k)" for xs :: "ChannelState list" and k
    by (induction xs) auto
  then have "map_of (map ?f (us_channels u')) k = ((map_of (map ?f (us_channels u)))(i \<mapsto> pts)) k" for k
    using assms(2) by (auto simp: apply_update_def map_add_def split: option.split)
  then show ?thesis using assms by (auto simp: apply_update_def distinct_map_filter)
qed

section \<open>A library for the example\<close>

instance ChannelState_ext :: (countable) countable
  by (rule countable_classI [of "\<lambda>r. to_nat (cs_id r, cs_pts r, ChannelState.more r)"]) (auto intro: ChannelState.equality)

instance UpdatesState_ext :: (countable) countable
  by (rule countable_classI [of "\<lambda>r. to_nat (us_pts r, us_qts r, us_date r, us_seq r, us_channels r, UpdatesState.more r)"])
    (auto intro: UpdatesState.equality)

instance SessionData_ext :: (countable, countable, countable) countable
  by (rule countable_classI [of "\<lambda>r. to_nat (sd_home_dc r, sd_dc_options r, sd_peer_infos r, sd_updates_state r, SessionData.more r)"])
    (auto intro: SessionData.equality)

definition toy_session_libs :: "(i32, nat) session_libs" where
  "toy_session_libs = \<lparr>dc_id = (\<lambda>i. i), peer_id = (\<lambda>p. p), extend_info = (\<lambda>old new. new),
     default_session = \<lparr>sd_home_dc = 2, sd_dc_options = fmempty, sd_peer_infos = fmempty,
       sd_updates_state = \<lparr>us_pts = 0, us_qts = 0, us_date = 0, us_seq = 0, us_channels = []\<rparr>\<rparr>,
     json_session = (\<lambda>data. Inr (replicate (to_nat data) 0)), unjson_session = (\<lambda>bs. Inr (from_nat (length bs))),
     fs_write = (\<lambda>bs old. (Inr (), Some bs))\<rparr>"

section \<open>The property of the session file\<close>

text \<open>
  C38. The session in memory and its file. Whatever saves fail on the way, after a sequence of updates
  the memory has all of them, in order; and if the save of the last update succeeds, opening the file
  again gives exactly the session that is in memory, with the updates of the earlier failed saves.
  Before any update, the file opens as the session that was opened. (A session whose last save failed
  is ahead of its file: the setters ignore the error.)
\<close>

theorem session_file_current:
  assumes "session_json_ok Q" "session_open Q contents = Inr s" "write_reports wr"
    and "s1 = fold (session_step Q) steps s" "s2 = session_step Q (wr, op) s1"
  shows "fs_data s2 = fold (session_change Q) (map snd steps @ [op]) (fs_data s) \<and> session_open Q (fs_file s) = Inr s \<and>
    (fst (save_locked (Q\<lparr>fs_write := wr\<rparr>) (s1\<lparr>fs_data := session_change Q op (fs_data s1)\<rparr>)) = Inr () \<longrightarrow>
       session_open Q (fs_file s2) = Inr s2)"
proof (intro conjI impI)
  show "fs_data s2 = fold (session_change Q) (map snd steps @ [op]) (fs_data s)"
    by (simp add: assms(4,5) session_step_change session_steps_data)
  have "fs_file s = contents" using assms(2) by (auto simp: session_open_def rbind_Inr_iff)
  then show "session_open Q (fs_file s) = Inr s" using assms(2) by simp
  assume "fst (save_locked (Q\<lparr>fs_write := wr\<rparr>) (s1\<lparr>fs_data := session_change Q op (fs_data s1)\<rparr>)) = Inr ()"
  then have "save_locked (Q\<lparr>fs_write := wr\<rparr>) (s1\<lparr>fs_data := session_change Q op (fs_data s1)\<rparr>) = (Inr (), s2)"
    by (simp add: assms(5) session_step_change update_session_def prod_eq_iff)
  then show "session_open Q (fs_file s2) = Inr s2" by (rule saved_reopens [OF assms(1,3)])
qed

theorem session_file_current_witness:
  "\<exists>s s1 s2. session_open toy_session_libs None = Inr s \<and>
     s1 = session_step toy_session_libs (\<lambda>bs old. (Inl (Anyhow ''disk full''), old), SetHomeDc 4) s \<and> fs_file s1 = None \<and>
     s2 = session_step toy_session_libs (\<lambda>bs old. (Inr (), Some bs), CachePeer 9) s1 \<and>
     session_open toy_session_libs (fs_file s2) = Inr s2 \<and> home_dc_id s2 = 4 \<and> session_peer 9 s2 = Some 9"
proof -
  let ?Q = toy_session_libs and ?fail = "\<lambda>bs old. (Inl (Anyhow ''disk full''), old) :: unit res \<times> bytes option"
  let ?ok = "\<lambda>bs old. (Inr (), Some bs) :: unit res \<times> bytes option"
  have j: "session_json_ok ?Q" by (auto simp: session_json_ok_def toy_session_libs_def)
  have w: "write_reports ?ok" by (simp add: write_reports_def)
  obtain s where o: "session_open ?Q None = Inr s" "fs_file s = None" by (simp add: session_open_def)
  let ?s1 = "session_step ?Q (?fail, SetHomeDc 4) s" let ?s2 = "session_step ?Q (?ok, CachePeer 9) ?s1"
  have f: "fs_file ?s1 = None"
    using o(2) by (simp add: session_step_change update_session_def save_locked_def toy_session_libs_def)
  have sv: "fst (save_locked (?Q\<lparr>fs_write := ?ok\<rparr>) (?s1\<lparr>fs_data := session_change ?Q (CachePeer 9) (fs_data ?s1)\<rparr>)) = Inr ()"
    by (simp add: save_locked_def toy_session_libs_def)
  have e: "?s1 = fold (session_step ?Q) [(?fail, SetHomeDc 4)] s" by simp
  note c = session_file_current [OF j o(1) w e refl, of "CachePeer 9"]
  have "home_dc_id ?s2 = 4" "session_peer 9 ?s2 = Some 9"
    using c by (simp_all add: home_dc_id_def session_peer_def session_change_def toy_session_libs_def split: option.split)
  then show ?thesis using o(1) f c sv by blast
qed

end
