(* ===== verification/Commands.thy ===== *)
theory Commands
  imports CliTheorems
begin

text \<open>
  The commands of \<open>crates/tgdrive-cli/src/main.rs\<close> put together: the login dialogue with its prompts
  (and \<open>LoginClient\<close> of \<open>crates/tgdrive-telegram/src/client.rs\<close>), \<open>serve-nbd\<close> under the mount lock,
  and the dispatch of \<open>main\<close>. The arguments are those \<open>clap\<close> has parsed. The standard input is the
  list of lines still to be read. \<open>serve-nbd\<close> starts serving an export and holds the lock; the
  accept loop only ends with an error, which \<open>serve_ends\<close> handles, or with the process, which
  \<open>serve_killed\<close> describes. Text is ASCII.
\<close>

section \<open>Login\<close>

datatype 't SignInError = SignUpRequired | PasswordRequired 't | InvalidCode | InvalidPassword 't | OtherError InvocationError

text \<open>The client library's authorisation calls, with its login and password tokens.\<close>

record ('c, 'l, 't) auth_client =
  au_is_authorized :: "('c, bool) ist"
  au_request_login_code :: "string \<Rightarrow> string \<Rightarrow> ('c, 'l) ist"
  au_sign_in :: "'l \<Rightarrow> string \<Rightarrow> 'c \<Rightarrow> ('t SignInError + unit) \<times> 'c"
  au_check_password :: "'t \<Rightarrow> string \<Rightarrow> 'c \<Rightarrow> ('t SignInError + unit) \<times> 'c"
  au_display :: "InvocationError \<Rightarrow> string"

record LoginClient =
  lc_api_hash :: string

definition connect_for_login :: "'c client \<Rightarrow> TelegramClientConfig \<Rightarrow> ('c, LoginClient) st" where
  "connect_for_login C config =
     bnd (connect_client C config) (\<lambda>_. ret \<lparr>lc_api_hash = tc_api_hash config\<rparr>)"

definition login_is_authorized :: "('c, 'l, 't) auth_client \<Rightarrow> ('c, bool) st" where
  "login_is_authorized A = call (au_is_authorized A)"

definition request_login_code :: "('c, 'l, 't) auth_client \<Rightarrow> LoginClient \<Rightarrow> string \<Rightarrow> ('c, 'l) st" where
  "request_login_code A login phone = call (au_request_login_code A phone (lc_api_hash login))"

definition sign_in_message :: "('c, 'l, 't) auth_client \<Rightarrow> 't SignInError \<Rightarrow> string" where
  "sign_in_message A e =
     (case e of
        SignUpRequired \<Rightarrow> ''sign in error: sign up with official client required''
      | PasswordRequired _ \<Rightarrow> ''2fa password required''
      | InvalidCode \<Rightarrow> ''sign in error: invalid code''
      | InvalidPassword _ \<Rightarrow> ''invalid password''
      | OtherError inner \<Rightarrow> ''sign in error: '' @ au_display A inner)"

text \<open>The operator \<open>?\<close> on a sign-in error keeps its message.\<close>

definition check_password :: "('c, 'l, 't) auth_client \<Rightarrow> 't \<Rightarrow> string \<Rightarrow> ('c, unit) st" where
  "check_password A token password c =
     (case au_check_password A token password c of
        (Inl e, c') \<Rightarrow> (Inl (Anyhow (sign_in_message A e)), c')
      | (Inr _, c') \<Rightarrow> (Inr (), c'))"

text \<open>At the end of the input \<open>read_line\<close> reads nothing and the answer is empty.\<close>

definition prompt :: "('c machine, string) st" where
  "prompt w = (case mc_stdin w of
     [] \<Rightarrow> (Inr [], w)
   | line # rest \<Rightarrow> (Inr (trim line), w\<lparr>mc_stdin := rest\<rparr>))"

definition sign_in_or_ask :: "('c, 'l, 't) auth_client \<Rightarrow> 'l \<Rightarrow> string \<Rightarrow> ('c machine, unit) st" where
  "sign_in_or_ask A token code w =
     (case au_sign_in A token code (mc_net w) of
        (Inr _, c) \<Rightarrow> (Inr (), w\<lparr>mc_net := c\<rparr>)
      | (Inl (PasswordRequired password_token), c) \<Rightarrow>
          bnd prompt (\<lambda>password. on_net (check_password A password_token password)) (w\<lparr>mc_net := c\<rparr>)
      | (Inl e, c) \<Rightarrow> (Inl (Anyhow (sign_in_message A e)), w\<lparr>mc_net := c\<rparr>))"

definition cmd_login :: "'c client \<Rightarrow> ('c, 'l, 't) auth_client \<Rightarrow> TgDriveConfig \<Rightarrow> ('c machine, unit) st" where
  "cmd_login C A cfg =
     bnd (lift (telegram_config cfg)) (\<lambda>tc.
     bnd (on_net (connect_for_login C tc)) (\<lambda>login.
     bnd (on_net (login_is_authorized A)) (\<lambda>authorized.
     if authorized then ret ()
     else
       bnd prompt (\<lambda>phone.
       bnd (on_net (request_login_code A login phone)) (\<lambda>token.
       bnd prompt (\<lambda>code.
       sign_in_or_ask A token code))))))"

section \<open>Serving under the mount lock\<close>

datatype 'c export =
    LocalExport NbdServerOptions "MemoryBackend BlockDevice"
  | TelegramExport NbdServerOptions "'c BlockDevice"

definition serve_local :: "libs \<Rightarrow> TgDriveConfig \<Rightarrow> ('c machine, MemoryBackend BlockDevice) st" where
  "serve_local L cfg =
     bnd (local_manifest L cfg) (\<lambda>manifest.
     bnd (lift (block_map_new (cfg_device_size cfg) (cfg_logical_sector_size cfg) (cfg_object_size cfg))) (\<lambda>bmap.
     gets (\<lambda>w. device_new bmap (memory_new (unwrap_or (cfg_telegram_channel_id cfg) (- 100))) (opened cfg w) manifest)))"

definition make_export :: "libs \<Rightarrow> 'c client \<Rightarrow> string \<Rightarrow> string \<Rightarrow> BackendChoice \<Rightarrow> TgDriveConfig \<Rightarrow> ('c machine, 'c export) st" where
  "make_export L C bind export_name backend cfg =
     (case backend of
        LocalBackend \<Rightarrow> bnd (serve_local L cfg) (\<lambda>device. ret (LocalExport (nbd_options bind export_name cfg) device))
      | TelegramBackend \<Rightarrow> bnd (serve_telegram L C cfg) (\<lambda>device. ret (TelegramExport (nbd_options bind export_name cfg) device)))"

text \<open>The guard \<open>_lock\<close> is dropped when the command fails and held while the export is served.\<close>

definition cmd_serve_nbd :: "libs \<Rightarrow> 'c client \<Rightarrow> string \<Rightarrow> string \<Rightarrow> BackendChoice \<Rightarrow> TgDriveConfig \<Rightarrow> ('c machine, 'c export) st" where
  "cmd_serve_nbd L C bind export_name backend cfg =
     bnd (mount_lock_acquire (cfg_cache_dir cfg)) (\<lambda>path w.
       case make_export L C bind export_name backend cfg w of
         (Inl e, w') \<Rightarrow> (Inl e, mount_lock_drop path w')
       | (Inr export, w') \<Rightarrow> (Inr export, w'))"

text \<open>
  The two ways in which serving stops. When the process is killed or aborts, the store and the outside
  world are as the device has left them, and no destructor runs: the lock file stays. When \<open>serve\<close>
  returns its error, the guard \<open>_lock\<close> is dropped as well.
\<close>

definition serve_killed :: "'c export \<Rightarrow> 'c machine \<Rightarrow> 'c machine" where
  "serve_killed export w =
     (case export of
        LocalExport _ d \<Rightarrow> w\<lparr>mc_store := Some (bd_store d)\<rparr>
      | TelegramExport _ d \<Rightarrow> w\<lparr>mc_store := Some (bd_store d), mc_net := bd_backend d\<rparr>)"

definition serve_ends :: "TgDriveConfig \<Rightarrow> err \<Rightarrow> 'c export \<Rightarrow> ('c machine, unit) st" where
  "serve_ends cfg e export w =
     (Inl e, mount_lock_drop (lock_path (cfg_cache_dir cfg)) (serve_killed export w))"

section \<open>Dispatch\<close>

datatype Command =
    CmdLogin
  | CmdResolveChannel
  | CmdRecoverFromRemote
  | CmdFormat "string option" "string option" bool bool
  | CmdServeNbd string string BackendChoice
  | CmdStatus
  | CmdFlush
  | CmdFsck bool
  | CmdGc bool
  | CmdRecover
  | CmdBench string string nat

record Cli =
  cli_config :: "string option"
  cli_read_only :: bool
  cli_command :: Command

text \<open>A command that ends, one that serves an export, and a benchmark that does not return.\<close>

datatype 'c outcome = Ended | Serving "'c export" | Diverged

definition finished :: "('c machine, 'a) st \<Rightarrow> ('c machine, 'c outcome) st" where
  "finished m = bnd m (\<lambda>_. ret Ended)"

definition run_command :: "libs \<Rightarrow> 'c client \<Rightarrow> ('c, 'l, 't) auth_client \<Rightarrow> 128 word \<Rightarrow> string \<Rightarrow> Command \<Rightarrow> TgDriveConfig \<Rightarrow>
    ('c machine, 'c outcome) st" where
  "run_command L C A uuid bench_dir cmd cfg =
     (case cmd of
        CmdLogin \<Rightarrow> finished (cmd_login C A cfg)
      | CmdResolveChannel \<Rightarrow> finished (cmd_resolve_channel C cfg)
      | CmdRecoverFromRemote \<Rightarrow> finished (cmd_recover_from_remote L C cfg)
      | CmdFormat sz object_sz force local_only \<Rightarrow> finished (cmd_format L C uuid sz object_sz force local_only cfg)
      | CmdServeNbd bind export_name backend \<Rightarrow>
          bnd (cmd_serve_nbd L C bind export_name backend cfg) (\<lambda>export. ret (Serving export))
      | CmdStatus \<Rightarrow> finished (cmd_status L cfg)
      | CmdFlush \<Rightarrow> finished (cmd_flush L cfg)
      | CmdFsck _ \<Rightarrow> finished (cmd_fsck L cfg)
      | CmdGc yes \<Rightarrow> finished (cmd_gc L C yes cfg)
      | CmdRecover \<Rightarrow> finished (cmd_recover L C cfg)
      | CmdBench sz object_sz ops \<Rightarrow>
          (case run_bench L uuid bench_dir cfg sz object_sz ops of
             None \<Rightarrow> ret Diverged
           | Some r \<Rightarrow> finished (lift r)))"

definition tgdrive_main :: "libs \<Rightarrow> 'c client \<Rightarrow> ('c, 'l, 't) auth_client \<Rightarrow> environment \<Rightarrow> 128 word \<Rightarrow> string \<Rightarrow> Cli \<Rightarrow>
    ('c machine, 'c outcome) st" where
  "tgdrive_main L C A E uuid bench_dir cli =
     bnd (lift (config_load E (cli_config cli) (Some (cli_read_only cli)))) (\<lambda>cfg.
     run_command L C A uuid bench_dir (cli_command cli) cfg)"

section \<open>The read-only flag\<close>

lemma config_read_only_irrelevant [simp]:
  "telegram_config (cfg\<lparr>cfg_read_only := r\<rparr>) = telegram_config cfg"
  "nbd_options bind name (cfg\<lparr>cfg_read_only := r\<rparr>) = nbd_options bind name cfg"
  "opened (cfg\<lparr>cfg_read_only := r\<rparr>) = opened cfg"
  "config_object_count (cfg\<lparr>cfg_read_only := r\<rparr>) = config_object_count cfg"
  by (simp_all add: telegram_config_def nbd_options_def opened_def config_object_count_def fun_eq_iff cong: option.case_cong)

lemma on_local_read_only [simp]: "on_local (cfg\<lparr>cfg_read_only := r\<rparr>) m = on_local cfg m"
  by (simp add: on_local_def fun_eq_iff)

lemma storage_read_only [simp]:
  "connect_storage C (cfg\<lparr>cfg_read_only := r\<rparr>) = connect_storage C cfg"
  "local_manifest L (cfg\<lparr>cfg_read_only := r\<rparr>) = local_manifest L cfg"
  "recover_remote_manifest L C S (cfg\<lparr>cfg_read_only := r\<rparr>) = recover_remote_manifest L C S cfg"
  "rollback_superblock L C S (cfg\<lparr>cfg_read_only := r\<rparr>) = rollback_superblock L C S cfg"
  by (simp_all add: connect_storage_def local_manifest_def recover_remote_manifest_def rollback_superblock_def)

lemma commands_read_only [simp]:
  "cmd_login C A (cfg\<lparr>cfg_read_only := r\<rparr>) = cmd_login C A cfg"
  "cmd_resolve_channel C (cfg\<lparr>cfg_read_only := r\<rparr>) = cmd_resolve_channel C cfg"
  "cmd_recover_from_remote L C (cfg\<lparr>cfg_read_only := r\<rparr>) = cmd_recover_from_remote L C cfg"
  "cmd_status L (cfg\<lparr>cfg_read_only := r\<rparr>) = (cmd_status L cfg :: ('c machine, _) st)"
  "cmd_flush L (cfg\<lparr>cfg_read_only := r\<rparr>) = (cmd_flush L cfg :: ('c machine, _) st)"
  "cmd_fsck L (cfg\<lparr>cfg_read_only := r\<rparr>) = (cmd_fsck L cfg :: ('c machine, _) st)"
  "cmd_gc L C yes (cfg\<lparr>cfg_read_only := r\<rparr>) = cmd_gc L C yes cfg"
  "cmd_recover L C (cfg\<lparr>cfg_read_only := r\<rparr>) = cmd_recover L C cfg"
  by (simp_all add: cmd_login_def cmd_resolve_channel_def cmd_recover_from_remote_def cmd_status_def cmd_flush_def
      cmd_fsck_def cmd_gc_def cmd_recover_def cong: if_cong)

lemma serve_read_only [simp]:
  "serve_telegram L C (cfg\<lparr>cfg_read_only := r\<rparr>) = serve_telegram L C cfg"
  "serve_local L (cfg\<lparr>cfg_read_only := r\<rparr>) = serve_local L cfg"
  by (simp_all add: serve_telegram_def serve_local_def cong: option.case_cong)

lemma cmd_serve_read_only [simp]:
  "cmd_serve_nbd L C bind name backend (cfg\<lparr>cfg_read_only := r\<rparr>) = cmd_serve_nbd L C bind name backend cfg"
  by (simp add: cmd_serve_nbd_def make_export_def split: BackendChoice.split)

lemma bench_read_only [simp]: "run_bench L uuid dir (cfg\<lparr>cfg_read_only := r\<rparr>) = run_bench L uuid dir cfg"
  by (simp add: run_bench_def bench_device_def fun_eq_iff cong: sum.case_cong)

lemma validate_read_only: "cfg_cache_dir cfg \<noteq> [] \<Longrightarrow> validate (cfg\<lparr>cfg_read_only := r\<rparr>) = validate cfg"
  by (simp add: validate_def)

lemma format_config_read_only:
  "format_config L sz osz (cfg\<lparr>cfg_read_only := r\<rparr>) = rbind (format_config L sz osz cfg) (\<lambda>c. Inr (c\<lparr>cfg_read_only := r\<rparr>))"
  by (cases cfg) (auto simp: format_config_def rbind_def split: option.split sum.split)

lemma format_config_dir: "format_config L sz osz cfg = Inr c \<Longrightarrow> cfg_cache_dir c = cfg_cache_dir cfg"
  by (auto simp: format_config_def rbind_Inr_iff split: option.splits)

lemma format_read_only:
  assumes "cfg_cache_dir cfg \<noteq> []"
  shows "cmd_format L C uuid sz osz force local_only (cfg\<lparr>cfg_read_only := r\<rparr>) = cmd_format L C uuid sz osz force local_only cfg"
proof (cases "format_config L sz osz cfg")
  case (Inl e)
  then show ?thesis by (simp add: cmd_format_def format_config_read_only rbind_def fun_eq_iff bnd_apply)
next
  case (Inr c)
  then have "cfg_cache_dir c \<noteq> []" using assms format_config_dir by metis
  then show ?thesis using Inr by (simp add: cmd_format_def format_config_read_only rbind_def validate_read_only fun_eq_iff bnd_apply Let_def cong: if_cong)
qed

lemma run_command_read_only:
  "cfg_cache_dir cfg \<noteq> [] \<Longrightarrow> run_command L C A uuid dir cmd (cfg\<lparr>cfg_read_only := r\<rparr>) = run_command L C A uuid dir cmd cfg"
  by (cases cmd) (simp_all add: run_command_def format_read_only)

lemma config_load_read_only:
  assumes "config_load E path (Some r) = Inr cfg" "cfg_cache_dir cfg \<noteq> []"
  shows "config_load E path (Some r') = Inr (cfg\<lparr>cfg_read_only := r'\<rparr>)"
proof -
  note v = validate_read_only [OF assms(2), of r']
  from assms(1) obtain f0 f dir where
    f: "(case path of Some p \<Rightarrow> en_read_toml E p | None \<Rightarrow> Inr config_file_default) = Inr f0" "merge_env E f0 = Inr f"
      "ok_or (or_else (cf_cache_dir f) (default_cache_dir E)) (Config (Missing ''cache_dir'')) = Inr dir"
    unfolding config_load_def rbind_Inr_iff by blast
  show ?thesis
    using assms(1) v unfolding config_load_def f rbind_simps Let_def by (auto simp: rbind_Inr_iff unwrap_or_def simp del: not_None_eq)
qed

text \<open>
  C34. The flag \<open>--read-only\<close> has no effect: with a cache directory, every command (in particular
  \<open>serve-nbd\<close> and the export it serves) does exactly the same with the flag and without it.
\<close>

theorem read_only_ignored:
  assumes "config_load E (cli_config cli) (Some r) = Inr cfg" "cfg_cache_dir cfg \<noteq> []"
  shows "tgdrive_main L C A E uuid bench_dir (cli\<lparr>cli_read_only := True\<rparr>) w =
    tgdrive_main L C A E uuid bench_dir (cli\<lparr>cli_read_only := False\<rparr>) w"
  by (simp add: tgdrive_main_def bnd_apply config_load_read_only [OF assms] run_command_read_only [OF assms(2)])

text \<open>A client that asks for the second password, and a machine with nothing on it.\<close>

definition toy_auth :: "(post list, nat, nat) auth_client" where
  "toy_auth = \<lparr>au_is_authorized = (\<lambda>c. (Inr False, c)), au_request_login_code = (\<lambda>_ _ c. (Inr 0, c)),
     au_sign_in = (\<lambda>_ _ c. (Inl (PasswordRequired 1), c)), au_check_password = (\<lambda>_ password c.
       (if password = ''secret'' then Inr () else Inl (InvalidPassword 1), c)), au_display = (\<lambda>_. [])\<rparr>"

definition toy_machine :: "post list machine" where
  "toy_machine = \<lparr>mc_store = None, mc_objects = Map.empty, mc_files = Map.empty, mc_stdin = [], mc_net = []\<rparr>"

definition toy_cli :: Cli where
  "toy_cli = \<lparr>cli_config = None, cli_read_only = False, cli_command = CmdServeNbd ''127.0.0.1:10809'' ''tgdrive'' LocalBackend\<rparr>"

theorem read_only_ignored_witness:
  "config_load toy_environment (cli_config toy_cli) (Some False) = Inr toy_config \<and>
   tgdrive_main (toy_libs True) toy_client toy_auth toy_environment 7 ''bench'' (toy_cli\<lparr>cli_read_only := True\<rparr>) toy_machine =
   tgdrive_main (toy_libs True) toy_client toy_auth toy_environment 7 ''bench'' (toy_cli\<lparr>cli_read_only := False\<rparr>) toy_machine"
  using toy_config_load read_only_ignored [of toy_environment toy_cli False toy_config "toy_libs True" toy_client toy_auth 7 "''bench''" toy_machine]
  by (simp add: toy_config_def toy_cli_def)

section \<open>The lock\<close>

lemma files_kept:
  "mc_files (snd (on_net m w)) = mc_files w" "mc_files (snd (on_local cfg n w)) = mc_files w"
  "mc_files (snd (lift x w)) = mc_files w" "mc_files (snd (gets g w)) = mc_files w" "mc_files (snd (ret y w)) = mc_files w"
  by (simp_all add: on_net_def on_local_def split: prod.split)

lemma bnd_files:
  assumes "\<And>w. mc_files (snd (m w)) = mc_files w" "\<And>x w. mc_files (snd (f x w)) = mc_files w"
  shows "mc_files (snd (bnd m f w)) = mc_files w"
  using assms(1) [of w] assms(2) by (cases "m w") (auto simp: bnd_apply split: sum.split)

lemma local_manifest_files: "mc_files (snd (local_manifest L cfg w)) = mc_files w"
  unfolding local_manifest_def by (intro bnd_files files_kept)

lemma connect_storage_files: "mc_files (snd (connect_storage C cfg w)) = mc_files w"
  unfolding connect_storage_def by (intro bnd_files files_kept)

lemma option_files:
  assumes "x = None \<Longrightarrow> mc_files (snd (f w)) = mc_files w" "\<And>y. x = Some y \<Longrightarrow> mc_files (snd (g y w)) = mc_files w"
  shows "mc_files (snd ((case x of None \<Rightarrow> f | Some y \<Rightarrow> g y) w)) = mc_files w"
  using assms by (cases x) simp_all

lemma serve_telegram_files: "mc_files (snd (serve_telegram L C cfg w)) = mc_files w"
  unfolding serve_telegram_def case_prod_beta by (intro bnd_files option_files files_kept connect_storage_files)

lemma make_export_files: "mc_files (snd (make_export L C bind name backend cfg w)) = mc_files w"
  by (cases backend) (auto simp: make_export_def serve_local_def
      intro!: bnd_files files_kept serve_telegram_files local_manifest_files)

lemma serve_killed_files [simp]: "mc_files (serve_killed export w) = mc_files w"
  by (simp add: serve_killed_def split: export.split)

lemma serve_locked:
  "mc_files w (lock_path (cfg_cache_dir cfg)) \<noteq> None \<Longrightarrow> \<exists>e. cmd_serve_nbd L C bind name backend cfg w = (Inl e, w)"
  by (auto simp: cmd_serve_nbd_def mount_lock_acquire_def bnd_apply)

text \<open>
  C35. The mount lock admits one server and outlives a killed one. While its file exists, \<open>serve-nbd\<close>
  fails and changes nothing. Otherwise a failed start leaves no lock, a successful one creates it, and
  when serving ends with an error, whatever the device has done meanwhile, the lock is gone and no
  other file has changed. When the process is killed instead, the lock stays, and from then on every
  \<open>serve-nbd\<close> on that cache directory fails and changes nothing, until the file is removed by hand.
\<close>

theorem mount_lock_exclusive:
  fixes cfg defines "lock \<equiv> lock_path (cfg_cache_dir cfg)"
  assumes "cmd_serve_nbd L C bind name backend cfg w = (x, w')"
  shows "case mc_files w lock of
      Some f \<Rightarrow> isl x \<and> w' = w
    | None \<Rightarrow> (case x of
        Inl e \<Rightarrow> mc_files w' = mc_files w
      | Inr export \<Rightarrow> mc_files w' = (mc_files w)(lock \<mapsto> []) \<and>
          (\<forall>e export'. mc_files (snd (serve_ends cfg e export' w')) = mc_files w) \<and>
          (\<forall>export'. mc_files (serve_killed export' w') = (mc_files w)(lock \<mapsto> []) \<and>
             (\<forall>L' C' bind' name' backend' cfg'. cfg_cache_dir cfg' = cfg_cache_dir cfg \<longrightarrow>
                (\<exists>e. cmd_serve_nbd L' C' bind' name' backend' cfg' (serve_killed export' w') = (Inl e, serve_killed export' w')))))"
proof (cases "mc_files w lock")
  case (Some f)
  then show ?thesis using assms(2) serve_locked [of w cfg L C bind name backend] by (auto simp: lock_def)
next
  case None
  have f: "mc_files v' = mc_files v" if "make_export L C bind name backend cfg v = (y, v')" for v v' y
    using make_export_files [of L C bind name backend cfg v] that by simp
  show ?thesis
  proof (cases x)
    case (Inl e)
    then show ?thesis using assms(2) None unfolding lock_def
      by (auto simp: cmd_serve_nbd_def mount_lock_acquire_def mount_lock_drop_def bnd_apply fun_eq_iff
          split: prod.splits sum.splits dest!: f)
  next
    case (Inr export)
    then have files: "mc_files w' = (mc_files w)(lock \<mapsto> [])" using assms(2) None unfolding lock_def
      by (auto simp: cmd_serve_nbd_def mount_lock_acquire_def bnd_apply split: prod.splits sum.splits dest!: f)
    have "mc_files (snd (serve_ends cfg e export' w')) = mc_files w" for e export'
      using None files by (auto simp: serve_ends_def mount_lock_drop_def lock_def fun_eq_iff)
    moreover have "\<exists>e. cmd_serve_nbd L' C' bind' name' backend' cfg' (serve_killed export' w') = (Inl e, serve_killed export' w')"
      if "cfg_cache_dir cfg' = cfg_cache_dir cfg" for L' C' bind' name' backend' cfg' export'
      by (rule serve_locked) (simp add: files lock_def that)
    ultimately show ?thesis using None files Inr by simp
  qed
qed

theorem mount_lock_exclusive_witness:
  "\<exists>export w'. cmd_serve_nbd (toy_libs True) toy_client ''a'' ''b'' LocalBackend toy_config (toy_machine\<lparr>mc_store := Some toy_store\<rparr>) =
     (Inr export, w') \<and> mc_files w' = [lock_path (cfg_cache_dir toy_config) \<mapsto> []] \<and>
     mc_files (snd (serve_ends toy_config (Anyhow ''accept'') export w')) = Map.empty \<and>
     (\<exists>e. cmd_serve_nbd (toy_libs True) toy_client ''a'' ''b'' LocalBackend toy_config (serve_killed export w') = (Inl e, serve_killed export w'))"
proof -
  let ?w = "toy_machine\<lparr>mc_store := Some toy_store\<rparr>" and ?L = "toy_libs True"
  have load: "load_manifest ?L toy_store = Inr (Some (manifest_empty 7 131072 512))"
    using formatted_store [OF toy_format] by auto
  have v: "validate toy_config = Inr ()" by code_simp
  obtain export w' where r: "cmd_serve_nbd ?L toy_client ''a'' ''b'' LocalBackend toy_config ?w = (Inr export, w')"
    using load valid_block_map [OF v]
    by (auto simp: cmd_serve_nbd_def make_export_def serve_local_def local_manifest_def on_local_def opened_def bnd_apply
        mount_lock_acquire_def toy_machine_def)
  from mount_lock_exclusive [OF r] r show ?thesis by (auto simp: toy_machine_def)
qed

section \<open>The login dialogue\<close>

text \<open>A login ends well only for an authorised session, an accepted code or an accepted password.\<close>

lemma login_needs_credentials:
  assumes "cmd_login C A cfg w = (Inr (), w')"
  shows "(\<exists>c c'. au_is_authorized A c = (Inr True, c')) \<or> (\<exists>token code c c'. au_sign_in A token code c = (Inr (), c')) \<or>
    (\<exists>token password c c'. au_check_password A token password c = (Inr (), c'))"
  using assms
  by (auto simp: cmd_login_def connect_for_login_def connect_client_def login_is_authorized_def call_def on_net_def prompt_def sign_in_or_ask_def check_password_def
      bnd_apply Let_def split: if_splits prod.splits sum.splits list.splits SignInError.splits)

lemma login_with_password:
  "fst (cmd_login toy_client toy_auth (toy_config\<lparr>cfg_telegram_api_id := Some 1, cfg_telegram_api_hash := Some [], cfg_telegram_channel_id := Some 1\<rparr>)
     (toy_machine\<lparr>mc_stdin := [''+1'', ''12345'', ''secret '']\<rparr>)) = Inr ()"
proof -
  have t: "trim ''secret '' = ''secret''" "trim ''+1'' = ''+1''" "trim ''12345'' = ''12345''" by code_simp+
  show ?thesis
    by (simp add: t cmd_login_def connect_for_login_def connect_client_def login_is_authorized_def request_login_code_def
        call_def on_net_def prompt_def sign_in_or_ask_def check_password_def bnd_apply toy_client_def toy_auth_def toy_machine_def toy_config_def telegram_config_def)
qed

end
