(* ===== verification/Threads.thy ===== *)
theory Threads
  imports Prelude
begin

text \<open>
  Concurrent calls. A method of the device runs in pieces between its lock operations and its calls
  of the backend; \<open>prog\<close> is such a program, a tree of atomic actions on the shared state and of lock
  operations. The guards of the code are released when their scope is left, also by an error:
  \<open>locked\<close> is such a scope. A pool of programs runs under any schedule (\<open>pool_step\<close>).
\<close>

section \<open>Programs\<close>

datatype lock = ManifestLock | StoreLock

datatype ('d, 'a) prog =
    Finish "'a res"
  | Act "'d \<Rightarrow> 'd" "'d \<Rightarrow> ('d, 'a) prog"
  | Acquire lock "('d, 'a) prog"
  | Release lock "('d, 'a) prog"

text \<open>An operation that runs without interruption.\<close>

definition act :: "('d, 'a) st \<Rightarrow> ('d, 'a) prog" where
  "act m = Act (\<lambda>d. snd (m d)) (\<lambda>d. Finish (fst (m d)))"

primrec pbnd :: "('d, 'a) prog \<Rightarrow> ('a \<Rightarrow> ('d, 'b) prog) \<Rightarrow> ('d, 'b) prog" where
  "pbnd (Finish x) f = (case x of Inl e \<Rightarrow> Finish (Inl e) | Inr y \<Rightarrow> f y)"
| "pbnd (Act u k) f = Act u (\<lambda>d. pbnd (k d) f)"
| "pbnd (Acquire l p) f = Acquire l (pbnd p f)"
| "pbnd (Release l p) f = Release l (pbnd p f)"

text \<open>Catching the outcome: the program goes on with the value or the error.\<close>

primrec pcatch :: "('d, 'a) prog \<Rightarrow> ('a res \<Rightarrow> ('d, 'b) prog) \<Rightarrow> ('d, 'b) prog" where
  "pcatch (Finish x) f = f x"
| "pcatch (Act u k) f = Act u (\<lambda>d. pcatch (k d) f)"
| "pcatch (Acquire l p) f = Acquire l (pcatch p f)"
| "pcatch (Release l p) f = Release l (pcatch p f)"

definition locked :: "lock \<Rightarrow> ('d, 'a) prog \<Rightarrow> ('d, 'a) prog" where
  "locked l p = Acquire l (pcatch p (\<lambda>x. Release l (Finish x)))"

text \<open>A program running alone.\<close>

primrec run :: "('d, 'a) prog \<Rightarrow> ('d, 'a) st" where
  "run (Finish x) = (\<lambda>d. (x, d))"
| "run (Act u k) = (\<lambda>d. run (k d) (u d))"
| "run (Acquire l p) = run p"
| "run (Release l p) = run p"

lemma run_act [simp]: "run (act m) d = m d"
  by (simp add: act_def)

lemma run_pcatch [simp]: "run (pcatch p f) d = (case run p d of (x, d') \<Rightarrow> run (f x) d')"
  by (induction p arbitrary: d) auto

lemma run_pbnd [simp]: "run (pbnd p f) d = bnd (run p) (\<lambda>x. run (f x)) d"
  by (induction p arbitrary: d) (auto simp: bnd_apply split: sum.split)

lemma run_locked [simp]: "run (locked l p) d = run p d"
  by (simp add: locked_def split: prod.split)

text \<open>The values that a program can end with.\<close>

lemma set_pbnd: "set_prog (pbnd p f) = (\<Union>x\<in>set_prog p. set_prog (f x))"
  by (induction p) (auto split: sum.split simp: setr.simps)

lemma set_pcatch: "set_prog (pcatch p f) \<subseteq> (\<Union>x. set_prog (f x))"
  by (induction p) auto

lemma pbnd_cong: "p = p' \<Longrightarrow> (\<And>x. x \<in> set_prog p' \<Longrightarrow> f x = g x) \<Longrightarrow> pbnd p f = pbnd p' g"
proof (induction p arbitrary: p')
  case (Act u k)
  then show ?case by (fastforce simp: fun_eq_iff)
qed (auto split: sum.splits)

lemma pcatch_pcatch: "pcatch (pcatch p f) g = pcatch p (\<lambda>x. pcatch (f x) g)"
  by (induction p) auto

section \<open>Pools\<close>

record ('d, 'a) pool =
  po_shared :: 'd
  po_held :: "lock set"
  po_threads :: "('d, 'a) prog list"

definition thread_step :: "nat \<Rightarrow> ('d, 'a) pool \<Rightarrow> ('d, 'a) pool option" where
  "thread_step i c =
     (if i < length (po_threads c) then
        case po_threads c ! i of
          Finish x \<Rightarrow> None
        | Act u k \<Rightarrow> Some (c\<lparr>po_shared := u (po_shared c), po_threads := (po_threads c)[i := k (po_shared c)]\<rparr>)
        | Acquire l p \<Rightarrow>
            if l \<in> po_held c then None
            else Some (c\<lparr>po_held := insert l (po_held c), po_threads := (po_threads c)[i := p]\<rparr>)
        | Release l p \<Rightarrow> Some (c\<lparr>po_held := po_held c - {l}, po_threads := (po_threads c)[i := p]\<rparr>)
      else None)"

text \<open>A schedule is the list of the threads that run, in order.\<close>

fun schedule :: "nat list \<Rightarrow> ('d, 'a) pool \<Rightarrow> ('d, 'a) pool option" where
  "schedule [] c = Some c"
| "schedule (i # is) c = (case thread_step i c of None \<Rightarrow> None | Some c' \<Rightarrow> schedule is c')"

inductive pool_step :: "('d, 'a) pool \<Rightarrow> ('d, 'a) pool \<Rightarrow> bool" where
  thread: "thread_step i c = Some c' \<Longrightarrow> pool_step c c'"

inductive pool_run :: "('d, 'a) pool \<Rightarrow> ('d, 'a) pool \<Rightarrow> bool" where
  start: "pool_run c c"
| more: "pool_run c c' \<Longrightarrow> pool_step c' c'' \<Longrightarrow> pool_run c c''"

definition pool_start :: "'d \<Rightarrow> ('d, 'a) prog list \<Rightarrow> ('d, 'a) pool" where
  "pool_start d ps = \<lparr>po_shared = d, po_held = {}, po_threads = ps\<rparr>"

definition ended :: "('d, 'a) prog \<Rightarrow> bool" where
  "ended p = (case p of Finish _ \<Rightarrow> True | _ \<Rightarrow> False)"

lemma ended_simps [simp]:
  "ended (Finish x)" "\<not> ended (Act u k)" "\<not> ended (Acquire l p)" "\<not> ended (Release l p)"
  by (simp_all add: ended_def)

lemma pool_run_trans: "pool_run b c \<Longrightarrow> pool_run a b \<Longrightarrow> pool_run a c"
  by (induction rule: pool_run.induct) (auto intro: pool_run.more)

lemma schedule_run: "schedule is c = Some c' \<Longrightarrow> pool_run c c'"
proof (induction "is" arbitrary: c)
  case (Cons i "is")
  then obtain c1 where "thread_step i c = Some c1" "pool_run c1 c'" by (auto split: option.splits)
  then show ?case using pool_run_trans pool_run.more [OF pool_run.start pool_step.thread] by blast
qed (simp add: pool_run.start)

section \<open>Every run ends\<close>

inductive_set sub_prog :: "(('d, 'a) prog \<times> ('d, 'a) prog) set" where
  sub_act: "(k d, Act u k) \<in> sub_prog"
| sub_acquire: "(p, Acquire l p) \<in> sub_prog"
| sub_release: "(p, Release l p) \<in> sub_prog"

inductive_cases sub_progE:
  "(q, Finish x) \<in> sub_prog" "(q, Act u k) \<in> sub_prog" "(q, Acquire l p) \<in> sub_prog" "(q, Release l p) \<in> sub_prog"

lemma wf_sub_prog: "wf (sub_prog :: (('d, 'a) prog \<times> ('d, 'a) prog) set)"
proof (rule wfUNIVI)
  fix P :: "('d, 'a) prog \<Rightarrow> bool" and p
  assume "\<forall>p. (\<forall>q. (q, p) \<in> sub_prog \<longrightarrow> P q) \<longrightarrow> P p"
  then have step: "(\<And>q. (q, p) \<in> sub_prog \<Longrightarrow> P q) \<Longrightarrow> P p" for p by blast
  show "P p" by (induction p) (rule step, (auto elim: sub_progE)[1])+
qed

lemma listrel1_update: "i < length xs \<Longrightarrow> (y, xs ! i) \<in> r \<Longrightarrow> (xs[i := y], xs) \<in> listrel1 r"
  by (rule listrel1I [of y "xs ! i" r _ "take i xs" "drop (Suc i) xs"]) (simp_all add: id_take_nth_drop [symmetric] upd_conv_take_nth_drop)

lemma thread_step_sub:
  "thread_step i c = Some c' \<Longrightarrow> i < length (po_threads c) \<and>
     (\<exists>q. po_threads c' = (po_threads c)[i := q] \<and> (q, po_threads c ! i) \<in> sub_prog)"
  by (auto simp: thread_step_def split: if_splits prog.splits intro: sub_prog.intros)

lemma step_descends: "pool_step c c' \<Longrightarrow> (po_threads c', po_threads c) \<in> listrel1 sub_prog"
  by (auto elim!: pool_step.cases dest!: thread_step_sub intro: listrel1_update)

lemma wf_pool_step: "wf {(c', c). pool_step c c'}"
proof (rule wf_subset)
  show "wf (inv_image (listrel1 sub_prog) po_threads)"
    by (intro wf_inv_image) (simp add: wf_listrel1_iff wf_sub_prog)
qed (auto simp: inv_image_def step_descends)


section \<open>No deadlock\<close>

text \<open>
  The discipline of the code: the manifest lock is only taken while no lock is held, the store lock
  is taken last, and every guard is released. \<open>orderly E p H\<close>: a program that holds \<open>H\<close> keeps the
  discipline and ends holding \<open>E\<close>.
\<close>

primrec orderly :: "lock set \<Rightarrow> ('d, 'a) prog \<Rightarrow> lock set \<Rightarrow> bool" where
  "orderly E (Finish x) = (\<lambda>H. H = E)"
| "orderly E (Act u k) = (\<lambda>H. \<forall>d. orderly E (k d) H)"
| "orderly E (Acquire l p) = (\<lambda>H. l \<notin> H \<and> (l = ManifestLock \<longrightarrow> H = {}) \<and> orderly E p (insert l H))"
| "orderly E (Release l p) = (\<lambda>H. l \<in> H \<and> orderly E p (H - {l}))"

named_theorems orderly_rules

lemma orderly_finish [orderly_rules]: "orderly H (Finish x) H"
  by simp

lemma orderly_act [orderly_rules]: "orderly H (act m) H"
  by (simp add: act_def)

lemma orderly_pcatch:
  "orderly F p H \<Longrightarrow> (\<And>x. orderly E (f x) F) \<Longrightarrow> orderly E (pcatch p f) H"
  by (induction p arbitrary: H) auto

lemma orderly_pcatch_same [orderly_rules]:
  "orderly H p H \<Longrightarrow> (\<And>x. orderly H (f x) H) \<Longrightarrow> orderly H (pcatch p f) H"
  by (rule orderly_pcatch)

lemma orderly_pbnd_gen:
  "orderly E p H \<Longrightarrow> (\<And>x. orderly E (f x) E) \<Longrightarrow> orderly E (pbnd p f) H"
  by (induction p arbitrary: H) (auto split: sum.split)

lemma orderly_pbnd [orderly_rules]:
  "orderly H p H \<Longrightarrow> (\<And>x. orderly H (f x) H) \<Longrightarrow> orderly H (pbnd p f) H"
  by (rule orderly_pbnd_gen)

lemma orderly_locked [orderly_rules]:
  assumes "l \<notin> H" "l = ManifestLock \<Longrightarrow> H = {}" "orderly (insert l H) p (insert l H)"
  shows "orderly H (locked l p) H"
  using assms by (auto simp: locked_def intro!: orderly_pcatch)

lemma orderly_pbnd_set: "orderly E p H \<Longrightarrow> (\<And>x. x \<in> set_prog p \<Longrightarrow> orderly E (f x) E) \<Longrightarrow> orderly E (pbnd p f) H"
proof (induction p arbitrary: H)
  case (Finish x)
  then show ?case by (cases x) (auto simp: setr.simps)
next
  case (Act u k)
  then show ?case by fastforce
qed auto

definition owned :: "('d, 'a) pool \<Rightarrow> (nat \<Rightarrow> lock set) \<Rightarrow> bool" where
  "owned c own \<longleftrightarrow> (\<forall>i < length (po_threads c). orderly {} (po_threads c ! i) (own i)) \<and>
     (\<forall>i j l. i < length (po_threads c) \<longrightarrow> j < length (po_threads c) \<longrightarrow> l \<in> own i \<longrightarrow> l \<in> own j \<longrightarrow> i = j) \<and>
     po_held c = (\<Union>i < length (po_threads c). own i)"

lemma owned_start: "(\<And>p. p \<in> set ps \<Longrightarrow> orderly {} p {}) \<Longrightarrow> owned (pool_start d ps) (\<lambda>_. {})"
  by (simp add: owned_def pool_start_def)

lemma owned_step:
  assumes o: "owned c own" and st: "thread_step i c = Some c'"
  shows "\<exists>own'. owned c' own'"
proof -
  have i: "i < length (po_threads c)" and ord: "orderly {} (po_threads c ! i) (own i)"
    using o st by (auto simp: owned_def thread_step_def split: if_splits)
  show ?thesis
  proof (cases "po_threads c ! i")
    case (Finish x)
    then show ?thesis using st i by (simp add: thread_step_def)
  next
    case (Act u k)
    then have "owned c' own" using o st i ord by (auto simp: owned_def thread_step_def nth_list_update)
    then show ?thesis by blast
  next
    case (Acquire l p)
    then have "l \<notin> po_held c" and c': "c' = c\<lparr>po_held := insert l (po_held c), po_threads := (po_threads c)[i := p]\<rparr>"
      using st i by (auto simp: thread_step_def split: if_splits)
    moreover have "orderly {} p (insert l (own i))" using ord Acquire by simp
    ultimately have "owned c' (own(i := insert l (own i)))"
      using o i by (auto simp: owned_def nth_list_update)
    then show ?thesis by blast
  next
    case (Release l p)
    then have c': "c' = c\<lparr>po_held := po_held c - {l}, po_threads := (po_threads c)[i := p]\<rparr>" and l: "l \<in> own i"
      and p: "orderly {} p (own i - {l})"
      using st i ord by (auto simp: thread_step_def)
    have "l \<notin> own j" if "j < length (po_threads c)" "j \<noteq> i" for j
      using that o l i unfolding owned_def by blast
    then have "owned c' (own(i := own i - {l}))"
      using o i p by (auto simp: owned_def nth_list_update c' split: if_splits)
    then show ?thesis by blast
  qed
qed

lemma owned_run: "pool_run c c' \<Longrightarrow> owned c own \<Longrightarrow> \<exists>own'. owned c' own'"
  by (induction rule: pool_run.induct) (auto elim!: pool_step.cases intro: owned_step)

lemma owned_progress:
  assumes o: "owned c own" and i: "i < length (po_threads c)" "\<not> ended (po_threads c ! i)"
  shows "\<exists>c'. pool_step c c'"
proof -
  have ord: "orderly {} (po_threads c ! j) (own j)" if "j < length (po_threads c)" for j
    using o that by (simp add: owned_def)
  have held: "l \<in> po_held c \<longleftrightarrow> (\<exists>j < length (po_threads c). l \<in> own j)" for l
    using o by (auto simp: owned_def)
  have go: "\<exists>c'. pool_step c c'" if "thread_step j c \<noteq> None" for j
    using that pool_step.thread by blast
  show ?thesis
  proof (cases "StoreLock \<in> po_held c")
    case True
    then obtain j where j: "j < length (po_threads c)" "StoreLock \<in> own j" by (auto simp: held)
    then have "thread_step j c \<noteq> None"
      using ord [OF j(1)] lock.exhaust by (cases "po_threads c ! j") (auto simp: thread_step_def)
    then show ?thesis by (rule go)
  next
    case store: False
    show ?thesis
    proof (cases "ManifestLock \<in> po_held c")
      case True
      then obtain j where j: "j < length (po_threads c)" "ManifestLock \<in> own j" by (auto simp: held)
      then have "thread_step j c \<noteq> None"
        using ord [OF j(1)] store by (cases "po_threads c ! j") (auto simp: thread_step_def intro: lock.exhaust)
      then show ?thesis by (rule go)
    next
      case False
      then have "l \<notin> po_held c" for l using store by (cases l) simp_all
      then have "thread_step i c \<noteq> None" using i by (cases "po_threads c ! i") (auto simp: thread_step_def)
      then show ?thesis by (rule go)
    qed
  qed
qed

text \<open>Orderly programs never block each other for good, and no schedule runs for ever.\<close>

lemma orderly_pool:
  assumes "\<And>p. p \<in> set ps \<Longrightarrow> orderly {} p {}" and "pool_run (pool_start d ps) c"
  shows "(\<forall>p \<in> set (po_threads c). ended p) \<or> (\<exists>c'. pool_step c c')"
proof -
  obtain own where "owned c own" using owned_run [OF assms(2) owned_start [OF assms(1)]] by blast
  then show ?thesis using owned_progress by (metis in_set_conv_nth)
qed

lemma no_infinite_run: "\<not> (\<forall>n. pool_step (c n) (c (Suc n)))"
  using wf_pool_step unfolding wf_iff_no_infinite_down_chain by auto

lemma pool_completes:
  assumes "\<And>p. p \<in> set ps \<Longrightarrow> orderly {} p {}" and "pool_run (pool_start d ps) c"
  shows "\<exists>c'. pool_run c c' \<and> (\<forall>p \<in> set (po_threads c'). ended p)"
  using assms(2)
proof (induction c rule: wf_induct_rule [OF wf_pool_step])
  case (1 c)
  show ?case
  proof (cases "\<forall>p \<in> set (po_threads c). ended p")
    case True
    then show ?thesis using pool_run.start by blast
  next
    case False
    then obtain c1 where c1: "pool_step c c1" using orderly_pool [OF assms(1) 1(2)] by blast
    then have "pool_run (pool_start d ps) c1" using 1(2) by (blast intro: pool_run.more)
    with 1(1) c1 obtain c' where "pool_run c1 c'" "\<forall>p \<in> set (po_threads c'). ended p" by blast
    moreover have "pool_run c c1" using c1 by (blast intro: pool_run.start pool_run.more)
    ultimately show ?thesis using pool_run_trans by blast
  qed
qed

section \<open>Interference\<close>

text \<open>
  \<open>safe I G M Q p n d\<close>: wherever the others, whose steps are in \<open>G\<close>, take the shared state from \<open>d\<close>,
  every action of \<open>p\<close> keeps the invariant \<open>I\<close> and is itself a step of \<open>G\<close>, and its outcome satisfies
  \<open>Q\<close>. A resource (\<open>M d n\<close>: \<open>n\<close> units are left) is shared out: \<open>p\<close> owns \<open>n\<close> units of it and uses
  no more.
\<close>

primrec safe :: "('d \<Rightarrow> bool) \<Rightarrow> ('d \<Rightarrow> 'd \<Rightarrow> bool) \<Rightarrow> ('d \<Rightarrow> nat \<Rightarrow> bool) \<Rightarrow> ('a res \<Rightarrow> nat \<Rightarrow> 'd \<Rightarrow> bool) \<Rightarrow>
    ('d, 'a) prog \<Rightarrow> nat \<Rightarrow> 'd \<Rightarrow> bool" where
  "safe I G M Q (Finish x) = (\<lambda>n d0. \<forall>d. G d0 d \<longrightarrow> I d \<longrightarrow> Q x n d)"
| "safe I G M Q (Act u k) = (\<lambda>n d0. \<forall>d r. G d0 d \<longrightarrow> I d \<longrightarrow> M d (n + r) \<longrightarrow> I (u d) \<and> G d (u d) \<and>
     (\<exists>n'. (\<forall>r. M d (n + r) \<longrightarrow> M (u d) (n' + r)) \<and> safe I G M Q (k d) n' (u d)))"
| "safe I G M Q (Acquire l p) = safe I G M Q p"
| "safe I G M Q (Release l p) = safe I G M Q p"

lemma pbnd_pcatch: "pbnd p f = pcatch p (\<lambda>x. case x of Inl e \<Rightarrow> Finish (Inl e) | Inr y \<Rightarrow> f y)"
  by (induction p) auto

lemma sum_list_update_split:
  fixes ns :: "nat list"
  assumes "i < length ns"
  shows "sum_list (ns[i := m]) = m + (sum_list ns - ns ! i)"
  using assms elem_le_sum_list [OF assms] by (simp add: sum_list_update)

locale interference =
  fixes I :: "'d \<Rightarrow> bool" and G :: "'d \<Rightarrow> 'd \<Rightarrow> bool" and M :: "'d \<Rightarrow> nat \<Rightarrow> bool"
  assumes G_refl: "G d d" and G_trans: "G a b \<Longrightarrow> G b c \<Longrightarrow> G a c"
begin

lemma safe_later: "safe I G M Q p n d \<Longrightarrow> G d d' \<Longrightarrow> safe I G M Q p n d'"
proof (induction p arbitrary: n)
  case (Act u k)
  then show ?case by (simp add: G_trans [OF Act.prems(2)])
qed (auto intro: G_trans)

lemma safe_pcatch:
  assumes "safe I G M R p n d" "I d"
    and "\<And>x n' d'. G d d' \<Longrightarrow> I d' \<Longrightarrow> (\<And>d2. G d' d2 \<Longrightarrow> I d2 \<Longrightarrow> R x n' d2) \<Longrightarrow> safe I G M Q (f x) n' d'"
  shows "safe I G M Q (pcatch p f) n d"
  using assms
proof (induction p arbitrary: n d)
  case (Finish x)
  then show ?case using G_refl by auto
next
  case (Act u k)
  have "safe I G M Q (pcatch (k d1) f) n' (u d1)"
    if "G d d1" "G d1 (u d1)" "I (u d1)" "safe I G M R (k d1) n' (u d1)" for d1 n'
    using that Act.prems(3) G_trans by (intro Act.IH [of "k d1"]) blast+
  then show ?case using Act.prems(1) by simp blast
qed auto

lemma safe_pbnd:
  assumes "safe I G M R p n d" "I d"
    and "\<And>x n' d'. G d d' \<Longrightarrow> I d' \<Longrightarrow> R (Inr x) n' d' \<Longrightarrow> safe I G M Q (f x) n' d'"
    and "\<And>e n' d'. G d d' \<Longrightarrow> I d' \<Longrightarrow> R (Inl e) n' d' \<Longrightarrow> Q (Inl e) n' d'"
  shows "safe I G M Q (pbnd p f) n d"
  unfolding pbnd_pcatch
proof (rule safe_pcatch [OF assms(1,2)])
  fix x n' d' assume d': "G d d'" "I d'" and R: "\<And>d2. G d' d2 \<Longrightarrow> I d2 \<Longrightarrow> R x n' d2"
  show "safe I G M Q (case x of Inl e \<Rightarrow> Finish (Inl e) | Inr y \<Rightarrow> f y) n' d'"
    using d' R assms(3,4) G_refl G_trans by (cases x) auto
qed

lemma safe_finish: "I d \<Longrightarrow> (\<And>d'. G d d' \<Longrightarrow> I d' \<Longrightarrow> Q x n d') \<Longrightarrow> safe I G M Q (Finish x) n d"
  by simp

lemma safe_locked: "safe I G M Q p n d \<Longrightarrow> I d \<Longrightarrow> safe I G M Q (locked l p) n d"
  unfolding locked_def safe.simps by (rule safe_pcatch [where R = Q]) (assumption, assumption, simp only: safe.simps, blast)

lemma safe_act:
  assumes "\<And>d x d' r. G d0 d \<Longrightarrow> I d \<Longrightarrow> M d (n + r) \<Longrightarrow> m d = (x, d') \<Longrightarrow>
    I d' \<and> G d d' \<and> (\<exists>n'. (\<forall>r. M d (n + r) \<longrightarrow> M d' (n' + r)) \<and> (\<forall>d2. G d' d2 \<longrightarrow> I d2 \<longrightarrow> Q x n' d2))"
  shows "safe I G M Q (act m) n d0"
  unfolding act_def using assms by simp (metis prod.collapse)

text \<open>The common case: an action that uses nothing of the resource.\<close>

lemma safe_act_same:
  assumes "\<And>d x d'. G d0 d \<Longrightarrow> I d \<Longrightarrow> m d = (x, d') \<Longrightarrow>
    I d' \<and> G d d' \<and> (\<forall>r. M d r \<longrightarrow> M d' r) \<and> (\<forall>d2. G d' d2 \<longrightarrow> I d2 \<longrightarrow> Q x n d2)"
  shows "safe I G M Q (act m) n d0"
  using assms by (intro safe_act) blast

lemma safe_gets:
  assumes "\<And>d d2. G d0 d \<Longrightarrow> I d \<Longrightarrow> G d d2 \<Longrightarrow> I d2 \<Longrightarrow> Q (Inr (g d)) n d2"
  shows "safe I G M Q (act (gets g)) n d0"
  using assms by (intro safe_act_same) (auto simp: G_refl)

text \<open>A program leaves alone what it does not own.\<close>

lemma safe_frame: "safe I G M Q p n d \<Longrightarrow> safe I G M (\<lambda>x n' d'. \<exists>k. n' = k + r \<and> Q x k d') p (n + r) d"
proof (induction p arbitrary: n d)
  case (Act u k)
  have "\<exists>n'. (\<forall>q. M d' (n + r + q) \<longrightarrow> M (u d') (n' + q)) \<and> safe I G M (\<lambda>x n' d'. \<exists>k. n' = k + r \<and> Q x k d') (k d') n' (u d')"
    if "\<forall>q. M d' (n + q) \<longrightarrow> M (u d') (n' + q)" "safe I G M Q (k d') n' (u d')" for d' n'
    using that(1) Act.IH [OF rangeI that(2)] by (intro exI [of _ "n' + r"]) (simp add: add.assoc)
  then show ?case using Act.prems by (simp add: add.assoc) blast
qed auto

lemma safe_mono: "safe I G M Q p n d \<Longrightarrow> (\<And>x n' d'. Q x n' d' \<Longrightarrow> R x n' d') \<Longrightarrow> safe I G M R p n d"
proof (induction p arbitrary: n d)
  case (Act u k)
  then show ?case by simp (meson rangeI)
qed auto

definition all_safe :: "(nat \<Rightarrow> 'a res \<Rightarrow> nat \<Rightarrow> 'd \<Rightarrow> bool) \<Rightarrow> ('d, 'a) pool \<Rightarrow> bool" where
  "all_safe Q c \<longleftrightarrow> I (po_shared c) \<and> (\<exists>ns. length ns = length (po_threads c) \<and> M (po_shared c) (sum_list ns) \<and>
     (\<forall>i < length ns. safe I G M (Q i) (po_threads c ! i) (ns ! i) (po_shared c)))"

lemma all_safe_step:
  assumes "all_safe Q c" and "thread_step i c = Some c'"
  shows "all_safe Q c'"
proof -
  obtain ns where ns: "length ns = length (po_threads c)" "M (po_shared c) (sum_list ns)"
    and sf: "\<And>j. j < length ns \<Longrightarrow> safe I G M (Q j) (po_threads c ! j) (ns ! j) (po_shared c)" and inv: "I (po_shared c)"
    using assms(1) unfolding all_safe_def by blast
  have i: "i < length ns" using assms(2) ns(1) by (auto simp: thread_step_def split: if_splits)
  let ?keep = "\<lambda>p. (po_threads c)[i := p]"
  have same: "all_safe Q (c\<lparr>po_held := H, po_threads := ?keep p\<rparr>)"
    if "safe I G M (Q i) p (ns ! i) (po_shared c)" for H p
  proof -
    have "safe I G M (Q j) (?keep p ! j) (ns ! j) (po_shared c)" if "j < length ns" for j
      using sf [OF that] that \<open>safe I G M (Q i) p (ns ! i) (po_shared c)\<close> ns(1) by (cases "j = i") simp_all
    then show ?thesis unfolding all_safe_def using ns inv by auto
  qed
  show ?thesis
  proof (cases "po_threads c ! i")
    case (Act u k)
    let ?d = "po_shared c"
    let ?rest = "sum_list ns - ns ! i"
    have sum: "\<And>m. sum_list (ns[i := m]) = m + ?rest" "sum_list ns = ns ! i + ?rest"
      using sum_list_update_split [OF i] elem_le_sum_list [OF i] by simp_all
    have "M ?d (ns ! i + ?rest)" using ns(2) sum(2) by simp
    then obtain n' where n': "I (u ?d)" "G ?d (u ?d)" "M (u ?d) (n' + ?rest)" "safe I G M (Q i) (k ?d) n' (u ?d)"
      using sf [OF i, unfolded Act safe.simps, rule_format, OF G_refl inv] by blast
    have "safe I G M (Q j) (?keep (k ?d) ! j) (ns[i := n'] ! j) (u ?d)" if "j < length ns" for j
      using that n'(4) safe_later [OF sf n'(2)] ns(1) by (cases "j = i") simp_all
    then have "all_safe Q (c\<lparr>po_shared := u ?d, po_threads := ?keep (k ?d)\<rparr>)"
      unfolding all_safe_def using n' ns(1) by (auto simp: sum(1) intro!: exI [of _ "ns[i := n']"])
    then show ?thesis using assms(2) Act i ns(1) by (auto simp: thread_step_def)
  qed (use assms(2) i ns(1) sf [OF i] same in \<open>auto simp: thread_step_def split: if_splits\<close>)
qed

lemma all_safe_run: "pool_run c c' \<Longrightarrow> all_safe Q c \<Longrightarrow> all_safe Q c'"
  by (induction rule: pool_run.induct) (auto elim!: pool_step.cases intro: all_safe_step)

lemma pool_safe:
  assumes "pool_run (pool_start d ps) c" "I d" "length ns = length ps" "M d (sum_list ns)"
    and "\<And>i. i < length ps \<Longrightarrow> safe I G M (Q i) (ps ! i) (ns ! i) d"
  shows "I (po_shared c)" and "i < length (po_threads c) \<Longrightarrow> po_threads c ! i = Finish x \<Longrightarrow> \<exists>n. Q i x n (po_shared c)"
proof -
  have "all_safe Q (pool_start d ps)" unfolding all_safe_def using assms by (auto simp: pool_start_def)
  then have c: "all_safe Q c" using assms(1) all_safe_run by blast
  then show "I (po_shared c)" by (simp add: all_safe_def)
  assume "i < length (po_threads c)" "po_threads c ! i = Finish x"
  then show "\<exists>n. Q i x n (po_shared c)" using c G_refl unfolding all_safe_def by (metis safe.simps(1))
qed

end

lemma pool_run_length: "pool_run c c' \<Longrightarrow> length (po_threads c') = length (po_threads c)"
  by (induction rule: pool_run.induct) (auto elim!: pool_step.cases dest: thread_step_sub)

section \<open>What a program never changes\<close>

primrec steady :: "('d \<Rightarrow> 'c) \<Rightarrow> ('d, 'a) prog \<Rightarrow> bool" where
  "steady g (Finish x) = True"
| "steady g (Act u k) = (\<forall>d. g (u d) = g d \<and> steady g (k d))"
| "steady g (Acquire l p) = steady g p"
| "steady g (Release l p) = steady g p"

named_theorems steady_rules

lemma steady_finish [steady_rules]: "steady g (Finish x)"
  by simp

lemma steady_act: "(\<And>d. g (snd (m d)) = g d) \<Longrightarrow> steady g (act m)"
  by (simp add: act_def)

lemma steady_pcatch [steady_rules]: "steady g p \<Longrightarrow> (\<And>x. steady g (f x)) \<Longrightarrow> steady g (pcatch p f)"
  by (induction p) auto

lemma steady_pbnd [steady_rules]: "steady g p \<Longrightarrow> (\<And>x. steady g (f x)) \<Longrightarrow> steady g (pbnd p f)"
  by (simp add: pbnd_pcatch steady_pcatch split: sum.split)

lemma steady_locked [steady_rules]: "steady g p \<Longrightarrow> steady g (locked l p)"
  by (simp add: locked_def steady_pcatch)

lemma steady_run: "steady g p \<Longrightarrow> g (snd (run p d)) = g d"
  by (induction p arbitrary: d) auto

section \<open>Schedules by hand\<close>

text \<open>A thread may run a part of its program, or all of it, without interruption.\<close>

lemma pcatch_Finish: "pcatch p Finish = p"
  by (induction p) auto

lemma pbnd_assoc: "pbnd (pbnd p f) g = pbnd p (\<lambda>x. pbnd (f x) g)"
  by (induction p) (auto split: sum.split)

lemma run_front:
  assumes "orderly E p H" "i < length (po_threads c)" "po_threads c ! i = pcatch p f" "po_held c = H"
  shows "pool_run c (c\<lparr>po_shared := snd (run p (po_shared c)), po_held := E,
    po_threads := (po_threads c)[i := f (fst (run p (po_shared c)))]\<rparr>)"
  using assms
proof (induction p arbitrary: c H)
  case (Finish x)
  then have "c\<lparr>po_shared := snd (run (Finish x) (po_shared c)), po_held := E,
      po_threads := (po_threads c)[i := f (fst (run (Finish x) (po_shared c)))]\<rparr> = c"
    by (cases c) (auto simp: list_update_same_conv)
  then show ?case using pool_run.start by simp
next
  case (Act u k)
  let ?c = "c\<lparr>po_shared := u (po_shared c), po_threads := (po_threads c)[i := pcatch (k (po_shared c)) f]\<rparr>"
  have "pool_step c ?c" using Act.prems by (intro pool_step.thread [of i]) (simp add: thread_step_def)
  moreover have "pool_run ?c (?c\<lparr>po_shared := snd (run (k (po_shared c)) (po_shared ?c)), po_held := E,
      po_threads := (po_threads ?c)[i := f (fst (run (k (po_shared c)) (po_shared ?c)))]\<rparr>)"
    using Act.prems by (intro Act.IH [of "k (po_shared c)"]) auto
  ultimately show ?case using pool_run_trans pool_run.more [OF pool_run.start] by fastforce
next
  case (Acquire l p)
  let ?c = "c\<lparr>po_held := insert l H, po_threads := (po_threads c)[i := pcatch p f]\<rparr>"
  have "pool_step c ?c" using Acquire.prems by (intro pool_step.thread [of i]) (simp add: thread_step_def)
  moreover have "pool_run ?c (?c\<lparr>po_shared := snd (run p (po_shared ?c)), po_held := E,
      po_threads := (po_threads ?c)[i := f (fst (run p (po_shared ?c)))]\<rparr>)"
    using Acquire.prems by (intro Acquire.IH [of "insert l H"]) auto
  ultimately show ?case using pool_run_trans pool_run.more [OF pool_run.start] by fastforce
next
  case (Release l p)
  let ?c = "c\<lparr>po_held := H - {l}, po_threads := (po_threads c)[i := pcatch p f]\<rparr>"
  have "pool_step c ?c" using Release.prems by (intro pool_step.thread [of i]) (simp add: thread_step_def)
  moreover have "pool_run ?c (?c\<lparr>po_shared := snd (run p (po_shared ?c)), po_held := E,
      po_threads := (po_threads ?c)[i := f (fst (run p (po_shared ?c)))]\<rparr>)"
    using Release.prems by (intro Release.IH [of "H - {l}"]) auto
  ultimately show ?case using pool_run_trans pool_run.more [OF pool_run.start] by fastforce
qed

lemma run_whole:
  assumes "orderly {} p {}" "i < length (po_threads c)" "po_threads c ! i = p" "po_held c = {}"
  shows "pool_run c (c\<lparr>po_shared := snd (run p (po_shared c)), po_held := {},
    po_threads := (po_threads c)[i := Finish (fst (run p (po_shared c)))]\<rparr>)"
  using run_front [OF assms(1,2) _ assms(4), where f = Finish] assms(3) by (simp add: pcatch_Finish)

end
