(* ===== verification/Concurrent.thy ===== *)
theory Concurrent
  imports Device Threads
begin

text \<open>
  The methods of \<open>crates/tgdrive-core/src/block.rs\<close> as programs with their critical sections: what
  each guard protects is one action, and so is each call of the backend, each unguarded read of a
  cache file and each update of a counter. Between them other calls may run: every connection is
  served by a task of its own. A program that runs alone is the method of theory \<open>Block\<close>. A call of
  the backend is one action, also the committer, since other calls use the channel only through it.
\<close>

section \<open>Reading\<close>

text \<open>The guard of the first \<open>if let\<close> lives until the dirty file has been read.\<close>

definition dirty_section :: "libs \<Rightarrow> u64 \<Rightarrow> ('b BlockDevice, bytes option) st" where
  "dirty_section L object_id =
     bnd (gets (\<lambda>d. dirty_object object_id (bd_store d))) (\<lambda>dirty.
     case dirty of
       None \<Rightarrow> ret None
     | Some x \<Rightarrow> bnd (read_dirty L object_id x) (\<lambda>object. ret (Some object)))"

definition entry_section :: "u64 \<Rightarrow> ('b BlockDevice, ManifestObject) st" where
  "entry_section object_id =
     bnd (gets (\<lambda>d. find_object object_id (bd_manifest d))) (\<lambda>found.
     lift (ok_or found (Anyhow (''object '' @ show_nat (unat object_id) @ '' out of manifest range''))))"

definition cache_section :: "libs \<Rightarrow> u64 \<Rightarrow> u64 \<Rightarrow> string \<Rightarrow> ('b BlockDevice, bytes option) st" where
  "cache_section L object_id generation sha =
     bnd (on_store (read_cache L object_id generation sha)) (\<lambda>cached.
     case cached of
       None \<Rightarrow> ret None
     | Some bs \<Rightarrow>
         bnd (on_metrics (\<lambda>m. m\<lparr>dm_cache_hits := dm_cache_hits m + 1\<rparr>)) (\<lambda>_.
         bnd (lift (decode L bs object_id generation)) (\<lambda>envelope.
         gets (\<lambda>d. Some (pad_object (env_payload envelope) (device_object_size d))))))"

definition remote_prog :: "libs \<Rightarrow> 'b backend \<Rightarrow> u64 \<Rightarrow> u64 \<Rightarrow> RemoteObjectRef \<Rightarrow> string \<Rightarrow> ('b BlockDevice, bytes) prog" where
  "remote_prog L B object_id generation remote sha =
     pbnd (act (on_metrics (\<lambda>m. m\<lparr>dm_cache_misses := dm_cache_misses m + 1\<rparr>))) (\<lambda>_.
     pbnd (act (on_backend (fetch_object B remote))) (\<lambda>encoded.
     pbnd (act (bnd (gets (device_elapsed L)) (\<lambda>ms. on_metrics (record_download ms)))) (\<lambda>_.
     pbnd (Finish (ensure (sha256_hex L encoded = sha)
            (Anyhow (''remote checksum mismatch for object '' @ show_nat (unat object_id))))) (\<lambda>_.
     pbnd (locked StoreLock (act (on_store (write_cache L object_id generation encoded False)))) (\<lambda>_.
     pbnd (Finish (decode L encoded object_id generation)) (\<lambda>envelope.
     act (gets (\<lambda>d. pad_object (env_payload envelope) (device_object_size d)))))))))"

definition clean_prog :: "libs \<Rightarrow> 'b backend \<Rightarrow> u64 \<Rightarrow> ManifestObject \<Rightarrow> ('b BlockDevice, bytes) prog" where
  "clean_prog L B object_id entry =
     (if mo_zero entry then act (gets (\<lambda>d. replicate (device_object_size d) 0))
      else
        pbnd (Finish (ok_or (mo_remote entry)
               (Anyhow (''object '' @ show_nat (unat object_id) @ '' has no remote ref'')))) (\<lambda>remote.
        pbnd (Finish (ok_or (mo_sha256 entry)
               (Anyhow (''object '' @ show_nat (unat object_id) @ '' has no checksum'')))) (\<lambda>sha.
        pbnd (locked StoreLock (act (cache_section L object_id (mo_generation entry) sha))) (\<lambda>cached.
        case cached of
          Some object \<Rightarrow> Finish (Inr object)
        | None \<Rightarrow> remote_prog L B object_id (mo_generation entry) remote sha))))"

definition object_prog :: "libs \<Rightarrow> 'b backend \<Rightarrow> u64 \<Rightarrow> ('b BlockDevice, bytes) prog" where
  "object_prog L B object_id =
     pbnd (locked StoreLock (act (dirty_section L object_id))) (\<lambda>dirty.
     case dirty of
       Some object \<Rightarrow> Finish (Inr object)
     | None \<Rightarrow>
         pbnd (locked ManifestLock (act (entry_section object_id))) (\<lambda>entry.
         clean_prog L B object_id entry))"

section \<open>Read-ahead\<close>

text \<open>The scan runs under the manifest lock and takes the store lock for every cache lookup; a hit is
counted with the lookup.\<close>

definition scan_section :: "libs \<Rightarrow> u64 \<Rightarrow> u64 \<Rightarrow> string \<Rightarrow> ('b BlockDevice, bool) st" where
  "scan_section L i generation sha =
     bnd (on_store (read_cache L i generation sha)) (\<lambda>cached.
     case cached of
       None \<Rightarrow> ret False
     | Some _ \<Rightarrow> bnd (on_metrics (\<lambda>m. m\<lparr>dm_cache_hits := dm_cache_hits m + 1\<rparr>)) (\<lambda>_. ret True))"

fun scan_prog :: "libs \<Rightarrow> u64 list \<Rightarrow> u64 list \<Rightarrow> ('b BlockDevice, prefetch_entry list) prog" where
  "scan_prog L dirty_ids [] = Finish (Inr [])"
| "scan_prog L dirty_ids (i # ids) =
     (if i \<in> set dirty_ids then scan_prog L dirty_ids ids
      else pbnd (act (gets (\<lambda>d. find_object i (bd_manifest d)))) (\<lambda>found.
        case found of
          None \<Rightarrow> Finish (Inr [])
        | Some entry \<Rightarrow>
            if mo_zero entry then scan_prog L dirty_ids ids
            else case (mo_remote entry, mo_sha256 entry) of
              (Some remote, Some sha) \<Rightarrow>
                pbnd (locked StoreLock (act (scan_section L i (mo_generation entry) sha))) (\<lambda>hit.
                if hit then scan_prog L dirty_ids ids
                else pbnd (scan_prog L dirty_ids ids) (\<lambda>rest.
                  Finish (Inr ((i, mo_generation entry, sha, remote) # rest))))
            | _ \<Rightarrow> scan_prog L dirty_ids ids))"

fun fill_prog :: "libs \<Rightarrow> (prefetch_entry \<times> bytes option) list \<Rightarrow> ('b BlockDevice, unit) prog" where
  "fill_prog L [] = Finish (Inr ())"
| "fill_prog L (((i, g, sha, remote), None) # rest) = fill_prog L rest"
| "fill_prog L (((i, g, sha, remote), Some encoded) # rest) =
     (if sha256_hex L encoded \<noteq> sha then fill_prog L rest
      else case decode L encoded i g of
        Inr _ \<Rightarrow> pbnd (locked StoreLock (act (on_store (write_cache L i g encoded False)))) (\<lambda>_. fill_prog L rest)
      | Inl (Panic msg) \<Rightarrow> Finish (Inl (Panic msg))
      | Inl _ \<Rightarrow> fill_prog L rest)"

definition prefetch_prog :: "libs \<Rightarrow> 'b backend \<Rightarrow> u64 \<Rightarrow> u64 \<Rightarrow> ('b BlockDevice, unit) prog" where
  "prefetch_prog L B start ahead =
     pbnd (locked StoreLock (act (gets (\<lambda>d. map do_object_id (dirty_objects (bd_store d)))))) (\<lambda>dirty_ids.
     pbnd (locked ManifestLock (scan_prog L dirty_ids
            (map of_nat [unat start..<unat (saturating_add start ahead)]))) (\<lambda>entries.
     if entries = [] then Finish (Inr ())
     else
       pbnd (act (on_metrics (\<lambda>m. m\<lparr>dm_cache_misses := dm_cache_misses m + of_nat (length entries)\<rparr>))) (\<lambda>_.
       pbnd (act (on_backend (get_messages_by_id B (map (\<lambda>(_, _, _, remote). ref_message_id remote) entries)))) (\<lambda>messages.
       pbnd (act (bnd (gets (device_elapsed L)) (\<lambda>ms. on_metrics (record_download ms)))) (\<lambda>_.
       fill_prog L (zip entries messages))))))"

text \<open>The map of the device never changes; the loops have it as an argument.\<close>

function read_loop_prog :: "libs \<Rightarrow> 'b backend \<Rightarrow> BlockMap \<Rightarrow> nat \<Rightarrow> u64 \<Rightarrow> bytes \<Rightarrow> ('b BlockDevice, bytes \<times> u64) prog" where
  "read_loop_prog L B bmap remaining cursor out =
     (if remaining = 0 then Finish (Inr (out, cursor))
      else case locate bmap cursor of
        Inl e \<Rightarrow> Finish (Inl e)
      | Inr (object_id, object_offset) \<Rightarrow>
          (let n = min remaining (unat (bm_object_size bmap) - object_offset) in
           pbnd (object_prog L B object_id) (\<lambda>object.
           if length object < object_offset + n
           then Finish (Inl (Panic ''range end index out of range for slice''))
           else case add_w L cursor (of_nat n) of
             Inl e \<Rightarrow> Finish (Inl e)
           | Inr cursor' \<Rightarrow>
               read_loop_prog L B bmap (remaining - n) cursor' (out @ slice object_offset (object_offset + n) object))))"
  by pat_completeness auto
termination
  by (relation "measure (\<lambda>(L, B, bmap, remaining, cursor, out). remaining)") (auto dest: locate_offset_less)

declare read_loop_prog.simps [simp del]

definition read_at_prog :: "libs \<Rightarrow> 'b backend \<Rightarrow> BlockMap \<Rightarrow> u64 \<Rightarrow> u64 \<Rightarrow> nat \<Rightarrow> ('b BlockDevice, bytes) prog" where
  "read_at_prog L B bmap ahead offset len =
     pbnd (Finish (add_w L offset (of_nat len))) (\<lambda>end_offset.
     pbnd (Finish (ensure (end_offset \<le> bm_device_size bmap) (Anyhow ''read out of bounds''))) (\<lambda>_.
     pbnd (read_loop_prog L B bmap len offset []) (\<lambda>(out, cursor).
     if cursor < bm_device_size bmap then
       (case locate bmap cursor of
          Inr (next_object_id, 0) \<Rightarrow>
            pcatch (prefetch_prog L B next_object_id ahead) (\<lambda>outcome.
            case outcome of
              Inl (Panic msg) \<Rightarrow> Finish (Inl (Panic msg))
            | _ \<Rightarrow> Finish (Inr out))
        | _ \<Rightarrow> Finish (Inr out))
     else Finish (Inr out))))"

section \<open>Writing\<close>

definition backpressure_section :: "('b BlockDevice, unit) st" where
  "backpressure_section =
     bnd (gets (\<lambda>d. ensure (st_dirty_objects (stats (bd_store d)) < bd_max_dirty_objects d)
                     (Anyhow ''dirty object backpressure limit reached''))) lift"

definition generation_section :: "libs \<Rightarrow> ('b BlockDevice, u64) st" where
  "generation_section L = bnd (gets (\<lambda>d. m_generation (bd_manifest d))) (\<lambda>current. lift (add_w L current 1))"

definition mark_section :: "libs \<Rightarrow> u64 \<Rightarrow> u64 \<Rightarrow> bytes \<Rightarrow> u64 \<Rightarrow> u64 \<Rightarrow> ('b BlockDevice, unit) st" where
  "mark_section L object_id generation encoded offset len =
     bnd (on_store (write_cache L object_id generation encoded True)) (\<lambda>sha.
     bnd (gets (\<lambda>d. cache_path (bd_store d) object_id generation)) (\<lambda>path.
     on_store (mark_dirty L object_id generation path sha offset len)))"

definition write_dirty_prog :: "libs \<Rightarrow> BlockMap \<Rightarrow> u64 \<Rightarrow> bytes \<Rightarrow> u64 \<Rightarrow> u64 \<Rightarrow> ('b BlockDevice, unit) prog" where
  "write_dirty_prog L bmap object_id object offset len =
     pbnd (locked StoreLock (act backpressure_section)) (\<lambda>_.
     pbnd (locked ManifestLock (act (generation_section L))) (\<lambda>generation.
     locked StoreLock (act (mark_section L object_id generation
       (encode L \<lparr>env_object_id = object_id, env_generation = generation, env_object_size = bm_object_size bmap,
          env_flags = 0, env_payload = resize (unat (bm_object_size bmap)) 0 object\<rparr>) offset len))))"

function write_loop_prog :: "libs \<Rightarrow> 'b backend \<Rightarrow> BlockMap \<Rightarrow> bytes \<Rightarrow> nat \<Rightarrow> nat \<Rightarrow> u64 \<Rightarrow> ('b BlockDevice, unit) prog" where
  "write_loop_prog L B bmap bs remaining input_offset cursor =
     (if remaining = 0 then Finish (Inr ())
      else case locate bmap cursor of
        Inl e \<Rightarrow> Finish (Inl e)
      | Inr (object_id, object_offset) \<Rightarrow>
          (let size = unat (bm_object_size bmap);
               n = min remaining (size - object_offset);
               full_object = (object_offset = 0 \<and> n = size) in
           pbnd (if full_object then Finish (Inr (replicate size 0)) else object_prog L B object_id) (\<lambda>object.
           if length object < object_offset + n
           then Finish (Inl (Panic ''range end index out of range for slice''))
           else
             pbnd (write_dirty_prog L bmap object_id
                     (splice_at object_offset (slice input_offset (input_offset + n) bs) object)
                     (of_nat object_offset) (of_nat n)) (\<lambda>_.
             case add_w L cursor (of_nat n) of
               Inl e \<Rightarrow> Finish (Inl e)
             | Inr cursor' \<Rightarrow> write_loop_prog L B bmap bs (remaining - n) (input_offset + n) cursor'))))"
  by pat_completeness auto
termination
  by (relation "measure (\<lambda>(L, B, bmap, bs, remaining, input_offset, cursor). remaining)") (auto dest: locate_offset_less)

declare write_loop_prog.simps [simp del]

definition write_at_prog :: "libs \<Rightarrow> 'b backend \<Rightarrow> BlockMap \<Rightarrow> u64 \<Rightarrow> bytes \<Rightarrow> ('b BlockDevice, unit) prog" where
  "write_at_prog L B bmap offset bs =
     pbnd (Finish (add_w L offset (of_nat (length bs)))) (\<lambda>end_offset.
     pbnd (Finish (ensure (end_offset \<le> bm_device_size bmap) (Anyhow ''write out of bounds''))) (\<lambda>_.
     write_loop_prog L B bmap bs (length bs) 0 offset))"

section \<open>Flushing\<close>

text \<open>The manifest lock is held from the new generation to the end; cache files are read without a lock.\<close>

definition load_section :: "libs \<Rightarrow> DirtyObject \<Rightarrow> ('b BlockDevice, bytes) st" where
  "load_section L dirty =
     bnd (read_file (do_cache_path dirty)) (\<lambda>encoded.
     bnd (lift (decode L encoded (do_object_id dirty) (do_generation dirty))) (\<lambda>_.
     bnd (lift (ensure (sha256_hex L encoded = do_sha256 dirty) (Anyhow ''dirty cache checksum mismatch''))) (\<lambda>_.
     ret encoded)))"

definition entry_update :: "libs \<Rightarrow> DirtyObject \<Rightarrow> bytes \<Rightarrow> RemoteObjectRef \<Rightarrow> ('b BlockDevice, unit) st" where
  "entry_update L dirty encoded remote =
     bnd (gets (\<lambda>d. position_of (do_object_id dirty) (m_objects (bd_manifest d)))) (\<lambda>position.
     bnd (lift (ok_or position (Anyhow (''manifest missing object '' @ show_nat (unat (do_object_id dirty)))))) (\<lambda>idx.
     upd (\<lambda>d. d\<lparr>bd_manifest :=
       commit_entry idx (do_generation dirty) remote (sha256_hex L encoded) (bd_manifest d)\<rparr>)))"

definition upload_prog :: "libs \<Rightarrow> 'b backend \<Rightarrow> DirtyObject \<Rightarrow> ('b BlockDevice, unit) prog" where
  "upload_prog L B dirty =
     pbnd (act (load_section L dirty)) (\<lambda>encoded.
     pbnd (act (on_backend (send_object B (do_object_id dirty) (do_generation dirty) encoded (sha256_hex L encoded)))) (\<lambda>remote.
     pbnd (act (bnd (gets (device_elapsed L)) (\<lambda>ms. on_metrics (record_upload ms)))) (\<lambda>_.
     act (entry_update L dirty encoded remote))))"

fun upload_all_prog :: "libs \<Rightarrow> 'b backend \<Rightarrow> DirtyObject list \<Rightarrow> ('b BlockDevice, unit) prog" where
  "upload_all_prog L B [] = Finish (Inr ())"
| "upload_all_prog L B (x # xs) = pbnd (upload_prog L B x) (\<lambda>_. upload_all_prog L B xs)"

definition new_generation :: "libs \<Rightarrow> DirtyObject list \<Rightarrow> ('b BlockDevice, unit) st" where
  "new_generation L dirty =
     bnd (gets (\<lambda>d. m_generation (bd_manifest d))) (\<lambda>current.
     bnd (lift (add_w L current 1)) (\<lambda>_.
     upd (\<lambda>d. d\<lparr>bd_manifest := (bd_manifest d)\<lparr>m_generation := max_generation dirty\<rparr>\<rparr>)))"

definition commit_section :: "libs \<Rightarrow> ('b BlockDevice, unit) st" where
  "commit_section L =
     bnd (gets bd_manifest) (\<lambda>manifest.
     bnd (on_store (replace_from_manifest L manifest)) (\<lambda>_.
     upd (\<lambda>d. d\<lparr>bd_store := clear_dirty_and_wal (bd_store d)\<rparr>)))"

definition flush_prog :: "libs \<Rightarrow> 'b backend \<Rightarrow> ('b BlockDevice, unit) prog" where
  "flush_prog L B =
     pbnd (locked StoreLock (act (gets (\<lambda>d. dirty_objects (bd_store d))))) (\<lambda>dirty.
     if dirty = [] then Finish (Inr ())
     else
       locked ManifestLock (
         pbnd (act (new_generation L dirty)) (\<lambda>_.
         pbnd (upload_all_prog L B dirty) (\<lambda>_.
         pbnd (act run_committer) (\<lambda>_.
         locked StoreLock (act (commit_section L)))))))"

section \<open>A program that runs alone is the method\<close>

lemma bnd_assoc: "bnd (bnd m f) g = bnd m (\<lambda>x. bnd (f x) g)"
  by (auto simp: fun_eq_iff bnd_apply split: prod.split sum.split)

lemma run_Finish_bnd [simp]: "bnd (run (Finish x)) f d = bnd (lift x) f d"
  by (simp add: bnd_apply)

lemma run_remote: "run (remote_prog L B i g r sha) d = read_remote L B i g r sha d"
  by (simp add: remote_prog_def read_remote_def bnd_apply split: prod.split sum.split)

lemma run_clean: "run (clean_prog L B i entry) d = read_clean L B i entry d"
  by (auto simp: clean_prog_def read_clean_def cache_section_def bnd_apply run_remote
      split: prod.split sum.split option.split)

lemma run_object: "run (object_prog L B i) d = read_object L B i d"
  by (auto simp: object_prog_def read_object_def dirty_section_def entry_section_def bnd_apply run_clean
      split: prod.split sum.split option.split)

lemma run_scan: "run (scan_prog L ids xs) d = prefetch_scan L ids xs d"
  by (induction xs arbitrary: d) (auto simp: scan_section_def bnd_apply split: prod.split sum.split option.split)

lemma run_fill: "run (fill_prog L xs) d = prefetch_store L xs d"
  by (induction L xs arbitrary: d rule: fill_prog.induct) (auto simp: bnd_apply split: prod.split sum.split err.split)

lemma run_prefetch: "run (prefetch_prog L B start ahead) d = prefetch_objects L B start ahead d"
  by (auto simp: prefetch_prog_def prefetch_objects_def bnd_apply run_scan run_fill split: prod.split sum.split)

lemma run_upload: "run (upload_prog L B x) d = upload_dirty L B x d"
  by (auto simp: upload_prog_def upload_dirty_def load_section_def entry_update_def bnd_apply split: prod.split sum.split option.split)

lemma run_upload_all: "run (upload_all_prog L B xs) d = upload_all L B xs d"
  by (induction xs arbitrary: d) (auto simp: bnd_apply run_upload split: prod.split sum.split)

lemma run_flush: "run (flush_prog L B) d = flush L B d"
  by (auto simp: flush_prog_def flush_def new_generation_def commit_section_def bnd_apply run_upload_all split: prod.split sum.split)

lemma run_write_dirty:
  "run (write_dirty_prog L (bd_map d) i object off len) d = write_dirty_object L i object off len d"
  by (auto simp: write_dirty_prog_def write_dirty_object_def backpressure_section_def generation_section_def mark_section_def
      bnd_apply device_object_size_def split: prod.split sum.split)

lemma write_dirty_map: "bd_map (snd (write_dirty_object L i object off len d)) = bd_map d"
  by (auto simp: write_dirty_object_def bnd_apply on_store_def split: prod.split sum.split)

lemma read_object_map: "read_object L B i d = (x, d') \<Longrightarrow> bd_map d' = bd_map d"
  using read_object_core [of d L B i] by (simp add: same_core_def)

lemma loop_cases:
  obtains (stop) "remaining = 0" | (err) e where "remaining \<noteq> (0 :: nat)" "locate bmap cursor = Inl e"
    | (go) i off where "remaining \<noteq> 0" "locate bmap cursor = Inr (i, off)" "off < unat (bm_object_size bmap)"
  using locate_offset_less [of bmap cursor] by (cases "locate bmap cursor") auto

lemma run_read_loop: "run (read_loop_prog L B (bd_map d) remaining cursor out) d = read_loop L B remaining cursor out d"
proof (induction remaining arbitrary: cursor out d rule: less_induct)
  case (less remaining)
  show ?case
  proof (cases rule: loop_cases [where remaining = remaining and bmap = "bd_map d" and cursor = cursor])
    case (go i off)
    let ?n = "min remaining (unat (bm_object_size (bd_map d)) - off)"
    have n: "remaining - ?n < remaining" using go by simp
    obtain x d' where ro: "read_object L B i d = (x, d')" by force
    note m = read_object_map [OF ro]
    show ?thesis
      using less.IH [OF n, of d', unfolded m]
      by (subst read_loop_prog.simps, subst read_loop.simps) (simp add: go bnd_apply run_object ro Let_def split: sum.split)
  qed (simp_all add: read_loop_prog.simps read_loop.simps)
qed

lemma run_write_loop:
  "run (write_loop_prog L B (bd_map d) bs remaining io cursor) d = write_loop L B bs remaining io cursor d"
proof (induction remaining arbitrary: io cursor d rule: less_induct)
  case (less remaining)
  show ?case
  proof (cases rule: loop_cases [where remaining = remaining and bmap = "bd_map d" and cursor = cursor])
    case (go i off)
    let ?size = "unat (bm_object_size (bd_map d))"
    let ?n = "min remaining (?size - off)"
    have n: "remaining - ?n < remaining" using go by simp
    let ?full = "off = 0 \<and> ?n = ?size"
    obtain x d1 where ro: "(if ?full then (Inr (replicate ?size 0), d) else read_object L B i d) = (x, d1)" by force
    have m: "bd_map d1 = bd_map d" using ro read_object_map by (auto split: if_splits)
    have pre: "run (if ?full then Finish (Inr (replicate ?size 0)) else object_prog L B i) d = (x, d1)"
      using ro by (cases ?full) (auto simp: run_object)
    have wd: "bd_map d2 = bd_map d" if "write_dirty_object L i' ob o' len d1 = (y, d2)" for i' ob o' len y d2
      using write_dirty_map [of L i' ob o' len d1] that by (simp add: m)
    have ih: "run (write_loop_prog L B (bd_map d) bs (remaining - ?n) io' cursor') d2 = write_loop L B bs (remaining - ?n) io' cursor' d2"
      if "bd_map d2 = bd_map d" for d2 io' cursor'
      using less.IH [OF n, of d2] that by simp
    show ?thesis
      using ih run_write_dirty [of L d1, unfolded m]
      by (subst write_loop_prog.simps, subst write_loop.simps) (auto simp: go bnd_apply pre ro Let_def split: sum.split prod.split dest: wd)
  qed (simp_all add: write_loop_prog.simps write_loop.simps)
qed


section \<open>Calls\<close>

text \<open>The methods of \<open>NbdBackend\<close> for a device, as the programs that connections run.\<close>

datatype dev_call = ReadCall u64 nat | WriteCall u64 bytes | FlushCall

definition call_prog :: "libs \<Rightarrow> 'b backend \<Rightarrow> BlockMap \<Rightarrow> u64 \<Rightarrow> dev_call \<Rightarrow> ('b BlockDevice, bytes) prog" where
  "call_prog L B bmap ahead c =
     (case c of
        ReadCall offset len \<Rightarrow> read_at_prog L B bmap ahead offset len
      | WriteCall offset bs \<Rightarrow> pbnd (write_at_prog L B bmap offset bs) (\<lambda>_. Finish (Inr []))
      | FlushCall \<Rightarrow> pbnd (flush_prog L B) (\<lambda>_. Finish (Inr [])))"

definition device_calls :: "libs \<Rightarrow> 'b backend \<Rightarrow> 'b BlockDevice \<Rightarrow> dev_call list \<Rightarrow> ('b BlockDevice, bytes) pool" where
  "device_calls L B d calls = pool_start d (map (call_prog L B (bd_map d) (bd_read_ahead_objects d)) calls)"

definition call_op :: "dev_call \<Rightarrow> dev_op" where
  "call_op c = (case c of ReadCall offset len \<Rightarrow> ReadAt offset len | WriteCall offset bs \<Rightarrow> WriteAt offset bs | FlushCall \<Rightarrow> FlushOp)"

lemma read_loop_core: "same_core d (snd (read_loop L B remaining cursor out d))"
proof (induction remaining arbitrary: cursor out d rule: less_induct)
  case (less remaining)
  show ?case
  proof (cases rule: loop_cases [where remaining = remaining and bmap = "bd_map d" and cursor = cursor])
    case (go i off)
    let ?n = "min remaining (unat (bm_object_size (bd_map d)) - off)"
    have n: "remaining - ?n < remaining" using go by simp
    obtain x d' where ro: "read_object L B i d = (x, d')" by force
    then have c: "same_core d d'" using read_object_core [of d L B i] by simp
    show ?thesis
      using c same_core_trans [OF c less.IH [OF n]]
      by (subst read_loop.simps) (simp add: go ro Let_def split: sum.split)
  qed (simp_all add: read_loop.simps)
qed

lemma run_read_at: "run (read_at_prog L B (bd_map d) (bd_read_ahead_objects d) offset len) d = read_at L B offset len d"
proof -
  obtain x d' where rl: "read_loop L B len offset [] d = (x, d')" by force
  have "bd_map d' = bd_map d" "bd_read_ahead_objects d' = bd_read_ahead_objects d"
    using read_loop_core [of d L B len offset "[]"] by (simp_all add: rl same_core_def)
  then show ?thesis
    by (auto simp: read_at_prog_def read_at_def bnd_apply run_read_loop rl run_prefetch split: sum.split prod.split nat.split err.split)
qed

lemma run_call:
  "run (call_prog L B (bd_map d) (bd_read_ahead_objects d) c) d = dev_exec L B (call_op c) d"
  by (cases c) (auto simp: call_prog_def call_op_def dev_exec_def run_read_at write_at_prog_def write_at_def run_write_loop
      run_flush bnd_apply split: sum.split prod.split)

section \<open>Every program is orderly\<close>

lemma orderly_object: "orderly {} (object_prog L B i) {}"
  unfolding object_prog_def clean_prog_def remote_prog_def
  by (auto intro!: orderly_rules split: option.split simp del: orderly.simps pbnd.simps pcatch.simps)

lemma orderly_scan: "orderly {ManifestLock} (scan_prog L ids xs) {ManifestLock}"
  by (induction xs) (auto intro!: orderly_rules split: option.split simp del: orderly.simps pbnd.simps pcatch.simps)

lemma orderly_fill: "orderly {} (fill_prog L xs) {}"
  by (induction L xs rule: fill_prog.induct) (auto intro!: orderly_rules split: sum.split err.split simp del: orderly.simps pbnd.simps pcatch.simps)

lemma orderly_prefetch: "orderly {} (prefetch_prog L B start ahead) {}"
  unfolding prefetch_prog_def
  by (auto intro!: orderly_rules orderly_scan orderly_fill simp del: orderly.simps pbnd.simps pcatch.simps)

lemma orderly_read_loop: "orderly {} (read_loop_prog L B bmap remaining cursor out) {}"
  by (induction L B bmap remaining cursor out rule: read_loop_prog.induct)
    (subst read_loop_prog.simps, auto intro!: orderly_rules orderly_object split: sum.split simp del: orderly.simps pbnd.simps pcatch.simps simp: Let_def)

lemma orderly_write_dirty: "orderly {} (write_dirty_prog L bmap i object off len) {}"
  unfolding write_dirty_prog_def by (auto intro!: orderly_rules simp del: orderly.simps pbnd.simps pcatch.simps)

lemma orderly_write_loop: "orderly {} (write_loop_prog L B bmap bs remaining io cursor) {}"
proof (induction remaining arbitrary: io cursor rule: less_induct)
  case (less remaining)
  show ?case
  proof (cases rule: loop_cases [where remaining = remaining and bmap = bmap and cursor = cursor])
    case (go i off)
    have ih: "orderly {} (write_loop_prog L B bmap bs (remaining - k) io' cursor') {}" if "0 < k" for k io' cursor'
      using that go(1) by (intro less.IH) simp
    have "0 < unat (bm_object_size bmap)" "0 < remaining" using go by simp_all
    then show ?thesis
      by (subst write_loop_prog.simps)
        (auto simp: go Let_def simp del: orderly.simps pbnd.simps min_def intro!: orderly_rules orderly_object orderly_write_dirty ih
          split: sum.split)
  qed (simp_all add: write_loop_prog.simps)
qed

lemma orderly_upload_all: "orderly {ManifestLock} (upload_all_prog L B xs) {ManifestLock}"
  by (induction xs) (auto simp: upload_prog_def intro!: orderly_rules simp del: orderly.simps pbnd.simps pcatch.simps)

lemma orderly_flush: "orderly {} (flush_prog L B) {}"
  unfolding flush_prog_def by (auto intro!: orderly_rules orderly_upload_all simp del: orderly.simps pbnd.simps pcatch.simps)

lemma orderly_call: "orderly {} (call_prog L B bmap ahead c) {}"
  by (cases c) (auto simp: call_prog_def read_at_prog_def write_at_prog_def simp del: orderly.simps pbnd.simps pcatch.simps
      intro!: orderly_rules orderly_read_loop orderly_prefetch orderly_write_loop orderly_flush
      split: sum.split prod.split nat.split err.split)

section \<open>The configuration of a device never changes\<close>

definition device_config :: "'b BlockDevice \<Rightarrow> BlockMap \<times> u64" where
  "device_config d = (bd_map d, bd_read_ahead_objects d)"

lemma config_updates [simp]:
  "device_config (d\<lparr>bd_manifest := x\<rparr>) = device_config d" "device_config (d\<lparr>bd_store := s\<rparr>) = device_config d"
  by (simp_all add: device_config_def)

text \<open>Actions with the laws of the monad.\<close>

named_theorems config_rules

lemma config_bnd [config_rules]:
  assumes "\<And>d. device_config (snd (m d)) = device_config d" "\<And>x d. device_config (snd (f x d)) = device_config d"
  shows "device_config (snd (bnd m f d)) = device_config d"
  using assms by (auto simp: bnd_apply split: sum.split prod.split) (metis snd_conv)+

lemma config_steps [config_rules]:
  "device_config (snd (gets h d)) = device_config d" "device_config (snd (ret x d)) = device_config d"
  "device_config (snd (lift r d)) = device_config d" "device_config (snd (on_store w d)) = device_config d"
  "device_config (snd (on_backend v d)) = device_config d" "device_config (snd (on_metrics k d)) = device_config d"
  "device_config (snd (read_file p d)) = device_config d" "device_config (snd (run_committer d)) = device_config d"
  by (auto simp: device_config_def on_store_def on_backend_def on_metrics_def read_file_def run_committer_def bnd_apply
      split: prod.split option.split sum.split)

lemma config_upd [config_rules]: "device_config (f d) = device_config d \<Longrightarrow> device_config (snd (upd f d)) = device_config d"
  by simp

lemma steady_config_act [steady_rules]: "(\<And>d. device_config (snd (m d)) = device_config d) \<Longrightarrow> steady device_config (act m)"
  by (rule steady_act)

lemma steady_object: "steady device_config (object_prog L B i)"
  unfolding object_prog_def clean_prog_def remote_prog_def dirty_section_def entry_section_def cache_section_def read_dirty_def
  by (auto intro!: steady_rules config_rules split: option.split simp del: steady.simps pbnd.simps)

lemma steady_scan: "steady device_config (scan_prog L ids xs)"
  by (induction xs)
    (auto simp: scan_section_def intro!: steady_rules config_rules split: option.split simp del: steady.simps pbnd.simps)

lemma steady_fill: "steady device_config (fill_prog L xs)"
  by (induction L xs rule: fill_prog.induct)
    (auto intro!: steady_rules config_rules split: sum.split err.split simp del: steady.simps pbnd.simps)

lemma steady_read_loop: "steady device_config (read_loop_prog L B bmap remaining cursor out)"
  by (induction L B bmap remaining cursor out rule: read_loop_prog.induct)
    (subst read_loop_prog.simps, auto intro!: steady_rules steady_object split: sum.split simp del: steady.simps pbnd.simps simp: Let_def)

lemma steady_write_dirty: "steady device_config (write_dirty_prog L bmap i object off len)"
  unfolding write_dirty_prog_def backpressure_section_def generation_section_def mark_section_def
  by (auto intro!: steady_rules config_rules simp del: steady.simps pbnd.simps)

lemma steady_write_loop: "steady device_config (write_loop_prog L B bmap bs remaining io cursor)"
proof (induction remaining arbitrary: io cursor rule: less_induct)
  case (less remaining)
  show ?case
  proof (cases rule: loop_cases [where remaining = remaining and bmap = bmap and cursor = cursor])
    case (go i off)
    have ih: "steady device_config (write_loop_prog L B bmap bs (remaining - k) io' cursor')" if "0 < k" for k io' cursor'
      using that go(1) by (intro less.IH) simp
    have "0 < unat (bm_object_size bmap)" "0 < remaining" using go by simp_all
    then show ?thesis
      by (subst write_loop_prog.simps)
        (auto simp: go Let_def simp del: steady.simps pbnd.simps min_def intro!: steady_rules steady_object steady_write_dirty ih
          split: sum.split)
  qed (simp_all add: write_loop_prog.simps)
qed

lemma steady_flush: "steady device_config (flush_prog L B)"
proof -
  have "steady device_config (upload_all_prog L B xs)" for xs
    by (induction xs) (auto simp: upload_prog_def load_section_def entry_update_def
        intro!: steady_rules config_rules simp del: steady.simps pbnd.simps)
  then show ?thesis
    unfolding flush_prog_def new_generation_def commit_section_def
    by (auto intro!: steady_rules config_rules simp del: steady.simps pbnd.simps)
qed

lemma steady_call: "steady device_config (call_prog L B bmap ahead c)"
  by (cases c) (auto simp: call_prog_def read_at_prog_def write_at_prog_def prefetch_prog_def simp del: steady.simps pbnd.simps
      intro!: steady_rules config_rules steady_read_loop steady_scan steady_fill steady_write_loop steady_flush
      split: sum.split prod.split nat.split err.split)

lemma call_config: "device_config (snd (dev_exec L B (call_op c) d)) = device_config d"
  using steady_run [OF steady_call, of L B "bd_map d" "bd_read_ahead_objects d" c d] by (simp add: run_call)

end
