(* ===== verification/Serve.thy ===== *)
theory Serve
  imports Concurrent Nbd
begin

text \<open>
  The accept loop of \<open>NbdExport::serve\<close> (\<open>crates/tgdrive-nbd/src/server.rs\<close>): every connection is a task
  of its own, and the tasks share the device. A task keeps its two streams to itself and runs the
  device methods of \<open>Concurrent\<close>; the server is a pool of tasks to which a new connection may be
  added at any time. A client is the bytes that it sends; a task that waits for input is one
  that the schedule does not choose. A connection that runs alone is \<open>handle_client\<close> of \<open>Nbd\<close>.
\<close>

section \<open>Tasks\<close>

type_synonym streams = "unit conn"
type_synonym ('d, 'a) task = "streams \<Rightarrow> ('d, 'a res \<times> streams) prog"

definition own_step :: "(streams, 'a) st \<Rightarrow> ('d, 'a) task" where
  "own_step m c = Finish (Inr (m c))"

definition shared_call :: "('d, 'a) prog \<Rightarrow> ('d, 'a) task" where
  "shared_call p c = pcatch p (\<lambda>x. Finish (Inr (x, c)))"

definition tbnd :: "('d, 'a) task \<Rightarrow> ('a \<Rightarrow> ('d, 'b) task) \<Rightarrow> ('d, 'b) task" where
  "tbnd m f c = pbnd (m c) (\<lambda>(x, c'). case x of Inl e \<Rightarrow> Finish (Inr (Inl e, c')) | Inr y \<Rightarrow> f y c')"

lemma tbnd_ret [simp]: "tbnd (own_step (ret x)) f = f x"
  by (simp add: tbnd_def own_step_def fun_eq_iff)

section \<open>A connection\<close>

definition serve_request_task :: "NbdServerOptions \<Rightarrow> (dev_call \<Rightarrow> ('d, bytes) prog) \<Rightarrow> Request \<Rightarrow> ('d, bool) task" where
  "serve_request_task opts K request =
     (if rq_command request = CMD_READ then
        if \<not> bounds_ok (op_device_size opts) (rq_offset request) (rq_length request) then
          tbnd (own_step (write_reply ERR_INVALID (rq_handle request))) (\<lambda>_. own_step (ret True))
        else
          tbnd (shared_call (K (ReadCall (rq_offset request) (unat (rq_length request))))) (\<lambda>data.
          tbnd (own_step (write_reply 0 (rq_handle request))) (\<lambda>_.
          tbnd (own_step (emit data)) (\<lambda>_. own_step (ret True))))
      else if rq_command request = CMD_WRITE then
        if \<not> bounds_ok (op_device_size opts) (rq_offset request) (rq_length request) then
          tbnd (own_step (on_input (discard_payload (rq_length request)))) (\<lambda>_.
          tbnd (own_step (write_reply ERR_INVALID (rq_handle request))) (\<lambda>_. own_step (ret True)))
        else
          tbnd (own_step (on_input (read_exact (unat (rq_length request))))) (\<lambda>payload.
          tbnd (shared_call (K (WriteCall (rq_offset request) payload))) (\<lambda>_.
          tbnd (own_step (write_reply 0 (rq_handle request))) (\<lambda>_. own_step (ret True))))
      else if rq_command request = CMD_FLUSH then
        tbnd (shared_call (K FlushCall)) (\<lambda>_.
        tbnd (own_step (write_reply 0 (rq_handle request))) (\<lambda>_. own_step (ret True)))
      else if rq_command request = CMD_DISC then
        tbnd (shared_call (K FlushCall)) (\<lambda>_. own_step (ret False))
      else if rq_command request = CMD_TRIM \<or> rq_command request = CMD_WRITE_ZEROES then
        tbnd (if 0 < rq_length request \<and> rq_command request = CMD_WRITE
              then own_step (on_input (discard_payload (rq_length request))) else own_step (ret ())) (\<lambda>_.
        tbnd (own_step (write_reply ERR_UNSUPPORTED (rq_handle request))) (\<lambda>_. own_step (ret True)))
      else
        tbnd (if rq_command request = CMD_WRITE
              then own_step (on_input (discard_payload (rq_length request))) else own_step (ret ())) (\<lambda>_.
        tbnd (own_step (write_reply ERR_UNSUPPORTED (rq_handle request))) (\<lambda>_. own_step (ret True))))"

text \<open>The input of a connection only shrinks.\<close>

definition shrinks :: "('d, 'a) task \<Rightarrow> bool" where
  "shrinks t \<longleftrightarrow> (\<forall>c. \<forall>(x, c')\<in>set_prog (t c). length (cn_input c') \<le> length (cn_input c))"

lemma shrinks_own: "(\<And>c. length (cn_input (snd (m c))) \<le> length (cn_input c)) \<Longrightarrow> shrinks (own_step m)"
  by (simp add: shrinks_def own_step_def split: prod.split) (metis snd_conv)

lemma shrinks_call: "shrinks (shared_call p)"
  using set_pcatch by (fastforce simp: shrinks_def shared_call_def)

lemma shrinks_tbnd: "shrinks t \<Longrightarrow> (\<And>x. shrinks (f x)) \<Longrightarrow> shrinks (tbnd t f)"
  unfolding shrinks_def tbnd_def by (fastforce simp: set_pbnd split: sum.splits intro: le_trans)

lemma shrinks_serve: "shrinks (serve_request_task opts K request)"
  unfolding serve_request_task_def
  by (auto intro!: shrinks_tbnd shrinks_own shrinks_call)

declare pbnd_cong [fundef_cong]

function transmission_task :: "NbdServerOptions \<Rightarrow> (dev_call \<Rightarrow> ('d, bytes) prog) \<Rightarrow> ('d, unit) task" where
  "transmission_task opts K c =
     (case on_input read_from c of
        (Inl e, c1) \<Rightarrow> Finish (Inr (if e = unexpected_eof then (Inr (), c1) else (Inl e, c1)))
      | (Inr request, c1) \<Rightarrow>
          pbnd (serve_request_task opts K request c1) (\<lambda>z.
          case z of
            (Inl e, c2) \<Rightarrow> Finish (Inr (Inl e, c2))
          | (Inr continue, c2) \<Rightarrow> if continue then transmission_task opts K c2 else Finish (Inr (Inr (), c2))))"
  by pat_completeness auto
termination
proof (relation "measure (\<lambda>(opts, K, c). length (cn_input c))", goal_cases)
  case 1
  show ?case by simp
next
  case (2 opts K c r c1 request z x c2 continue)
  then have "read_from (cn_input c) = (Inr request, cn_input c1)" by (auto dest!: on_input_frame simp: eq_commute)
  then have "length (cn_input c1) < length (cn_input c)" by (rule read_length)
  moreover have "length (cn_input c2) \<le> length (cn_input c1)"
    using shrinks_serve [of opts K request, unfolded shrinks_def] 2 by auto
  ultimately show ?case by simp
qed

declare transmission_task.simps [simp del]

definition handle_client_task :: "NbdServerOptions \<Rightarrow> (dev_call \<Rightarrow> ('d, bytes) prog) \<Rightarrow> ('d, unit) task" where
  "handle_client_task opts K = tbnd (own_step (negotiate opts)) (\<lambda>_. transmission_task opts K)"

definition connection :: "NbdServerOptions \<Rightarrow> (dev_call \<Rightarrow> ('d, bytes) prog) \<Rightarrow> bytes \<Rightarrow> ('d, unit res \<times> streams) prog" where
  "connection opts K sent = handle_client_task opts K \<lparr>cn_input = sent, cn_output = [], cn_backend = ()\<rparr>"

section \<open>The server\<close>

definition spawn :: "('d, 'a) prog \<Rightarrow> ('d, 'a) pool \<Rightarrow> ('d, 'a) pool" where
  "spawn p c = c\<lparr>po_threads := po_threads c @ [p]\<rparr>"

inductive serve :: "NbdServerOptions \<Rightarrow> (dev_call \<Rightarrow> ('d, bytes) prog) \<Rightarrow> 'd \<Rightarrow> bytes list \<Rightarrow> ('d, unit res \<times> streams) pool \<Rightarrow> bool"
  for opts K d where
  listening: "serve opts K d [] (pool_start d [])"
| accepted: "serve opts K d clients c \<Longrightarrow> serve opts K d (clients @ [sent]) (spawn (connection opts K sent) c)"
| working: "serve opts K d clients c \<Longrightarrow> pool_step c c' \<Longrightarrow> serve opts K d clients c'"

lemma step_spawn: "pool_step c c' \<Longrightarrow> pool_step (spawn p c) (spawn p c')"
proof (erule pool_step.cases)
  fix i a b assume "c = a" "c' = b" and t: "thread_step i a = Some b"
  moreover have "thread_step i (spawn p a) = Some (spawn p b)"
    using t by (cases "po_threads a ! i") (auto simp: thread_step_def spawn_def nth_append list_update_append split: if_splits)
  ultimately show ?thesis by (auto intro: pool_step.thread)
qed

lemma run_spawn: "pool_run c c' \<Longrightarrow> pool_run (spawn p c) (spawn p c')"
  by (induction rule: pool_run.induct) (auto intro: pool_run.intros step_spawn)

lemma serve_pool: "serve opts K d clients c \<Longrightarrow> pool_run (pool_start d (map (connection opts K) clients)) c"
proof (induction rule: serve.induct)
  case (accepted clients c sent)
  have "spawn (connection opts K sent) (pool_start d (map (connection opts K) clients)) = pool_start d (map (connection opts K) (clients @ [sent]))"
    by (simp add: spawn_def pool_start_def)
  then show ?case using run_spawn [OF accepted.IH] by metis
qed (auto intro: pool_run.intros)

lemma serve_start: "serve opts K d clients (pool_start d (map (connection opts K) clients))"
proof (induction clients rule: rev_induct)
  case (snoc inp clients)
  then show ?case using serve.accepted by (fastforce simp: spawn_def pool_start_def)
qed (simp add: serve.listening)

lemma serve_more: "pool_run c c' \<Longrightarrow> serve opts K d clients c \<Longrightarrow> serve opts K d clients c'"
  by (induction rule: pool_run.induct) (auto intro: serve.working)

section \<open>Connections are orderly\<close>

lemma orderly_own: "orderly {} (own_step m c) {}"
  by (simp add: own_step_def)

lemma orderly_shared: "orderly {} p {} \<Longrightarrow> orderly {} (shared_call p c) {}"
  unfolding shared_call_def by (intro orderly_pcatch) auto

lemma orderly_tbnd: "(\<And>c. orderly {} (t c) {}) \<Longrightarrow> (\<And>x c. orderly {} (f x c) {}) \<Longrightarrow> orderly {} (tbnd t f c) {}"
  unfolding tbnd_def by (intro orderly_pbnd) (auto split: sum.split)

lemma orderly_serve: "(\<And>c. orderly {} (K c) {}) \<Longrightarrow> orderly {} (serve_request_task opts K request s) {}"
  unfolding serve_request_task_def by (auto intro!: orderly_tbnd orderly_own orderly_shared simp del: orderly.simps)

lemma orderly_transmission: "(\<And>c. orderly {} (K c) {}) \<Longrightarrow> orderly {} (transmission_task opts K s) {}"
proof (induction opts K s rule: transmission_task.induct)
  case (1 opts K c)
  show ?case
    using 1 by (subst transmission_task.simps)
      (fastforce intro!: orderly_pbnd_set orderly_serve split: prod.split sum.split)
qed

lemma orderly_connection: "(\<And>c. orderly {} (K c) {}) \<Longrightarrow> orderly {} (connection opts K sent) {}"
  unfolding connection_def handle_client_task_def by (intro orderly_tbnd orderly_own orderly_transmission)

section \<open>The streams of a connection\<close>

definition attach :: "streams \<Rightarrow> 'd \<Rightarrow> 'd conn" where
  "attach c d = \<lparr>cn_input = cn_input c, cn_output = cn_output c, cn_backend = d\<rparr>"

definition detach :: "'d conn \<Rightarrow> streams" where
  "detach c = \<lparr>cn_input = cn_input c, cn_output = cn_output c, cn_backend = ()\<rparr>"

lemma attach_sel [simp]:
  "cn_input (attach c d) = cn_input c" "cn_output (attach c d) = cn_output c" "cn_backend (attach c d) = d"
  "detach (attach c d) = c"
  by (simp_all add: attach_def detach_def)

lemma attach_detach [simp]: "attach (detach c) (cn_backend c) = c"
  by (simp add: attach_def detach_def)

definition beside_device :: "(streams, 'a) st \<Rightarrow> ('d conn, 'a) st \<Rightarrow> bool" where
  "beside_device m m' \<longleftrightarrow> (\<forall>c d. m' (attach c d) = (fst (m c), attach (snd (m c)) d))"

named_theorems stream_rules

lemma stream_input [stream_rules]: "beside_device (on_input m) (on_input m)"
  by (simp add: beside_device_def on_input_def attach_def split: prod.split)

lemma stream_emit [stream_rules]: "beside_device (emit bs) (emit bs)"
  by (simp add: beside_device_def attach_def)

lemma stream_ret [stream_rules]: "beside_device (ret x) (ret x)"
  by (simp add: beside_device_def)

lemma stream_fail [stream_rules]: "beside_device (fail e) (fail e)"
  by (simp add: beside_device_def fail_def)

lemma stream_lift [stream_rules]: "beside_device (lift e) (lift e)"
  by (simp add: beside_device_def)

lemma stream_bnd [stream_rules]:
  "beside_device m m' \<Longrightarrow> (\<And>x. beside_device (f x) (f' x)) \<Longrightarrow> beside_device (bnd m f) (bnd m' f')"
  by (auto simp: beside_device_def bnd_apply split: sum.split prod.split)

lemma stream_reply [stream_rules]: "beside_device (write_reply e h) (write_reply e h)"
  unfolding write_reply_def by (intro stream_rules)

lemma stream_option [stream_rules]: "beside_device (handle_option opts option data) (handle_option opts option data)"
  unfolding handle_option_def Let_def write_export_info_def write_option_reply_def
  by (auto intro!: stream_rules split: option.split)

lemma negotiate_loop_attach:
  "negotiate_loop opts (attach c d) = (fst (negotiate_loop opts c), attach (snd (negotiate_loop opts c)) d)"
proof (induction opts c rule: negotiate_loop.induct)
  case (1 opts c)
  note i = stream_input [of read_option, unfolded beside_device_def, rule_format, of c d]
  note o = stream_option [of opts, unfolded beside_device_def, rule_format]
  show ?case
    using 1 by (subst (1 2 3) negotiate_loop.simps) (auto simp: i o split: prod.split sum.split)
qed

lemma stream_negotiate_loop [stream_rules]: "beside_device (negotiate_loop opts) (negotiate_loop opts)"
  by (simp add: beside_device_def negotiate_loop_attach)

lemma stream_negotiate [stream_rules]: "beside_device (negotiate opts) (negotiate opts)"
  unfolding negotiate_def by (intro stream_rules)

section \<open>A connection that runs alone\<close>

definition alone :: "('d \<Rightarrow> bool) \<Rightarrow> ('d, 'a) task \<Rightarrow> ('d conn, 'a) st \<Rightarrow> bool" where
  "alone P t m \<longleftrightarrow> (\<forall>c d. P d \<longrightarrow> (case m (attach c d) of (x, c') \<Rightarrow>
     run (t c) d = (Inr (x, detach c'), cn_backend c') \<and> P (cn_backend c')))"

lemma alone_own: "beside_device m m' \<Longrightarrow> alone P (own_step m) m'"
  by (simp add: alone_def beside_device_def own_step_def)

lemma alone_tbnd:
  assumes "alone P t m" "\<And>x. alone P (f x) (g x)"
  shows "alone P (tbnd t f) (bnd m g)"
  unfolding alone_def
proof (intro allI impI)
  fix c d assume "P d"
  obtain x c' where m: "m (attach c d) = (x, c')" by force
  then have t: "run (t c) d = (Inr (x, detach c'), cn_backend c')" "P (cn_backend c')"
    using assms(1) [unfolded alone_def, rule_format, OF \<open>P d\<close>, of c] by simp_all
  show "case bnd m g (attach c d) of (x, c') \<Rightarrow> run (tbnd t f c) d = (Inr (x, detach c'), cn_backend c') \<and> P (cn_backend c')"
  proof (cases x)
    case (Inr y)
    have "case g y c' of (x, c') \<Rightarrow> run (f y (detach c1)) d1 = (Inr (x, detach c'), cn_backend c') \<and> P (cn_backend c')"
      if "c1 = c'" "d1 = cn_backend c'" for c1 d1
      using assms(2) [of y, unfolded alone_def, rule_format, OF t(2), of "detach c'"] that by simp
    then show ?thesis using m t Inr by (simp add: tbnd_def bnd_apply)
  qed (use m t in \<open>simp add: tbnd_def bnd_apply\<close>)
qed

lemma alone_call:
  assumes "\<And>d. P d \<Longrightarrow> run p d = m d \<and> P (snd (m d))"
  shows "alone P (shared_call p) (on_disk m)"
  using assms by (fastforce simp: alone_def shared_call_def on_disk_def attach_def detach_def split: prod.split)

lemma alone_call_unit:
  assumes "\<And>d. P d \<Longrightarrow> run p d = bnd m (\<lambda>_. ret []) d \<and> P (snd (m d))" and "alone P f g"
  shows "alone P (tbnd (shared_call p) (\<lambda>_. f)) (bnd (on_disk m) (\<lambda>_. g))"
proof -
  have "alone P (shared_call p) (bnd (on_disk m) (\<lambda>_. ret []))"
    using assms(1) by (fastforce simp: alone_def shared_call_def on_disk_def attach_def detach_def bnd_apply split: prod.split sum.split)
  from alone_tbnd [OF this, of "\<lambda>_. f" "\<lambda>_. g", OF assms(2)] show ?thesis by (simp add: bnd_assoc)
qed

text \<open>The calls of a device are the operations of its \<open>NbdBackend\<close>.\<close>

lemma alone_device:
  assumes "device_config d = (bmap, ahead)"
  shows "run (call_prog L B bmap ahead (ReadCall offset len)) d = nb_read_at (device_nbd L B) offset len d"
    "run (call_prog L B bmap ahead (WriteCall offset bs)) d = bnd (nb_write_at (device_nbd L B) offset bs) (\<lambda>_. ret []) d"
    "run (call_prog L B bmap ahead FlushCall) d = bnd (nb_flush (device_nbd L B)) (\<lambda>_. ret []) d"
    "device_config (snd (nb_read_at (device_nbd L B) offset len d)) = (bmap, ahead)"
    "device_config (snd (nb_write_at (device_nbd L B) offset bs d)) = (bmap, ahead)"
    "device_config (snd (nb_flush (device_nbd L B) d)) = (bmap, ahead)"
proof -
  have d: "bmap = bd_map d" "ahead = bd_read_ahead_objects d" using assms by (simp_all add: device_config_def)
  note op = call_op_def dev_exec_def device_nbd_def
  show "run (call_prog L B bmap ahead (ReadCall offset len)) d = nb_read_at (device_nbd L B) offset len d"
    "run (call_prog L B bmap ahead (WriteCall offset bs)) d = bnd (nb_write_at (device_nbd L B) offset bs) (\<lambda>_. ret []) d"
    "run (call_prog L B bmap ahead FlushCall) d = bnd (nb_flush (device_nbd L B)) (\<lambda>_. ret []) d"
    by (simp_all add: d run_call op)
  show "device_config (snd (nb_read_at (device_nbd L B) offset len d)) = (bmap, ahead)"
    using call_config [of L B "ReadCall offset len" d] assms by (simp add: op)
  show "device_config (snd (nb_write_at (device_nbd L B) offset bs d)) = (bmap, ahead)"
    using call_config [of L B "WriteCall offset bs" d] assms by (simp add: op bnd_apply split: prod.splits sum.splits)
  show "device_config (snd (nb_flush (device_nbd L B) d)) = (bmap, ahead)"
    using call_config [of L B FlushCall d] assms by (simp add: op bnd_apply split: prod.splits sum.splits)
qed

abbreviation configured :: "BlockMap \<Rightarrow> u64 \<Rightarrow> 'b BlockDevice \<Rightarrow> bool" where
  "configured bmap ahead d \<equiv> device_config d = (bmap, ahead)"

lemma alone_serve:
  "alone (configured bmap ahead) (serve_request_task opts (call_prog L B bmap ahead) request) (serve_request opts (device_nbd L B) request)"
  unfolding serve_request_task_def serve_request_def
  by (auto intro!: alone_call_unit alone_call alone_tbnd alone_own stream_rules simp: alone_device)

lemma alone_transmission: "alone (configured bmap ahead) (transmission_task opts (call_prog L B bmap ahead)) (transmission opts (device_nbd L B))"
proof -
  have "case transmission opts (device_nbd L B) (attach c d) of (x, c') \<Rightarrow>
      run (transmission_task opts (call_prog L B bmap ahead) c) d = (Inr (x, detach c'), cn_backend c') \<and> configured bmap ahead (cn_backend c')"
    if "configured bmap ahead d" for c d
    using that
  proof (induction "length (cn_input c)" arbitrary: c d rule: less_induct)
    case less
    note i = stream_input [of read_from, unfolded beside_device_def, rule_format, of c d]
    obtain z c1 where r: "on_input read_from c = (z, c1)" by force
    show ?case
    proof (cases z)
      case (Inl e)
      then show ?thesis using less.prems by (subst transmission.simps, subst transmission_task.simps) (simp add: r i)
    next
      case (Inr request)
      have len: "length (cn_input c1) < length (cn_input c)"
        using on_input_frame [OF r] Inr read_length by auto
      obtain y c2 where s: "serve_request opts (device_nbd L B) request (attach c1 d) = (y, c2)" by force
      then have t: "run (serve_request_task opts (call_prog L B bmap ahead) request c1) d = (Inr (y, detach c2), cn_backend c2)"
        "configured bmap ahead (cn_backend c2)"
        using alone_serve [of bmap ahead opts L B request, unfolded alone_def, rule_format, OF less.prems, of c1] by simp_all
      have "length (cn_input (detach c2)) < length (cn_input c)"
        using serve_request_length [of opts "device_nbd L B" request "attach c1 d"] len s by (simp add: detach_def)
      from less.hyps [OF this t(2)] show ?thesis
        using Inr t by (subst transmission.simps, subst transmission_task.simps) (auto simp: r i s bnd_apply split: sum.splits)
    qed
  qed
  then show ?thesis by (simp add: alone_def)
qed

end
