(* ===== verification/ConcurrentRel.thy ===== *)
theory ConcurrentRel
  imports Concurrent
begin

text \<open>
  Reads and flushes at the same time. The disk does not change, so the invariant of a pool of reads
  and flushes is \<open>dev_rel\<close> for one disk, together with what a flush that started from the dirty set
  \<open>D\<close> may still rely on when another flush has already cleared it. What every action may do to the
  others is \<open>conc_guar\<close>: clean objects stay clean and keep their generation, uploaded objects stay
  uploaded, the backend loses nothing. No lock is needed for this, only the order of the actions.
\<close>

section \<open>Invariant and guarantee\<close>

definition committed_entry :: "DirtyObject \<Rightarrow> 'b BlockDevice \<Rightarrow> bool" where
  "committed_entry x d \<longleftrightarrow> (let e = m_objects (bd_manifest d) ! unat (do_object_id x) in
     mo_generation e = do_generation x \<and> mo_sha256 e = Some (do_sha256 x) \<and> \<not> mo_zero e)"

definition snapshot_ok :: "DirtyObject list \<Rightarrow> 'b BlockDevice \<Rightarrow> bool" where
  "snapshot_ok D d \<longleftrightarrow> distinct (map do_object_id D) \<and>
     (\<forall>x\<in>set D. do_cache_path x = cache_path (bd_store d) (do_object_id x) (do_generation x) \<and>
        unat (do_object_id x) < length (m_objects (bd_manifest d)))"

definition conc_inv :: "libs \<Rightarrow> ('b \<Rightarrow> bool) \<Rightarrow> ('b \<Rightarrow> i32 \<rightharpoonup> bytes) \<Rightarrow> BlockMap \<Rightarrow> bytes \<Rightarrow> DirtyObject list \<Rightarrow> 'b BlockDevice \<Rightarrow> bool" where
  "conc_inv L invar stored bmap disk D d \<longleftrightarrow> bd_map d = bmap \<and> dev_rel L invar stored d disk \<and> snapshot_ok D d \<and>
     (D \<noteq> [] \<longrightarrow> m_generation (bd_manifest d) \<le> max_generation D) \<and>
     (dirty_objects (bd_store d) = D \<or>
      ls_dirty_objects (bd_store d) = [] \<and> max_generation D \<le> m_generation (bd_manifest d) \<and> (\<forall>x\<in>set D. committed_entry x d))"

definition conc_guar :: "libs \<Rightarrow> ('b \<Rightarrow> i32 \<rightharpoonup> bytes) \<Rightarrow> bytes \<Rightarrow> DirtyObject list \<Rightarrow> 'b BlockDevice \<Rightarrow> 'b BlockDevice \<Rightarrow> bool" where
  "conc_guar L stored disk D d d' \<longleftrightarrow> bd_map d' = bd_map d \<and> bd_committer d' = bd_committer d \<and>
     bd_read_ahead_objects d' = bd_read_ahead_objects d \<and> ls_cache_dir (bd_store d') = ls_cache_dir (bd_store d) \<and>
     map mo_object_id (m_objects (bd_manifest d')) = map mo_object_id (m_objects (bd_manifest d)) \<and>
     stored (bd_backend d) \<subseteq>\<^sub>m stored (bd_backend d') \<and> m_generation (bd_manifest d) \<le> m_generation (bd_manifest d') \<and>
     (ls_dirty_objects (bd_store d) = [] \<longrightarrow> ls_dirty_objects (bd_store d') = []) \<and>
     (\<forall>i. dirty_object i (bd_store d) = None \<longrightarrow> dirty_object i (bd_store d') = None \<and>
        (unat i < length (m_objects (bd_manifest d)) \<longrightarrow>
           mo_generation (m_objects (bd_manifest d') ! unat i) = mo_generation (m_objects (bd_manifest d) ! unat i) \<and>
           mo_zero (m_objects (bd_manifest d') ! unat i) = mo_zero (m_objects (bd_manifest d) ! unat i))) \<and>
     (\<forall>j < length (m_objects (bd_manifest d)).
        uploaded L (stored (bd_backend d)) d disk j \<longrightarrow> uploaded L (stored (bd_backend d')) d' disk j) \<and>
     (\<forall>x\<in>set D. committed_entry x d \<longrightarrow> committed_entry x d')"

lemma guar_length: "conc_guar L stored disk D d d' \<Longrightarrow> length (m_objects (bd_manifest d')) = length (m_objects (bd_manifest d))"
  by (metis conc_guar_def length_map)

lemma guarD:
  assumes "conc_guar L stored disk D d d'"
  shows "bd_map d' = bd_map d" "bd_committer d' = bd_committer d" "device_object_size d' = device_object_size d"
    "bd_read_ahead_objects d' = bd_read_ahead_objects d" "cache_path (bd_store d') = cache_path (bd_store d)"
    "length (m_objects (bd_manifest d')) = length (m_objects (bd_manifest d))" "stored (bd_backend d) \<subseteq>\<^sub>m stored (bd_backend d')"
    "m_generation (bd_manifest d) \<le> m_generation (bd_manifest d')"
    "ls_dirty_objects (bd_store d) = [] \<Longrightarrow> ls_dirty_objects (bd_store d') = []"
    "dirty_object i (bd_store d) = None \<Longrightarrow> dirty_object i (bd_store d') = None"
    "dirty_object i (bd_store d) = None \<Longrightarrow> unat i < length (m_objects (bd_manifest d)) \<Longrightarrow>
       mo_generation (m_objects (bd_manifest d') ! unat i) = mo_generation (m_objects (bd_manifest d) ! unat i)"
    "dirty_object i (bd_store d) = None \<Longrightarrow> unat i < length (m_objects (bd_manifest d)) \<Longrightarrow>
       mo_zero (m_objects (bd_manifest d') ! unat i) = mo_zero (m_objects (bd_manifest d) ! unat i)"
    "j < length (m_objects (bd_manifest d)) \<Longrightarrow> uploaded L (stored (bd_backend d)) d disk j \<Longrightarrow> uploaded L (stored (bd_backend d')) d' disk j"
    "x \<in> set D \<Longrightarrow> committed_entry x d \<Longrightarrow> committed_entry x d'"
  using assms guar_length [OF assms] by (auto simp: conc_guar_def device_object_size_def cache_path_def fun_eq_iff)

lemma guar_refl: "conc_guar L stored disk D d d"
  by (simp add: conc_guar_def)

lemma guar_trans: "conc_guar L stored disk D a b \<Longrightarrow> conc_guar L stored disk D b c \<Longrightarrow> conc_guar L stored disk D a c"
  using guar_length [of L stored disk D a b] unfolding conc_guar_def by (auto intro: map_le_trans)

text \<open>Actions on cache rows, cache files, counters and the backend.\<close>

lemma committed_same: "bd_manifest d' = bd_manifest d \<Longrightarrow> committed_entry x d' = committed_entry x d"
  by (simp add: committed_entry_def)

lemma conc_frame:
  assumes inv: "conc_inv L invar stored bmap disk D d" and core: "same_core d d'"
    and b: "invar (bd_backend d')" "stored (bd_backend d) \<subseteq>\<^sub>m stored (bd_backend d')"
    and rows: "cache_rows_ok (bd_store d')"
    and files: "\<And>p. ls_files (bd_store d') p = ls_files (bd_store d) p \<or>
      (\<exists>i < length (m_objects (bd_manifest d)). dirty_object (of_nat i) (bd_store d) = None \<and>
         p = cache_path (bd_store d) (mo_object_id (m_objects (bd_manifest d) ! i)) (mo_generation (m_objects (bd_manifest d) ! i)) \<and>
         ls_files (bd_store d') p = Some (entry_seal L (bm_object_size (bd_map d)) (m_objects (bd_manifest d) ! i)
           (block_of (device_object_size d) i disk)))"
  shows "conc_inv L invar stored bmap disk D d' \<and> conc_guar L stored disk D d d'"
proof -
  have rel: "dev_rel L invar stored d disk" using inv by (simp add: conc_inv_def)
  have m: "bd_manifest d' = bd_manifest d" "bd_map d' = bd_map d" using core by (simp_all add: same_core_def)
  note st = same_core_store [OF core]
  have shape: "shape_ok d disk" using rel by (simp add: dev_rel_def)
  have up: "uploaded L (stored (bd_backend d')) d' disk j"
    if j: "j < length (m_objects (bd_manifest d))" and u: "uploaded L (stored (bd_backend d)) d disk j" for j
  proof -
    let ?e = "m_objects (bd_manifest d) ! j"
    let ?p = "cache_path (bd_store d) (mo_object_id ?e) (mo_generation ?e)"
    have "cached_ok L (bm_object_size (bd_map d)) (bd_store d') ?e (block_of (device_object_size d) j disk)"
      using files [of ?p]
    proof (elim disjE exE conjE)
      assume "ls_files (bd_store d') ?p = ls_files (bd_store d) ?p"
      then show ?thesis using u st by (simp add: uploaded_def cached_ok_def)
    next
      fix k assume k: "k < length (m_objects (bd_manifest d))"
        and p: "?p = cache_path (bd_store d) (mo_object_id (m_objects (bd_manifest d) ! k)) (mo_generation (m_objects (bd_manifest d) ! k))"
        and f: "ls_files (bd_store d') ?p = Some (entry_seal L (bm_object_size (bd_map d)) (m_objects (bd_manifest d) ! k)
           (block_of (device_object_size d) k disk))"
      have "(of_nat j :: u64) = of_nat k"
        using p shape_ids [OF shape j] shape_ids [OF shape k] by (simp add: cache_path_def object_path_inj)
      then have "j = k" using j k shape by (simp add: of_nat_eq_small shape_ok_def)
      then show ?thesis using f st by (simp add: cached_ok_def)
    qed
    then show ?thesis using u b(2) by (auto simp: uploaded_def m st intro: remote_ok_mono)
  qed
  have "dev_rel L invar stored d' disk" by (rule dev_rel_frame [OF rel core b rows files])
  moreover have "conc_guar L stored disk D d d'"
    using core st up b(2) committed_same [OF m(1)] by (simp add: conc_guar_def m same_core_def)
  ultimately show ?thesis
    using inv st committed_same [OF m(1)] core by (auto simp: conc_inv_def snapshot_ok_def m same_core_def)
qed

lemma conc_same_files:
  assumes inv: "conc_inv L invar stored bmap disk D d" and fr: "store_frame (bd_store d) s'" "ls_files s' = ls_files (bd_store d)"
    and b: "invar b'" "stored (bd_backend d) \<subseteq>\<^sub>m stored b'"
    and d': "d' = d\<lparr>bd_store := s', bd_metrics := m', bd_backend := b'\<rparr>"
  shows "conc_inv L invar stored bmap disk D d' \<and> conc_guar L stored disk D d d'"
proof -
  have "cache_rows_ok s'" using inv fr by (simp add: conc_inv_def dev_rel_def store_ok_def store_frame_def)
  then show ?thesis using same_core_store_frame [OF fr(1)] fr(2) b
    by (intro conc_frame [OF inv]) (simp_all add: d')
qed

lemma conc_fill:
  assumes inv: "conc_inv L invar stored bmap disk D d" and fr: "store_frame (bd_store d) s'"
    and i: "unat i < length (m_objects (bd_manifest d))" "dirty_object i (bd_store d) = None"
    and files: "ls_files s' = (ls_files (bd_store d))
      (cache_path (bd_store d) i (mo_generation (m_objects (bd_manifest d) ! unat i)) \<mapsto>
       entry_seal L (bm_object_size (bd_map d)) (m_objects (bd_manifest d) ! unat i) (block_of (device_object_size d) (unat i) disk))"
    and d': "d' = d\<lparr>bd_store := s'\<rparr>"
  shows "conc_inv L invar stored bmap disk D d' \<and> conc_guar L stored disk D d d'"
proof -
  have rel: "dev_rel L invar stored d disk" using inv by (simp add: conc_inv_def)
  then have id: "mo_object_id (m_objects (bd_manifest d) ! unat i) = i" using shape_ids [of d disk, OF _ i(1)] by (simp add: dev_rel_def)
  have core: "same_core d d'" using fr by (simp add: same_core_def store_frame_def d')
  show ?thesis
    using rel fr i(2) by (intro conc_frame [OF inv core])
      (auto simp: d' files id dev_rel_def store_ok_def store_frame_def intro!: exI [of _ "unat i"] i(1))
qed


text \<open>Replacing an entry by one that is uploaded keeps the relation, whether the object is dirty or not.\<close>

lemma dev_rel_uploaded_entry:
  assumes rel: "dev_rel L invar stored d disk" and i: "unat i < length (m_objects (bd_manifest d))"
    and d': "d' = d\<lparr>bd_manifest := commit_entry (unat i) g r sha (bd_manifest d)\<rparr>"
    and up: "uploaded L (stored (bd_backend d)) d' disk (unat i)"
  shows "dev_rel L invar stored d' disk"
proof -
  have other: "m_objects (bd_manifest d') ! j = m_objects (bd_manifest d) ! j" if "j \<noteq> unat i" for j
    using that by (simp add: d' commit_entry_objects)
  have len: "length (m_objects (bd_manifest d')) = length (m_objects (bd_manifest d))" by (simp add: d' commit_entry_objects)
  have sel: "bd_store d' = bd_store d" "bd_map d' = bd_map d" "bd_backend d' = bd_backend d" "device_object_size d' = device_object_size d"
    "m_generation (bd_manifest d') = m_generation (bd_manifest d)"
    by (simp_all add: d' device_object_size_def commit_entry_objects)
  have "shape_ok d' disk" using rel by (simp add: dev_rel_def shape_ok_def len sel) (simp add: d' commit_entry_ids)
  moreover have "objects_ok L (stored (bd_backend d)) d' disk"
    unfolding objects_ok_def sel len
  proof (intro conjI allI impI)
    fix j assume j: "j < length (m_objects (bd_manifest d))" "dirty_object (of_nat j) (bd_store d) = None"
    have "uploaded L (stored (bd_backend d)) d' disk j"
    proof (cases "j = unat i")
      case False
      then show ?thesis using rel j other [OF False] by (simp add: uploaded_def dev_rel_def objects_ok_def sel)
    qed (use up in simp)
    then show "remote_ok L (bm_object_size (bd_map d)) (stored (bd_backend d)) (m_objects (bd_manifest d') ! j) (block_of (device_object_size d) j disk)"
      "cached_ok L (bm_object_size (bd_map d)) (bd_store d) (m_objects (bd_manifest d') ! j) (block_of (device_object_size d) j disk)"
      "mo_generation (m_objects (bd_manifest d') ! j) \<le> m_generation (bd_manifest d)"
      by (simp_all add: uploaded_def sel)
  qed (use rel in \<open>auto simp: dev_rel_def objects_ok_def\<close>)
  ultimately show ?thesis using rel by (simp add: dev_rel_def sel)
qed

section \<open>Reading beside other calls\<close>

locale shared_device = remote_backend B invar room stored
  for B :: "'b backend" and invar and room and stored +
  fixes L :: libs and bmap :: BlockMap and disk :: bytes and D :: "DirtyObject list"

sublocale shared_device \<subseteq> interference "conc_inv L invar stored bmap disk D" "conc_guar L stored disk D" "\<lambda>d. room (bd_backend d)"
  by unfold_locales (auto intro: guar_refl guar_trans)

context shared_device
begin

abbreviation "cinv \<equiv> conc_inv L invar stored bmap disk D"
abbreviation "cguar \<equiv> conc_guar L stored disk D"
abbreviation "safely \<equiv> safe cinv cguar (\<lambda>d. room (bd_backend d))"
abbreviation "blk i \<equiv> block_of (unat (bm_object_size bmap)) (unat (i :: u64)) disk"
abbreviation "seal i e \<equiv> entry_seal L (bm_object_size bmap) e (blk i)"

lemma invD:
  assumes "cinv d"
  shows "dev_rel L invar stored d disk" "invar (bd_backend d)" "shape_ok d disk" "bd_map d = bmap"
    "device_object_size d = unat (bm_object_size bmap)"
  using assms by (simp_all add: conc_inv_def dev_rel_def device_object_size_def)

text \<open>What a reader knows of the entry it has looked up, until it is done.\<close>

definition entry_known :: "u64 \<Rightarrow> ManifestObject \<Rightarrow> 'b BlockDevice \<Rightarrow> bool" where
  "entry_known i e d \<longleftrightarrow> unat i < length (m_objects (bd_manifest d)) \<and> dirty_object i (bd_store d) = None \<and>
     mo_object_id e = i \<and> mo_zero (m_objects (bd_manifest d) ! unat i) = mo_zero e \<and>
     mo_generation (m_objects (bd_manifest d) ! unat i) = mo_generation e \<and>
     remote_ok L (bm_object_size bmap) (stored (bd_backend d)) e (blk i)"

lemma entry_known_later: "entry_known i e d \<Longrightarrow> cguar d d' \<Longrightarrow> entry_known i e d'"
  using guarD [of L stored disk D d d'] by (auto simp: entry_known_def intro: remote_ok_mono)

lemma entry_known_seal:
  assumes "entry_known i e d" "cinv d"
  shows "entry_seal L (bm_object_size bmap) (m_objects (bd_manifest d) ! unat i) b = entry_seal L (bm_object_size bmap) e b"
  using assms shape_ids [of d disk "unat i"] invD(3) [OF assms(2)] by (simp add: entry_seal_def entry_known_def)

lemma known_decode:
  assumes "entry_known i e d" "cinv d" "digest32 L"
  shows "decode L (seal i e) i (mo_generation e) =
    Inr \<lparr>env_object_id = i, env_generation = mo_generation e, env_object_size = bm_object_size bmap, env_flags = 0,
      env_payload = blk i\<rparr>"
    and "length (blk i) = unat (bm_object_size bmap)"
proof -
  show l: "length (blk i) = unat (bm_object_size bmap)"
    using assms invD(3,5) [OF assms(2)] by (intro length_block_of) (auto simp: entry_known_def shape_ok_def)
  show "decode L (seal i e) i (mo_generation e) =
    Inr \<lparr>env_object_id = i, env_generation = mo_generation e, env_object_size = bm_object_size bmap, env_flags = 0,
      env_payload = blk i\<rparr>"
    using assms l by (simp add: entry_seal_def decode_sealed entry_known_def)
qed

text \<open>The actions of a read.\<close>

lemma metrics_step:
  assumes "cinv d" "on_metrics g d = (x, d')"
  shows "cinv d' \<and> cguar d d' \<and> bd_backend d' = bd_backend d"
proof -
  have "store_frame (bd_store d) (bd_store d)" by (simp add: store_frame_def)
  from conc_same_files [OF assms(1) this refl invD(2) [OF assms(1)] map_le_refl refl, of "g (bd_metrics d)"]
  show ?thesis using assms(2) by (auto simp: on_metrics_def)
qed

lemma cache_step:
  assumes "cinv d" "read_cache L i g sha (bd_store d) = (y, s')"
  shows "cinv (d\<lparr>bd_store := s'\<rparr>) \<and> cguar d (d\<lparr>bd_store := s'\<rparr>)"
    and "cinv (d\<lparr>bd_store := s', bd_metrics := m\<rparr>) \<and> cguar d (d\<lparr>bd_store := s', bd_metrics := m\<rparr>)"
proof -
  note rc = read_cache_spec [OF assms(2)]
  have fr: "store_frame (bd_store d) s'" "ls_files s' = ls_files (bd_store d)" using rc by simp_all
  note sf = conc_same_files [OF assms(1) fr invD(2) [OF assms(1)] map_le_refl refl]
  show "cinv (d\<lparr>bd_store := s'\<rparr>) \<and> cguar d (d\<lparr>bd_store := s'\<rparr>)" using sf [of "bd_metrics d"] by simp
  show "cinv (d\<lparr>bd_store := s', bd_metrics := m\<rparr>) \<and> cguar d (d\<lparr>bd_store := s', bd_metrics := m\<rparr>)" using sf [of m] by simp
qed

lemma backend_step:
  assumes "cinv d" "invar b'" "stored (bd_backend d) \<subseteq>\<^sub>m stored b'"
  shows "cinv (d\<lparr>bd_backend := b'\<rparr>) \<and> cguar d (d\<lparr>bd_backend := b'\<rparr>)"
proof -
  have "store_frame (bd_store d) (bd_store d)" by (simp add: store_frame_def)
  from conc_same_files [OF assms(1) this refl assms(2,3) refl, of "bd_metrics d"] show ?thesis by simp
qed

lemma fill_step:
  assumes d: "cinv d" and k: "entry_known i e d" and wc: "on_store (write_cache L i (mo_generation e) (seal i e) False) d = (x, d')"
  shows "cinv d' \<and> cguar d d' \<and> bd_backend d' = bd_backend d"
proof -
  obtain y s' where w: "write_cache L i (mo_generation e) (seal i e) False (bd_store d) = (y, s')" by force
  note ws = write_cache_spec [OF w]
  have "ls_files s' = (ls_files (bd_store d)) (cache_path (bd_store d) i (mo_generation (m_objects (bd_manifest d) ! unat i)) \<mapsto>
       entry_seal L (bm_object_size (bd_map d)) (m_objects (bd_manifest d) ! unat i) (block_of (device_object_size d) (unat i) disk))"
    using ws k entry_known_seal [OF k d, of "blk i"] by (simp add: entry_known_def invD [OF d])
  from conc_fill [OF d ws [THEN conjunct1] _ _ this refl] k show ?thesis
    using wc w by (auto simp: on_store_def entry_known_def)
qed

lemma safe_metrics: "safely (\<lambda>x n' d'. n' = n) (act (on_metrics g)) n d"
  by (rule safe_act_same) (simp add: metrics_step)

lemma safe_elapsed: "safely (\<lambda>x n' d'. n' = n) (act (bnd (gets h) (\<lambda>ms. on_metrics (g ms)))) n d"
  by (rule safe_act_same) (simp add: metrics_step bnd_apply)

lemma cache_result:
  assumes d: "cinv d" and k: "entry_known i e d" and z: "\<not> mo_zero e" and sha: "mo_sha256 e = Some sha"
    and rc: "read_cache L i (mo_generation e) sha (bd_store d) = (y, s')"
  shows "y = Inr None \<or> y = Inr (Some (seal i e))"
proof -
  have "cached_ok L (bm_object_size bmap) (bd_store d) (m_objects (bd_manifest d) ! unat i) (blk i)"
    using clean_entry(5) [OF invD(1) [OF d], of i] k by (simp add: entry_known_def invD [OF d])
  moreover have "mo_object_id (m_objects (bd_manifest d) ! unat i) = i"
    using shape_ids [OF invD(3) [OF d], of "unat i"] k by (simp add: entry_known_def)
  ultimately show ?thesis
    using read_cache_spec [OF rc] entry_known_seal [OF k d, of "blk i"] k z sha
    by (auto simp: cached_ok_def entry_known_def remote_ok_def)
qed

lemma safe_cache_section:
  assumes k: "entry_known i e d0" and L: "digest32 L" and z: "\<not> mo_zero e" and sha: "mo_sha256 e = Some sha"
  shows "safely (\<lambda>x n' d'. \<forall>bs. x = Inr (Some bs) \<longrightarrow> bs = blk i) (act (cache_section L i (mo_generation e) sha)) n d0"
proof (rule safe_act_same)
  fix d x d' assume g: "cguar d0 d" and d: "cinv d" and run: "cache_section L i (mo_generation e) sha d = (x, d')"
  note kd = entry_known_later [OF k g]
  obtain y s' where rc: "read_cache L i (mo_generation e) sha (bd_store d) = (y, s')" by force
  show "cinv d' \<and> cguar d d' \<and> (\<forall>r. room (bd_backend d) r \<longrightarrow> room (bd_backend d') r) \<and>
    (\<forall>d2. cguar d' d2 \<longrightarrow> cinv d2 \<longrightarrow> (\<forall>bs. x = Inr (Some bs) \<longrightarrow> bs = blk i))"
    using cache_result [OF d kd z sha rc] run cache_step [OF d rc] known_decode [OF kd d L] invD(5) [OF d]
    by (auto simp: cache_section_def bnd_apply on_store_def rc on_metrics_def pad_object_def)
qed

lemma safe_fetch:
  assumes k: "entry_known i e d0" and r: "mo_remote e = Some r" and z: "\<not> mo_zero e"
  shows "safely (\<lambda>x n' d'. \<forall>bs. x = Inr bs \<longrightarrow> bs = seal i e) (act (on_backend (fetch_object B r))) n d0"
proof (rule safe_act_same)
  fix d x d' assume g: "cguar d0 d" and d: "cinv d" and run: "on_backend (fetch_object B r) d = (x, d')"
  obtain y b' where f: "fetch_object B r (bd_backend d) = (y, b')" by force
  note ft = fetch [OF invD(2) [OF d] f]
  have "stored (bd_backend d) (ref_message_id r) = Some (seal i e)"
    using entry_known_later [OF k g] r z by (auto simp: entry_known_def remote_ok_def)
  then show "cinv d' \<and> cguar d d' \<and> (\<forall>r. room (bd_backend d) r \<longrightarrow> room (bd_backend d') r) \<and>
    (\<forall>d2. cguar d' d2 \<longrightarrow> cinv d2 \<longrightarrow> (\<forall>bs. x = Inr bs \<longrightarrow> bs = seal i e))"
    using run f ft backend_step [OF d, of b'] by (auto simp: on_backend_def)
qed

lemma safe_fill:
  assumes k: "entry_known i e d0"
  shows "safely (\<lambda>x n' d'. n' = n) (act (on_store (write_cache L i (mo_generation e) (seal i e) False))) n d0"
proof (rule safe_act_same)
  fix d x d' assume "cguar d0 d" "cinv d" "on_store (write_cache L i (mo_generation e) (seal i e) False) d = (x, d')"
  then show "cinv d' \<and> cguar d d' \<and> (\<forall>r. room (bd_backend d) r \<longrightarrow> room (bd_backend d') r) \<and>
    (\<forall>d2. cguar d' d2 \<longrightarrow> cinv d2 \<longrightarrow> n = n)"
    using fill_step [of d i e x d'] entry_known_later [OF k] by simp
qed

lemma safe_pbnd_Finish:
  assumes "\<And>y. r = Inr y \<Longrightarrow> safely Q (f y) n d" "\<And>e d'. Q (Inl e) n d'"
  shows "safely Q (pbnd (Finish r) f) n d"
  using assms by (cases r) simp_all

abbreviation reads :: "u64 \<Rightarrow> bytes res \<Rightarrow> nat \<Rightarrow> 'b BlockDevice \<Rightarrow> bool" where
  "reads i x n d \<equiv> (\<forall>bs. x = Inr bs \<longrightarrow> bs = blk i)"

lemma safe_payload: "length (blk i) = unat (bm_object_size bmap) \<Longrightarrow> env_payload env = blk i \<Longrightarrow>
   safely (reads i) (act (gets (\<lambda>d. pad_object (env_payload env) (device_object_size d)))) n d0"
  by (rule safe_gets) (simp add: invD pad_object_def)

lemma safe_arrived:
  assumes d: "cinv d" and k: "entry_known i e d" and L: "digest32 L"
  shows "safely (reads i)
    (pbnd (locked StoreLock (act (on_store (write_cache L i (mo_generation e) (seal i e) False)))) (\<lambda>_.
     pbnd (Finish (decode L (seal i e) i (mo_generation e))) (\<lambda>envelope.
     act (gets (\<lambda>d. pad_object (env_payload envelope) (device_object_size d)))))) n d"
  using known_decode [OF k d L]
  by (intro safe_pbnd [OF safe_locked [OF safe_fill [OF k] d] d] safe_pbnd_Finish safe_payload) auto

lemma safe_remote:
  assumes d0: "cinv d0" and k: "entry_known i e d0" and L: "digest32 L" and z: "\<not> mo_zero e" and r: "mo_remote e = Some r"
  shows "safely (reads i) (remote_prog L B i (mo_generation e) r sha) n d0"
  unfolding remote_prog_def
proof (rule safe_pbnd [OF safe_metrics d0], goal_cases)
  case (1 _ n1 d1)
  note k1 = entry_known_later [OF k 1(1)]
  show ?case
  proof (rule safe_pbnd [OF safe_fetch [OF k1 r z] 1(2)], goal_cases)
    case (1 encoded n2 d2)
    then have enc: "encoded = seal i e" by simp
    show ?case unfolding enc
      using safe_arrived [OF _ entry_known_later [OF entry_known_later [OF k1 1(1)]] L]
      by (intro safe_pbnd [OF safe_elapsed 1(2)] safe_pbnd_Finish) simp_all
  qed simp
qed simp

lemma safe_clean:
  assumes d0: "cinv d0" and k: "entry_known i e d0" and L: "digest32 L"
  shows "safely (reads i) (clean_prog L B i e) n d0"
proof (cases "mo_zero e")
  case True
  then have "blk i = replicate (unat (bm_object_size bmap)) 0" using k by (simp add: entry_known_def remote_ok_def)
  then show ?thesis using True by (auto simp: clean_prog_def invD intro!: safe_gets)
next
  case False
  then show ?thesis
    unfolding clean_prog_def
    using k by (auto intro!: safe_pbnd_Finish safe_pbnd [OF safe_locked [OF safe_cache_section [OF k L False] d0] d0]
        safe_remote [OF _ entry_known_later [OF k] L False] split: option.split simp: ok_or_Inr_iff simp del: pbnd.simps)
qed

lemma safe_object:
  assumes d0: "cinv d0" and i: "unat i < length (m_objects (bd_manifest d0))" and L: "digest32 L"
  shows "safely (reads i) (object_prog L B i) n d0"
proof -
  have dirty: "safely (\<lambda>x n' d. case x of Inr (Some bs) \<Rightarrow> bs = blk i | Inr None \<Rightarrow> dirty_object i (bd_store d) = None | Inl _ \<Rightarrow> True)
      (act (dirty_section L i)) n d0"
  proof (rule safe_act_same)
    fix d x d' assume d: "cguar d0 d" "cinv d" and run: "dirty_section L i d = (x, d')"
    have rd: "read_dirty L i y d = (Inr (blk i), d)" if y: "dirty_object i (bd_store d) = Some y" for y
      using read_dirty_eq [OF invD(1) [OF d(2)] L y] y by (simp add: read_object_def bnd_apply invD [OF d(2)])
    show "cinv d' \<and> cguar d d' \<and> (\<forall>r. room (bd_backend d) r \<longrightarrow> room (bd_backend d') r) \<and>
      (\<forall>d2. cguar d' d2 \<longrightarrow> cinv d2 \<longrightarrow>
        (case x of Inr (Some bs) \<Rightarrow> bs = blk i | Inr None \<Rightarrow> dirty_object i (bd_store d2) = None | Inl _ \<Rightarrow> True))"
      using run d rd guar_refl guarD(10)
      by (cases "dirty_object i (bd_store d)") (auto simp: dirty_section_def bnd_apply)
  qed
  have entry: "safely (\<lambda>x n' d. case x of Inr e \<Rightarrow> entry_known i e d | Inl _ \<Rightarrow> True) (act (entry_section i)) n1 d1"
    if "cguar d0 d1" "cinv d1" "dirty_object i (bd_store d1) = None" for n1 d1
  proof (rule safe_act_same)
    fix d x d' assume d: "cguar d1 d" "cinv d" and run: "entry_section i d = (x, d')"
    have g: "cguar d0 d" using that(1) d(1) by (rule guar_trans)
    have nd: "dirty_object i (bd_store d) = None" using guarD(10) [OF d(1) that(3)] .
    have "unat i < length (m_objects (bd_manifest d))" using i guarD(6) [OF g] by simp
    note ce = clean_entry [OF invD(1) [OF d(2)] this nd]
    have "entry_known i (m_objects (bd_manifest d) ! unat i) d"
      using ce nd \<open>unat i < length (m_objects (bd_manifest d))\<close> by (simp add: entry_known_def invD [OF d(2)])
    then show "cinv d' \<and> cguar d d' \<and> (\<forall>r. room (bd_backend d) r \<longrightarrow> room (bd_backend d') r) \<and>
      (\<forall>d2. cguar d' d2 \<longrightarrow> cinv d2 \<longrightarrow> (case x of Inr e \<Rightarrow> entry_known i e d2 | Inl _ \<Rightarrow> True))"
      using run d(2) ce(1) guar_refl entry_known_later by (auto simp: entry_section_def bnd_apply)
  qed
  show ?thesis
    unfolding object_prog_def
  proof (rule safe_pbnd [OF safe_locked [OF dirty d0] d0], goal_cases)
    case (1 found n1 d1)
    then show ?case
      using safe_pbnd [OF safe_locked [OF entry] 1(2) safe_clean [OF _ _ L]] by (auto split: option.split)
  qed simp
qed


lemma safe_read_loop:
  assumes L: "digest32 L"
  shows "cinv d0 \<Longrightarrow> unat cursor + remaining \<le> unat (bm_device_size bmap) \<Longrightarrow>
    safely (\<lambda>x n' d'. \<forall>out' c. x = Inr (out', c) \<longrightarrow> out' = out @ slice (unat cursor) (unat cursor + remaining) disk)
      (read_loop_prog L B bmap remaining cursor out) n d0"
proof (induction remaining arbitrary: cursor out d0 n rule: less_induct)
  case (less remaining)
  note inv = less.prems(1)
  show ?case
  proof (cases rule: loop_cases [where remaining = remaining and bmap = bmap and cursor = cursor])
    case stop
    then show ?thesis by (auto simp: read_loop_prog.simps slice_def)
  next
    case (err e)
    then show ?thesis by (auto simp: read_loop_prog.simps)
  next
    case (go i off)
    let ?n = "unat (bm_object_size bmap)"
    let ?k = "min remaining (?n - off)"
    obtain i' where "locate bmap cursor = Inr (i', unat cursor mod ?n)" "unat i' = unat cursor div ?n"
      "unat i' < length (m_objects (bd_manifest d0))"
      using locate_rel [OF invD(3) [OF inv], of cursor] less.prems(2) go(1) by (auto simp: invD [OF inv])
    then have i: "unat i < length (m_objects (bd_manifest d0))" "unat cursor = unat i * ?n + off" using go(2) by auto
    have k: "remaining - ?k < remaining" "off + ?k \<le> ?n" "?k \<le> remaining" using go by auto
    have cs: "add_w L cursor (of_nat ?k) = Inr (cursor + of_nat ?k)" "unat (cursor + of_nat ?k) = unat cursor + ?k"
      using less.prems(2) k(3) by (auto intro!: cursor_step [where size = "bm_device_size bmap"])
    have sl: "slice off (off + ?k) (blk i) = slice (unat cursor) (unat cursor + ?k) disk"
      using slice_block [OF k(2), of "unat i" disk] by (simp add: i(2))
    have len: "length (blk i) = ?n" using invD(3,5) [OF inv] i(1) by (intro length_block_of) (auto simp: shape_ok_def)
    have whole: "slice (unat cursor) (unat cursor + ?k) disk @ slice (unat cursor + ?k) (unat cursor + remaining) disk
        = slice (unat cursor) (unat cursor + remaining) disk"
      by (rule slice_append_split) simp_all
    have rest: "safely (\<lambda>x n' d'. \<forall>out' c. x = Inr (out', c) \<longrightarrow> out' = out @ slice (unat cursor) (unat cursor + remaining) disk)
        (read_loop_prog L B bmap (remaining - ?k) (cursor + of_nat ?k) (out @ slice (unat cursor) (unat cursor + ?k) disk)) n1 d1"
      if "cinv d1" for n1 d1
      using less.IH [OF k(1) that, of "cursor + of_nat ?k" "out @ slice (unat cursor) (unat cursor + ?k) disk"] less.prems(2) k(3)
      by (simp add: cs(2) whole)
    show ?thesis
      using rest by (subst read_loop_prog.simps)
        (auto simp: go cs Let_def sl len k(2) simp del: pbnd.simps intro!: safe_pbnd [OF safe_object [OF inv i(1) L] inv])
  qed
qed


text \<open>Read-ahead only fills the cache: what the scan has found stays true.\<close>

definition pending :: "prefetch_entry \<Rightarrow> 'b BlockDevice \<Rightarrow> bool" where
  "pending p d \<longleftrightarrow> (case p of (i, g, sha, r) \<Rightarrow>
     \<exists>e. entry_known i e d \<and> \<not> mo_zero e \<and> mo_generation e = g \<and> mo_sha256 e = Some sha \<and> mo_remote e = Some r)"

lemma pending_later: "pending p d \<Longrightarrow> cguar d d' \<Longrightarrow> pending p d'"
  using entry_known_later by (fastforce simp: pending_def)

lemma safe_scan_section: "safely (\<lambda>x n' d'. True) (act (scan_section L i g sha)) n d0"
proof (rule safe_act_same)
  fix d x d' assume d: "cinv d" and run: "scan_section L i g sha d = (x, d')"
  obtain y s' where rc: "read_cache L i g sha (bd_store d) = (y, s')" by force
  show "cinv d' \<and> cguar d d' \<and> (\<forall>r. room (bd_backend d) r \<longrightarrow> room (bd_backend d') r) \<and>
    (\<forall>d2. cguar d' d2 \<longrightarrow> cinv d2 \<longrightarrow> True)"
    using run cache_step [OF d rc]
    by (auto simp: scan_section_def bnd_apply on_store_def rc on_metrics_def split: sum.splits option.splits)
qed

lemma safe_scan:
  assumes "\<And>i. i \<notin> set ids \<Longrightarrow> dirty_object i (bd_store d0) = None"
  shows "cinv d1 \<Longrightarrow> cguar d0 d1 \<Longrightarrow>
    safely (\<lambda>x n' d. \<forall>entries. x = Inr entries \<longrightarrow> (\<forall>p\<in>set entries. pending p d)) (scan_prog L ids xs) n d1"
proof (induction xs arbitrary: d1 n)
  case (Cons i xs)
  note inv = Cons.prems(1) and g = Cons.prems(2)
  let ?Q = "\<lambda>x n' d. \<forall>entries. x = Inr entries \<longrightarrow> (\<forall>p\<in>set entries. pending p d)"
  have tail: "safely ?Q (scan_prog L ids xs) n' d'" if "cguar d1 d'" "cinv d'" for n' d'
    using Cons.IH that guar_trans [OF g] by blast
  show ?case
  proof (cases "i \<in> set ids")
    case False
    have find: "safely (\<lambda>x n' d. \<forall>e. x = Inr (Some e) \<longrightarrow> entry_known i e d)
        (act (gets (\<lambda>d. find_object i (bd_manifest d)))) n d1"
    proof (rule safe_gets)
      fix d d2 assume d: "cguar d1 d" "cinv d" "cguar d d2"
      have "dirty_object i (bd_store d) = None" using assms [OF False] guarD(10) [OF guar_trans [OF g d(1)]] by blast
      then have "entry_known i e d" if "find_object i (bd_manifest d) = Some e" for e
        using find_object_Some [OF invD(3) [OF d(2)] that] clean_entry [OF invD(1) [OF d(2)], of i]
        by (auto simp: entry_known_def invD [OF d(2)])
      then show "\<forall>e. Inr (find_object i (bd_manifest d)) = Inr (Some e) \<longrightarrow> entry_known i e d2"
        using entry_known_later [OF _ d(3)] by simp
    qed
    have push: "safely ?Q (pbnd (scan_prog L ids xs) (\<lambda>rest. Finish (Inr ((i, mo_generation e, sha, r) # rest)))) n2 d2"
      if "cguar d1 d2" "cinv d2" "entry_known i e d2" "\<not> mo_zero e" "mo_remote e = Some r" "mo_sha256 e = Some sha" for e r sha n2 d2
    proof (rule safe_pbnd [OF tail [OF that(1,2)] that(2)], goal_cases)
      case (1 rest n3 d3)
      have "pending (i, mo_generation e, sha, r) d3"
        using entry_known_later [OF that(3) 1(1)] that by (auto simp: pending_def)
      then show ?case using 1(3) pending_later by auto
    qed simp
    show ?thesis
      unfolding scan_prog.simps
    proof (simp only: False if_False, rule safe_pbnd [OF find inv], goal_cases)
      case (1 found n2 d2)
      have go: "safely ?Q (pbnd (locked StoreLock (act (scan_section L i (mo_generation e) sha))) (\<lambda>hit.
          if hit then scan_prog L ids xs
          else pbnd (scan_prog L ids xs) (\<lambda>rest. Finish (Inr ((i, mo_generation e, sha, r) # rest))))) n2 d2"
        if "found = Some e" "\<not> mo_zero e" "mo_remote e = Some r" "mo_sha256 e = Some sha" for e r sha
      proof (rule safe_pbnd [OF safe_locked [OF safe_scan_section 1(2)] 1(2)], goal_cases)
        case (1 hit n3 d3)
        have "cguar d1 d3" using \<open>cguar d1 d2\<close> 1(1) by (rule guar_trans)
        moreover have "entry_known i e d3" using \<open>\<forall>e. Inr found = Inr (Some e) \<longrightarrow> entry_known i e d2\<close> that(1) entry_known_later [OF _ 1(1)] by simp
        ultimately show ?case using tail push that 1(2) by simp
      qed simp
      show ?case using tail [OF 1(1,2)] go by (auto split: option.split simp del: pbnd.simps)
    qed simp
  qed (use tail [OF guar_refl inv] in simp)
qed simp


definition arrived :: "prefetch_entry \<times> bytes option \<Rightarrow> 'b BlockDevice \<Rightarrow> bool" where
  "arrived q d \<longleftrightarrow> (case q of ((i, g, sha, r), m) \<Rightarrow>
     \<forall>bs. m = Some bs \<longrightarrow> (\<exists>e. entry_known i e d \<and> mo_generation e = g \<and> bs = seal i e))"

lemma arrived_later: "arrived q d \<Longrightarrow> cguar d d' \<Longrightarrow> arrived q d'"
  using entry_known_later by (fastforce simp: arrived_def)

lemma pending_arrived:
  assumes "pending p d" "stored (bd_backend d) (ref_message_id (snd (snd (snd p)))) = Some bs"
  shows "arrived (p, Some bs) d"
proof -
  obtain i g sha r where p: "p = (i, g, sha, r)" by (cases p) auto
  with assms(1) obtain e where e: "entry_known i e d" "\<not> mo_zero e" "mo_generation e = g" "mo_remote e = Some r"
    by (auto simp: pending_def)
  then have "stored (bd_backend d) (ref_message_id r) = Some (seal i e)" by (auto simp: entry_known_def remote_ok_def)
  then show ?thesis using e assms(2) by (auto simp: p arrived_def)
qed

lemma safe_fill_prog: "cinv d \<Longrightarrow> \<forall>q\<in>set pairs. arrived q d \<Longrightarrow> safely (\<lambda>x n' d'. True) (fill_prog L pairs) n d"
proof (induction pairs arbitrary: d n)
  case (Cons q rest)
  obtain i g sha r m where q: "q = ((i, g, sha, r), m)" by (cases q) auto
  have tail: "safely (\<lambda>x n' d'. True) (fill_prog L rest) n1 d1" if "cguar d d1" "cinv d1" for n1 d1
    using Cons.prems(2) arrived_later [OF _ that(1)] by (intro Cons.IH that) simp
  note here = tail [OF guar_refl Cons.prems(1)]
  show ?case
  proof (cases m)
    case (Some enc)
    obtain e where e: "entry_known i e d" "mo_generation e = g" "enc = seal i e"
      using Cons.prems(2) by (auto simp: q Some arrived_def)
    have "safely (\<lambda>x n' d'. True) (pbnd (locked StoreLock (act (on_store (write_cache L i g enc False)))) (\<lambda>_. fill_prog L rest)) n d"
      using safe_fill [OF e(1), of n] tail Cons.prems(1)
      by (intro safe_pbnd [OF safe_locked [where Q = "\<lambda>x n' d'. n' = n"]]) (simp_all add: e(2,3) [symmetric])
    then show ?thesis using here by (auto simp: q Some split: sum.split err.split simp del: pbnd.simps)
  qed (use here q in simp)
qed simp

lemma safe_messages:
  assumes "\<forall>p\<in>set entries. pending p d0"
  shows "safely (\<lambda>x n' d. \<forall>ms. x = Inr ms \<longrightarrow> (\<forall>q\<in>set (zip entries ms). arrived q d))
    (act (on_backend (get_messages_by_id B (map (\<lambda>(_, _, _, remote). ref_message_id remote) entries)))) n d0"
proof (rule safe_act_same)
  let ?ref = "\<lambda>p :: prefetch_entry. ref_message_id (snd (snd (snd p)))"
  fix d x d' assume d: "cguar d0 d" "cinv d"
    and run: "on_backend (get_messages_by_id B (map (\<lambda>(_, _, _, remote). ref_message_id remote) entries)) d = (x, d')"
  have mids: "map (\<lambda>(_, _, _, remote). ref_message_id remote) entries = map ?ref entries" by (simp add: case_prod_beta)
  obtain y b' where gm: "get_messages_by_id B (map ?ref entries) (bd_backend d) = (y, b')" by force
  note gmr = get_messages [OF invD(2) [OF d(2)] gm]
  have "arrived q d" if "y = Inr ms" "q \<in> set (zip entries ms)" for ms q
  proof -
    obtain p m where q: "q = (p, m)" by (cases q)
    have "p \<in> set entries" using that(2) unfolding q by (rule set_zip_leftD)
    then have p: "pending p d" using assms pending_later [OF _ d(1)] by blast
    have "(?ref p, m) \<in> set (zip (map ?ref entries) ms)" using that(2) unfolding q zip_map1 by force
    then have "\<forall>bs. m = Some bs \<longrightarrow> stored (bd_backend d) (?ref p) = Some bs" using gmr that(1) by blast
    then show ?thesis using pending_arrived [OF p] by (cases m) (auto simp: q arrived_def)
  qed
  moreover have "d' = d\<lparr>bd_backend := b'\<rparr>" "x = y" using run gm by (simp_all add: mids on_backend_def)
  moreover have "cinv (d\<lparr>bd_backend := b'\<rparr>) \<and> cguar d (d\<lparr>bd_backend := b'\<rparr>)" using gmr by (intro backend_step [OF d(2)]) simp_all
  ultimately show "cinv d' \<and> cguar d d' \<and> (\<forall>r. room (bd_backend d) r \<longrightarrow> room (bd_backend d') r) \<and>
    (\<forall>d2. cguar d' d2 \<longrightarrow> cinv d2 \<longrightarrow> (\<forall>ms. x = Inr ms \<longrightarrow> (\<forall>q\<in>set (zip entries ms). arrived q d2)))"
    using gmr arrived_later guar_trans by fastforce
qed

lemma safe_prefetch:
  assumes d0: "cinv d0"
  shows "safely (\<lambda>x n' d'. True) (prefetch_prog L B start ahead) n d0"
proof -
  have ids: "safely (\<lambda>x n' d. \<forall>ids. x = Inr ids \<longrightarrow> (\<forall>i. i \<notin> set ids \<longrightarrow> dirty_object i (bd_store d) = None))
      (act (gets (\<lambda>d. map do_object_id (dirty_objects (bd_store d))))) n d0"
    using dirty_ids_None guarD(10) by (intro safe_gets) fastforce
  show ?thesis
    unfolding prefetch_prog_def
  proof (rule safe_pbnd [OF safe_locked [OF ids d0] d0], goal_cases)
    case (1 ids n1 d1)
    have scan: "safely (\<lambda>x n' d. \<forall>entries. x = Inr entries \<longrightarrow> (\<forall>p\<in>set entries. pending p d)) (scan_prog L ids xs) n2 d1" for xs n2
      using 1 by (intro safe_scan [of ids d1]) (auto intro: guar_refl)
    show ?case
    proof (rule safe_pbnd [OF safe_locked [OF scan 1(2)] 1(2)], goal_cases)
      case (1 entries n2 d2)
      then have pend: "\<forall>p\<in>set entries. pending p d2" by simp
      have all: "\<forall>p\<in>set entries. pending p d3" if "cguar d2 d3" for d3
        using pend pending_later [OF _ that] by blast
      have fill: "safely (\<lambda>x n' d'. True) (pbnd (act (bnd (gets (device_elapsed L)) (\<lambda>ms. on_metrics (record_download ms))))
          (\<lambda>_. fill_prog L (zip entries messages))) n3 d3"
        if "cinv d3" "\<forall>q\<in>set (zip entries messages). arrived q d3" for messages n3 d3
        using that(2) arrived_later by (intro safe_pbnd [OF safe_elapsed that(1)] safe_fill_prog) blast+
      show ?case
        using 1 all fill
        by (auto intro!: safe_pbnd [OF safe_metrics] safe_pbnd [OF safe_messages] simp del: pbnd.simps)
    qed simp
  qed simp
qed


lemma safe_read_at:
  assumes d0: "cinv d0" and L: "digest32 L" and b: "unat offset + len \<le> unat (bm_device_size bmap)"
  shows "safely (\<lambda>x n' d'. \<forall>bs. x = Inr bs \<longrightarrow> bs = slice (unat offset) (unat offset + len) disk)
    (read_at_prog L B bmap ahead offset len) n d0"
  unfolding read_at_prog_def
proof (intro safe_pbnd_Finish, goal_cases)
  case (1 ending u)
  show ?case
  proof (rule safe_pbnd [OF safe_read_loop [OF L d0 b] d0], goal_cases)
    case (1 y n1 d1)
    obtain out cursor where y: "y = (out, cursor)" by (cases y)
    then have out: "out = slice (unat offset) (unat offset + len) disk" using 1(3) by simp
    show ?case
      using safe_prefetch [OF 1(2)] 1(2)
      by (auto simp: y out split: sum.split prod.split nat.split err.split intro!: safe_pcatch [OF safe_prefetch [OF 1(2)] 1(2)])
  qed simp
qed simp_all

end

text \<open>A device that represents a disk is a good start.\<close>

lemma conc_inv_start:
  assumes rel: "dev_rel L invar stored d disk"
  shows "conc_inv L invar stored (bd_map d) disk (dirty_objects (bd_store d)) d"
proof -
  have keys: "dirty_keys_ok (bd_store d)" using rel by (simp add: dev_rel_def store_ok_def)
  have "do_cache_path x = cache_path (bd_store d) (do_object_id x) (do_generation x) \<and>
      unat (do_object_id x) < length (m_objects (bd_manifest d))" if "x \<in> set (dirty_objects (bd_store d))" for x
    using that rel by (auto simp: mem_dirty_objects [OF keys] dev_rel_def objects_ok_def dirty_ok_def)
  then show ?thesis
    using rel distinct_dirty_objects [OF keys] by (auto simp: conc_inv_def snapshot_ok_def dev_rel_def objects_ok_def)
qed

end
