(* ===== verification/ConcurrentFlush.thy ===== *)
theory ConcurrentFlush
  imports ConcurrentRel
begin

text \<open>
  Flushes beside reads and other flushes, and pools of reads and flushes: whatever the schedule,
  reads return the disk and a flush that succeeds leaves every object on the backend.
\<close>

section \<open>Flushing beside other calls\<close>

context shared_device
begin

abbreviation sealed_of :: "DirtyObject \<Rightarrow> bytes" where
  "sealed_of x \<equiv> sealed L (bm_object_size bmap) (do_object_id x) (do_generation x) (blk (do_object_id x))"

text \<open>A dirty object of the snapshot is still dirty, or its entry has been committed.\<close>

lemma snapshot_cases:
  assumes d: "cinv d" and x: "x \<in> set D"
  obtains (dirty) "dirty_object (do_object_id x) (bd_store d) = Some x" "dirty_objects (bd_store d) = D"
    | (clean) "ls_dirty_objects (bd_store d) = []" "dirty_object (do_object_id x) (bd_store d) = None" "committed_entry x d"
proof (cases "dirty_objects (bd_store d) = D")
  case True
  then show ?thesis using mem_dirty_objects [of "bd_store d" x] x invD(1) [OF d] dirty by (simp add: dev_rel_def store_ok_def)
next
  case False
  then show ?thesis using d x clean by (auto simp: conc_inv_def dirty_object_def)
qed

lemma snapshot_facts:
  assumes "cinv d" "x \<in> set D"
  shows "unat (do_object_id x) < length (m_objects (bd_manifest d))"
    "do_cache_path x = cache_path (bd_store d) (do_object_id x) (do_generation x)"
    "length (blk (do_object_id x)) = unat (bm_object_size bmap)"
    "do_sha256 x = sha256_hex L (sealed_of x)"
    "ls_files (bd_store d) (do_cache_path x) \<in> {None, Some (sealed_of x)}"
proof -
  show i: "unat (do_object_id x) < length (m_objects (bd_manifest d))"
    and p: "do_cache_path x = cache_path (bd_store d) (do_object_id x) (do_generation x)"
    using assms by (auto simp: conc_inv_def snapshot_ok_def)
  show "length (blk (do_object_id x)) = unat (bm_object_size bmap)"
    using invD(3,5) [OF assms(1)] i by (intro length_block_of) (auto simp: shape_ok_def)
  have "do_sha256 x = sha256_hex L (sealed_of x) \<and> ls_files (bd_store d) (do_cache_path x) \<in> {None, Some (sealed_of x)}"
    using assms
  proof (cases rule: snapshot_cases)
    case dirty
    from dirty_block [OF invD(1) [OF assms(1)] dirty(1)] show ?thesis
      unfolding dirty_ok_def invD(4,5) [OF assms(1)] by blast
  next
    case clean
    let ?e = "m_objects (bd_manifest d) ! unat (do_object_id x)"
    note ce = clean_entry [OF invD(1) [OF assms(1)] i clean(2)]
    have e: "mo_generation ?e = do_generation x" "mo_sha256 ?e = Some (do_sha256 x)" "\<not> mo_zero ?e"
      using clean(3) by (simp_all add: committed_entry_def Let_def)
    then show ?thesis
      using ce by (auto simp: remote_ok_def cached_ok_def entry_seal_def invD [OF assms(1)] p)
  qed
  then show "do_sha256 x = sha256_hex L (sealed_of x)" "ls_files (bd_store d) (do_cache_path x) \<in> {None, Some (sealed_of x)}"
    by blast+
qed

lemma safe_load:
  assumes x: "x \<in> set D"
  shows "safely (\<lambda>y n' d. n' = n \<and> (\<forall>bs. y = Inr bs \<longrightarrow> bs = sealed_of x)) (act (load_section L x)) n d0"
proof (rule safe_act_same)
  fix d y d' assume d: "cinv d" and run: "load_section L x d = (y, d')"
  show "cinv d' \<and> cguar d d' \<and> (\<forall>r. room (bd_backend d) r \<longrightarrow> room (bd_backend d') r) \<and>
    (\<forall>d2. cguar d' d2 \<longrightarrow> cinv d2 \<longrightarrow> n = n \<and> (\<forall>bs. y = Inr bs \<longrightarrow> bs = sealed_of x))"
    using run d snapshot_facts(5) [OF d x] guar_refl
    by (auto simp: load_section_def read_file_def bnd_apply ok_or_def split: sum.splits option.splits)
qed

text \<open>What a sent object leaves in the backend.\<close>

definition sent :: "DirtyObject \<Rightarrow> RemoteObjectRef \<Rightarrow> 'b BlockDevice \<Rightarrow> bool" where
  "sent x r d \<longleftrightarrow> stored (bd_backend d) (ref_message_id r) = Some (sealed_of x) \<and> ref_object_id r = do_object_id x \<and>
     ref_generation r = do_generation x \<and> ref_sha256 r = sha256_hex L (sealed_of x)"

lemma sent_later: "sent x r d \<Longrightarrow> cguar d d' \<Longrightarrow> sent x r d'"
  using guarD(7) [of L stored disk D d d'] by (auto simp: sent_def map_le_def dom_def)

lemma safe_send:
  "safely (\<lambda>y n' d. n' = n \<and> (\<forall>r. y = Inr r \<longrightarrow> sent x r d))
    (act (on_backend (send_object B (do_object_id x) (do_generation x) (sealed_of x) (sha256_hex L (sealed_of x))))) (Suc n) d0"
proof (rule safe_act)
  fix d y d' r assume d: "cinv d" and rm: "room (bd_backend d) (Suc n + r)"
    and run: "on_backend (send_object B (do_object_id x) (do_generation x) (sealed_of x) (sha256_hex L (sealed_of x))) d = (y, d')"
  obtain z b' where s: "send_object B (do_object_id x) (do_generation x) (sealed_of x) (sha256_hex L (sealed_of x)) (bd_backend d) = (z, b')"
    by force
  have res: "y = z" "d' = d\<lparr>bd_backend := b'\<rparr>" using run s by (simp_all add: on_backend_def)
  have any: "invar b' \<and> room b' q \<and> stored (bd_backend d) \<subseteq>\<^sub>m stored b'" if "room (bd_backend d) (Suc q)" for q
    using send_any [OF invD(2) [OF d] that s] .
  have ok: "sent x ref d'" if "z = Inr ref" for ref
    using send_ok [OF invD(2) [OF d] _ s [unfolded that], of "n + r"] rm by (simp add: sent_def res)
  have "cinv d' \<and> cguar d d'" unfolding res using any [of "n + r"] rm by (intro backend_step [OF d]) simp_all
  then show "cinv d' \<and> cguar d d' \<and> (\<exists>n'. (\<forall>r. room (bd_backend d) (Suc n + r) \<longrightarrow> room (bd_backend d') (n' + r)) \<and>
    (\<forall>d2. cguar d' d2 \<longrightarrow> cinv d2 \<longrightarrow> n' = n \<and> (\<forall>r. y = Inr r \<longrightarrow> sent x r d2)))"
    using any ok sent_later by (auto simp: res intro!: exI [of _ n])
qed


lemma entry_step:
  assumes d: "cinv d" and x: "x \<in> set D" and snt: "sent x r d" and gen: "max_generation D \<le> m_generation (bd_manifest d)"
    and run: "entry_update L x (sealed_of x) r d = (y, d')"
  shows "cinv d' \<and> cguar d d' \<and> bd_backend d' = bd_backend d \<and> committed_entry x d' \<and>
    uploaded L (stored (bd_backend d')) d' disk (unat (do_object_id x))"
proof -
  let ?i = "unat (do_object_id x)" and ?objs = "m_objects (bd_manifest d)"
  note sf = snapshot_facts [OF d x]
  have ids: "map mo_object_id ?objs = map of_nat [0..<length ?objs]" "length ?objs < 2 ^ 64"
    using invD(3) [OF d] by (simp_all add: shape_ok_def)
  define m where "m = commit_entry ?i (do_generation x) r (sha256_hex L (sealed_of x)) (bd_manifest d)"
  have d': "d' = d\<lparr>bd_manifest := m\<rparr>"
    using run position_of_nth [OF ids sf(1)] by (simp add: entry_update_def bnd_apply m_def)
  have ent: "m_objects m ! ?i = (?objs ! ?i)\<lparr>mo_generation := do_generation x, mo_remote := Some r,
      mo_sha256 := Some (sha256_hex L (sealed_of x)), mo_zero := False\<rparr>"
    using sf(1) by (simp add: m_def commit_entry_objects)
  have other: "m_objects m ! j = ?objs ! j" if "j \<noteq> ?i" for j using that by (simp add: m_def commit_entry_objects)
  have head: "m_generation m = m_generation (bd_manifest d)" "map mo_object_id (m_objects m) = map mo_object_id ?objs"
    "length (m_objects m) = length ?objs"
    by (simp_all add: m_def commit_entry_objects(2) commit_entry_ids) (simp add: commit_entry_objects(1))
  have gx: "do_generation x \<le> m_generation (bd_manifest d)" using gen max_generation_ge [OF x] by (rule order_trans [rotated])
  have up: "uploaded L (stored (bd_backend d)) d' disk ?i"
    using snt sf ids_nth [OF ids(1) sf(1)] gx
    by (auto simp: uploaded_def d' ent head remote_ok_def cached_ok_def entry_seal_def sent_def invD [OF d])
  have com: "committed_entry x d'" using sf(4) by (simp add: committed_entry_def d' ent)
  have same: "committed_entry z d'" if "z \<in> set D" "committed_entry z d" for z
  proof (cases "do_object_id z = do_object_id x")
    case True
    then have "z = x" using d x that(1) by (auto simp: conc_inv_def snapshot_ok_def distinct_map dest: inj_onD)
    then show ?thesis using com by simp
  next
    case False
    then have "unat (do_object_id z) \<noteq> ?i" by (metis of_nat_unat ucast_id)
    then show ?thesis using that(2) other by (simp add: committed_entry_def d')
  qed
  have ups: "uploaded L (stored (bd_backend d)) d' disk j" if "uploaded L (stored (bd_backend d)) d disk j" for j
    using up that other by (cases "j = ?i") (simp_all add: uploaded_def d' head)
  have "dev_rel L invar stored d' disk"
    using up by (intro dev_rel_uploaded_entry [OF invD(1) [OF d] sf(1)]) (simp_all add: d' m_def)
  then have "cinv d'" using d same by (auto simp: conc_inv_def snapshot_ok_def d' head)
  moreover have "mo_generation (m_objects m ! unat i) = mo_generation (?objs ! unat i) \<and> mo_zero (m_objects m ! unat i) = mo_zero (?objs ! unat i)"
    if "dirty_object i (bd_store d) = None" for i
  proof (cases "unat i = ?i")
    case True
    then have "i = do_object_id x" by (metis of_nat_unat ucast_id)
    with d x show ?thesis
    proof (cases rule: snapshot_cases)
      case clean
      then show ?thesis using ent True by (simp add: committed_entry_def Let_def)
    qed (use that \<open>i = do_object_id x\<close> in simp)
  qed (simp add: other)
  then have "cguar d d'" using ups same by (simp add: conc_guar_def d' head)
  ultimately show ?thesis using up com by (simp add: d')
qed

lemma generation_step:
  assumes d: "cinv d" and ne: "D \<noteq> []" and run: "new_generation L D d = (y, d')"
  shows "cinv d' \<and> cguar d d' \<and> bd_backend d' = bd_backend d \<and> (y = Inr () \<longrightarrow> max_generation D \<le> m_generation (bd_manifest d'))"
proof (cases "add_w L (m_generation (bd_manifest d)) 1")
  case (Inl e)
  then show ?thesis using run d guar_refl by (auto simp: new_generation_def bnd_apply)
next
  case (Inr g)
  then have d': "d' = d\<lparr>bd_manifest := (bd_manifest d)\<lparr>m_generation := max_generation D\<rparr>\<rparr>"
    using run by (simp add: new_generation_def bnd_apply)
  have le: "m_generation (bd_manifest d) \<le> max_generation D" using d ne by (simp add: conc_inv_def)
  have "dev_rel L invar stored d' disk"
    unfolding d' using d by (intro dev_rel_generation [OF invD(1) [OF d] le]) (auto simp: conc_inv_def dirty_objects_def)
  moreover have "committed_entry x d' = committed_entry x d" for x by (simp add: committed_entry_def d')
  moreover have "uploaded L (stored (bd_backend d)) d' disk j" if "uploaded L (stored (bd_backend d)) d disk j" for j
    using that le by (auto simp: uploaded_def d')
  ultimately show ?thesis using d le by (auto simp: conc_inv_def conc_guar_def snapshot_ok_def d')
qed


text \<open>An object of the snapshot that is on the backend with its entry committed, for good.\<close>

definition settled :: "DirtyObject \<Rightarrow> 'b BlockDevice \<Rightarrow> bool" where
  "settled x d \<longleftrightarrow> x \<in> set D \<and> committed_entry x d \<and> unat (do_object_id x) < length (m_objects (bd_manifest d)) \<and>
     uploaded L (stored (bd_backend d)) d disk (unat (do_object_id x))"

lemma settled_later: "settled x d \<Longrightarrow> cguar d d' \<Longrightarrow> settled x d'"
  using guarD(6,13,14) [of L stored disk D d d'] by (auto simp: settled_def)

lemma safe_upload:
  assumes d0: "cinv d0" and x: "x \<in> set D" and gen: "max_generation D \<le> m_generation (bd_manifest d0)"
  shows "safely (\<lambda>y n' d. y = Inr () \<longrightarrow> n' = n \<and> settled x d) (upload_prog L B x) (Suc n) d0"
  unfolding upload_prog_def
proof (rule safe_pbnd [OF safe_load [OF x] d0], goal_cases)
  case (1 enc n1 d1)
  then have enc: "enc = sealed_of x" and n1: "n1 = Suc n" by simp_all
  have g1: "cguar d0 d1" using 1 by simp
  show ?case unfolding enc n1
  proof (rule safe_pbnd [OF safe_send 1(2)], goal_cases)
    case (1 r n2 d2)
    then have n2: "n2 = n" and snt: "sent x r d2" and g2: "cguar d1 d2" by simp_all
    show ?case unfolding n2
    proof (rule safe_pbnd [OF safe_elapsed 1(2)], goal_cases)
      case (1 _ n3 d3)
      show ?case
      proof (rule safe_act_same)
        fix d y d' assume d: "cguar d3 d" "cinv d" and run: "entry_update L x (sealed_of x) r d = (y, d')"
        have g: "cguar d0 d" "cguar d2 d" using g1 g2 1(1) d(1) guar_trans by blast+
        have "max_generation D \<le> m_generation (bd_manifest d)" using gen guarD(8) [OF g(1)] by (rule order_trans)
        note es = entry_step [OF d(2) x sent_later [OF snt g(2)] this run]
        have "settled x d'" unfolding settled_def using es x snapshot_facts(1) [OF _ x] by blast
        then show "cinv d' \<and> cguar d d' \<and> (\<forall>r. room (bd_backend d) r \<longrightarrow> room (bd_backend d') r) \<and>
          (\<forall>d2. cguar d' d2 \<longrightarrow> cinv d2 \<longrightarrow> y = Inr () \<longrightarrow> n3 = n \<and> settled x d2)"
          using es 1(3) settled_later by auto
      qed
    qed simp
  qed simp
qed simp

lemma safe_upload_all:
  "cinv d0 \<Longrightarrow> set xs \<subseteq> set D \<Longrightarrow> max_generation D \<le> m_generation (bd_manifest d0) \<Longrightarrow> \<forall>x\<in>set ys. settled x d0 \<Longrightarrow>
   safely (\<lambda>y n' d. y = Inr () \<longrightarrow> n' = n \<and> (\<forall>x\<in>set (ys @ xs). settled x d)) (upload_all_prog L B xs) (length xs + n) d0"
proof (induction xs arbitrary: d0 ys)
  case Nil
  then show ?case using settled_later by auto
next
  case (Cons x xs)
  have x: "x \<in> set D" using Cons.prems(2) by simp
  have run: "safely (\<lambda>y n' d. y = Inr () \<longrightarrow> n' = n \<and> (\<forall>x\<in>set (ys @ x # xs). settled x d)) (upload_all_prog L B xs) n1 d1"
    if d1: "cguar d0 d1" "cinv d1" and n1: "n1 = length xs + n" and here: "settled x d1" for n1 d1
  proof -
    have "max_generation D \<le> m_generation (bd_manifest d1)" using Cons.prems(3) guarD(8) [OF d1(1)] by (rule order_trans)
    moreover have "\<forall>x\<in>set (ys @ [x]). settled x d1" using Cons.prems(4) here settled_later [OF _ d1(1)] by auto
    ultimately show ?thesis using Cons.IH [OF d1(2), of "ys @ [x]"] Cons.prems(2) n1 by simp
  qed
  have len: "length (x # xs) + n = Suc (length xs + n)" by simp
  show ?case
    unfolding upload_all_prog.simps len
  proof (rule safe_pbnd [OF safe_upload [OF Cons.prems(1) x Cons.prems(3)] Cons.prems(1)], goal_cases)
    case 1
    then show ?case by (intro run) simp_all
  qed simp
qed

lemma all_uploaded:
  assumes d: "cinv d" and s: "\<forall>x\<in>set D. settled x d" and j: "j < length (m_objects (bd_manifest d))"
  shows "uploaded L (stored (bd_backend d)) d disk j"
proof (cases "dirty_object (of_nat j) (bd_store d)")
  case None
  then show ?thesis using invD(1) [OF d] j by (simp add: dev_rel_def objects_ok_def uploaded_def)
next
  case (Some x)
  have id: "do_object_id x = of_nat j" using Some by (rule dirty_object_id)
  have "dirty_objects (bd_store d) = D" using d Some by (auto simp: conc_inv_def dirty_object_def)
  moreover have "x \<in> set (dirty_objects (bd_store d))"
    using Some id mem_dirty_objects [of "bd_store d" x] invD(1) [OF d] by (simp add: dev_rel_def store_ok_def)
  moreover have "unat (of_nat j :: u64) = j" using invD(3) [OF d] j by (intro unat_of_nat_len) (simp add: shape_ok_def)
  ultimately show ?thesis using s id by (auto simp: settled_def)
qed


lemma generation_later: "g \<le> m_generation (bd_manifest d) \<Longrightarrow> cguar d d' \<Longrightarrow> g \<le> m_generation (bd_manifest d')"
  by (rule order_trans [OF _ guarD(8)])

lemma durable_later: "durable L stored d disk \<Longrightarrow> cguar d d' \<Longrightarrow> durable L stored d' disk"
  using guarD(6,9,13) [of L stored disk D d d'] by (auto simp: durable_def)

lemma safe_committer:
  assumes com: "commits_safely invar room stored m (bd_committer d0)"
  shows "safely (\<lambda>y n' d. True) (act run_committer) (m + n) d0"
proof (rule safe_act)
  fix d y d' r assume d: "cguar d0 d" "cinv d" and rm: "room (bd_backend d) (m + n + r)" and run: "run_committer d = (y, d')"
  have com': "commits_safely invar room stored m (bd_committer d)" using com guarD(2) [OF d(1)] by simp
  have res: "\<exists>b'. d' = d\<lparr>bd_backend := b'\<rparr> \<and> room b' (n + q) \<and> invar b' \<and> stored (bd_backend d) \<subseteq>\<^sub>m stored b'"
    if "room (bd_backend d) (m + (n + q))" for q
    using run_committer_rel [OF invD(1) [OF d(2)] com' that room_le run] by (fastforce simp: dev_rel_def)
  obtain b' where b': "d' = d\<lparr>bd_backend := b'\<rparr>" "invar b'" "stored (bd_backend d) \<subseteq>\<^sub>m stored b'"
    using res [of r] rm by (auto simp: add.assoc)
  have "room (bd_backend d') (n + q)" if "room (bd_backend d) (m + n + q)" for q
    using res [of q] that by (auto simp: add.assoc)
  then show "cinv d' \<and> cguar d d' \<and> (\<exists>n'. (\<forall>r. room (bd_backend d) (m + n + r) \<longrightarrow> room (bd_backend d') (n' + r)) \<and>
    (\<forall>d2. cguar d' d2 \<longrightarrow> cinv d2 \<longrightarrow> True))"
    using backend_step [OF d(2) b'(2,3)] b'(1) by auto
qed

lemma tables_step:
  assumes d: "cinv d" and rm: "replace_from_manifest L m (bd_store d) = (x, s')"
  shows "cinv (d\<lparr>bd_store := s'\<rparr>) \<and> cguar d (d\<lparr>bd_store := s'\<rparr>)"
proof -
  have s': "ls_cache_dir s' = ls_cache_dir (bd_store d)" "ls_files s' = ls_files (bd_store d)"
    "ls_dirty_objects s' = ls_dirty_objects (bd_store d)"
    using replace_from_manifest_cases [OF rm] by (auto simp: tick_def)
  then have eqs: "dirty_object i s' = dirty_object i (bd_store d)" "dirty_objects s' = dirty_objects (bd_store d)"
    "cache_path s' = cache_path (bd_store d)" for i
    by (simp_all add: dirty_object_def dirty_objects_def cache_path_def fun_eq_iff)
  have "uploaded L msgs (d\<lparr>bd_store := s'\<rparr>) disk j = uploaded L msgs d disk j" for msgs j
    by (simp add: uploaded_def cached_ok_def eqs s')
  then show ?thesis
    using d dev_rel_tables [OF invD(1) [OF d] rm] by (auto simp: conc_inv_def conc_guar_def snapshot_ok_def committed_entry_def eqs s')
qed

lemma clear_step:
  assumes d: "cinv d" and s: "\<forall>x\<in>set D. settled x d" and gen: "max_generation D \<le> m_generation (bd_manifest d)"
  defines "d' \<equiv> d\<lparr>bd_store := clear_dirty_and_wal (bd_store d)\<rparr>"
  shows "cinv d' \<and> cguar d d' \<and> durable L stored d' disk"
proof -
  note up = all_uploaded [OF d s]
  have eqs: "dirty_object i (bd_store d') = None" "cache_path (bd_store d') = cache_path (bd_store d)" "ls_files (bd_store d') = ls_files (bd_store d)"
    "ls_dirty_objects (bd_store d') = []" "ls_cache_dir (bd_store d') = ls_cache_dir (bd_store d)" "bd_manifest d' = bd_manifest d"
    "bd_map d' = bd_map d" "bd_backend d' = bd_backend d" "bd_committer d' = bd_committer d" "bd_read_ahead_objects d' = bd_read_ahead_objects d" for i
    by (simp_all add: d'_def clear_dirty_and_wal_def dirty_object_def cache_path_def fun_eq_iff)
  have u: "uploaded L msgs d' disk j = uploaded L msgs d disk j" for msgs j
    by (simp add: uploaded_def cached_ok_def eqs device_object_size_def)
  have c: "committed_entry x d' = committed_entry x d" for x by (simp add: committed_entry_def eqs)
  have "dev_rel L invar stored d' disk" unfolding d'_def using up by (rule dev_rel_clear [OF invD(1) [OF d]])
  then show ?thesis
    using d s gen up by (auto simp: conc_inv_def conc_guar_def durable_def snapshot_ok_def settled_def eqs u c)
qed

lemma safe_commit_section:
  assumes s: "\<forall>x\<in>set D. settled x d0" and gen: "max_generation D \<le> m_generation (bd_manifest d0)"
  shows "safely (\<lambda>y n' d. y = Inr () \<longrightarrow> durable L stored d disk) (act (commit_section L)) n d0"
proof (rule safe_act_same)
  fix d y d' assume d: "cguar d0 d" "cinv d" and run: "commit_section L d = (y, d')"
  obtain x s' where rm: "replace_from_manifest L (bd_manifest d) (bd_store d) = (x, s')" by force
  note ts = tables_step [OF d(2) rm]
  let ?d = "d\<lparr>bd_store := s'\<rparr>"
  have g: "cguar d0 ?d" using d(1) ts guar_trans by blast
  have "\<forall>x\<in>set D. settled x ?d" "max_generation D \<le> m_generation (bd_manifest ?d)"
    using s settled_later [OF _ g] gen guarD(8) [OF g] by (auto intro: order_trans)
  from clear_step [OF _ this] ts have cl: "cinv (d\<lparr>bd_store := clear_dirty_and_wal s'\<rparr>)"
    "cguar d (d\<lparr>bd_store := clear_dirty_and_wal s'\<rparr>)" "durable L stored (d\<lparr>bd_store := clear_dirty_and_wal s'\<rparr>) disk"
    using guar_trans by auto
  show "cinv d' \<and> cguar d d' \<and> (\<forall>r. room (bd_backend d) r \<longrightarrow> room (bd_backend d') r) \<and>
    (\<forall>d2. cguar d' d2 \<longrightarrow> cinv d2 \<longrightarrow> y = Inr () \<longrightarrow> durable L stored d2 disk)"
    using run ts cl durable_later by (cases x) (auto simp: commit_section_def bnd_apply on_store_def rm)
qed

lemma safe_flush:
  assumes d0: "cinv d0" and com: "commits_safely invar room stored m (bd_committer d0)"
  shows "safely (\<lambda>y n' d. y = Inr () \<longrightarrow> durable L stored d disk) (flush_prog L B) (length D + (m + k)) d0"
proof -
  let ?Q = "\<lambda>y n' d. y = Inr () \<longrightarrow> durable L stored d disk"
  have snap: "safely (\<lambda>y n' d. n' = n \<and> (\<forall>ds. y = Inr ds \<longrightarrow> (if ds = [] then durable L stored d disk else ds = D)))
      (act (gets (\<lambda>d. dirty_objects (bd_store d)))) n d0" for n
  proof (rule safe_gets)
    fix d d2 assume d: "cinv d" "cguar d d2"
    have "durable L stored d disk" if "ls_dirty_objects (bd_store d) = []"
      using invD(1) [OF d(1)] that by (auto simp: durable_def dev_rel_def objects_ok_def uploaded_def dirty_object_def)
    then show "n = n \<and> (\<forall>ds. Inr (dirty_objects (bd_store d)) = Inr ds \<longrightarrow> (if ds = [] then durable L stored d2 disk else ds = D))"
      using d durable_later by (auto simp: conc_inv_def)
  qed
  have gen: "safely (\<lambda>y n' d. n' = n \<and> (y = Inr () \<longrightarrow> max_generation D \<le> m_generation (bd_manifest d))) (act (new_generation L D)) n d1"
    if "D \<noteq> []" for n d1
  proof (rule safe_act_same)
    fix d y d' assume d: "cinv d" and run: "new_generation L D d = (y, d')"
    show "cinv d' \<and> cguar d d' \<and> (\<forall>r. room (bd_backend d) r \<longrightarrow> room (bd_backend d') r) \<and>
      (\<forall>d2. cguar d' d2 \<longrightarrow> cinv d2 \<longrightarrow> n = n \<and> (y = Inr () \<longrightarrow> max_generation D \<le> m_generation (bd_manifest d2)))"
      using generation_step [OF d that run] generation_later by auto
  qed
  have close: "safely ?Q (pbnd (act run_committer) (\<lambda>_. locked StoreLock (act (commit_section L)))) (m + k) d2"
    if d2: "cguar d0 d2" "cinv d2" "\<forall>x\<in>set D. settled x d2" "max_generation D \<le> m_generation (bd_manifest d2)" for d2
  proof (rule safe_pbnd [OF safe_committer d2(2)], goal_cases)
    case 1
    show ?case using com guarD(2) [OF d2(1)] by simp
  next
    case (2 _ n3 d3)
    have "\<forall>x\<in>set D. settled x d3" "max_generation D \<le> m_generation (bd_manifest d3)"
      using d2(3,4) settled_later [OF _ 2(1)] guarD(8) [OF 2(1)] by (auto intro: order_trans)
    then show ?case by (intro safe_locked safe_commit_section 2(2))
  qed simp
  show ?thesis
    unfolding flush_prog_def
  proof (rule safe_pbnd [OF safe_locked [OF snap d0] d0], goal_cases)
    case (1 ds n1 d1)
    show ?case
    proof (cases "ds = []")
      case False
      then have ds: "ds = D" "D \<noteq> []" and n1: "n1 = length D + (m + k)" using 1(3) by auto
      have body: "safely ?Q (pbnd (act (new_generation L D)) (\<lambda>_. pbnd (upload_all_prog L B D) (\<lambda>_.
          pbnd (act run_committer) (\<lambda>_. locked StoreLock (act (commit_section L)))))) n1 d1"
      proof (rule safe_pbnd [OF gen [OF ds(2)] 1(2)], goal_cases)
        case (1 _ n2 d2)
        then have n2: "n2 = length D + (m + k)" and g2: "max_generation D \<le> m_generation (bd_manifest d2)" using n1 by simp_all
        show ?case unfolding n2
        proof (rule safe_pbnd [OF safe_upload_all [OF 1(2) subset_refl g2, of "[]" "m + k"] 1(2)], goal_cases)
          case (2 u n3 d3)
          then have n3: "n3 = m + k" "\<forall>x\<in>set D. settled x d3" by simp_all
          show ?case unfolding n3
          proof (rule close [OF _ 2(2) n3(2) generation_later [OF g2 2(1)]])
            show "cguar d0 d3" using \<open>cguar d0 d1\<close> \<open>cguar d1 d2\<close> 2(1) guar_trans by blast
          qed
        qed simp_all
      qed simp
      then show ?thesis using ds safe_locked [OF body 1(2)] by simp
    qed (use 1 durable_later in auto)
  qed simp
qed


end

section \<open>Pools of reads and flushes\<close>

context shared_device
begin

definition call_outcome :: "dev_call \<Rightarrow> bytes res \<Rightarrow> nat \<Rightarrow> 'b BlockDevice \<Rightarrow> bool" where
  "call_outcome c x n d \<longleftrightarrow> (\<forall>bs. x = Inr bs \<longrightarrow> (case c of
     ReadCall offset len \<Rightarrow> bs = slice (unat offset) (unat offset + len) disk
   | WriteCall _ _ \<Rightarrow> False
   | FlushCall \<Rightarrow> durable L stored d disk))"

lemma safe_call:
  assumes d: "cinv d" and L: "digest32 L" and com: "commits_safely invar room stored m (bd_committer d)"
    and w: "\<forall>offset bs. c \<noteq> WriteCall offset bs" and r: "op_in_range (bm_device_size bmap) (call_op c)"
  shows "safely (call_outcome c) (call_prog L B bmap ahead c) (length D + m) d"
proof (cases c)
  case (ReadCall offset len)
  have "call_outcome c = (\<lambda>x n d. \<forall>bs. x = Inr bs \<longrightarrow> bs = slice (unat offset) (unat offset + len) disk)"
    by (simp add: call_outcome_def fun_eq_iff ReadCall)
  then show ?thesis using safe_read_at [OF d L] r ReadCall by (simp add: call_prog_def call_op_def op_in_range_def)
next
  case FlushCall
  have "safely (call_outcome c) (pbnd (flush_prog L B) (\<lambda>_. Finish (Inr []))) (length D + (m + 0)) d"
    by (rule safe_pbnd [OF safe_flush [OF d com] d]) (use durable_later in \<open>auto simp: call_outcome_def FlushCall\<close>)
  then show ?thesis by (simp add: call_prog_def FlushCall)
qed (use w in simp)

lemma pool_outcomes:
  assumes d: "cinv d" and L: "digest32 L" and com: "commits_safely invar room stored m (bd_committer d)"
    and calls: "\<forall>c\<in>set calls. (\<forall>offset bs. c \<noteq> WriteCall offset bs) \<and> op_in_range (bm_device_size bmap) (call_op c)"
    and rm: "room (bd_backend d) (length calls * (length D + m))"
    and run: "pool_run (device_calls L B d calls) p"
  shows "cinv (po_shared p) \<and> (\<forall>i < length calls. \<forall>x. po_threads p ! i = Finish x \<longrightarrow> (\<exists>n. call_outcome (calls ! i) x n (po_shared p)))"
proof -
  let ?ps = "map (call_prog L B bmap (bd_read_ahead_objects d)) calls" and ?ns = "replicate (length calls) (length D + m)"
  have run': "pool_run (pool_start d ?ps) p" using run by (simp add: device_calls_def invD(4) [OF d])
  have rm': "room (bd_backend d) (sum_list ?ns)" using rm by (simp add: sum_list_replicate)
  have sf: "safely (call_outcome (calls ! i)) (?ps ! i) (?ns ! i) d" if "i < length ?ps" for i
    using that calls by (auto intro!: safe_call [OF d L com])
  have len: "length (po_threads p) = length calls" using pool_run_length [OF run'] by (simp add: pool_start_def)
  note ps = pool_safe [of d ?ps p ?ns "\<lambda>i. call_outcome (calls ! i)", OF run' d _ rm' sf]
  show ?thesis using ps len by simp
qed

end

interpretation mem_shared: shared_device "memory_backend L" memory_invar memory_room mb_messages L' bmap disk D
  for L L' bmap disk D
  by unfold_locales

end
