(* ===== verification/ServeRel.thy ===== *)
theory ServeRel
  imports Serve ConcurrentFlush "HOL-Library.Sublist"
begin

text \<open>
  Clients that read and flush at the same time. The answers a client is to get are those of an
  observer, a backend that reads a fixed disk and records whether there was a write and how many
  flushes there were; inside \<open>shared_device\<close> every connection of the server gives them, or a prefix
  of them when the device fails.
\<close>

section \<open>The observer\<close>

record observer =
  ob_wrote :: bool
  ob_flushes :: nat

definition observer_nbd :: "bytes \<Rightarrow> observer nbd_backend" where
  "observer_nbd disk = \<lparr>nb_read_at = (\<lambda>offset len. ret (slice (unat offset) (unat offset + len) disk)),
     nb_write_at = (\<lambda>offset bs. upd (\<lambda>ob. ob\<lparr>ob_wrote := True\<rparr>)),
     nb_flush = upd (\<lambda>ob. ob\<lparr>ob_flushes := Suc (ob_flushes ob)\<rparr>)\<rparr>"

definition observed :: "NbdServerOptions \<Rightarrow> bytes \<Rightarrow> bytes \<Rightarrow> unit res \<times> observer conn" where
  "observed opts disk sent =
     handle_client opts (observer_nbd disk) \<lparr>cn_input = sent, cn_output = [], cn_backend = \<lparr>ob_wrote = False, ob_flushes = 0\<rparr>\<rparr>"

text \<open>Output, flushes and the sign of a write only grow.\<close>

definition watched :: "observer conn \<Rightarrow> observer conn \<Rightarrow> bool" where
  "watched c c' \<longleftrightarrow> prefix (cn_output c) (cn_output c') \<and> ob_flushes (cn_backend c) \<le> ob_flushes (cn_backend c') \<and>
     (ob_wrote (cn_backend c) \<longrightarrow> ob_wrote (cn_backend c'))"

lemma watched_refl [simp]: "watched c c"
  by (simp add: watched_def)

lemma watched_trans: "watched a b \<Longrightarrow> watched b c \<Longrightarrow> watched a c"
  by (auto simp: watched_def)

lemma watched_steps:
  "on_input m c = (x, c') \<Longrightarrow> watched c c'"
  "emit bs c = (y, c') \<Longrightarrow> watched c c'"
  "write_reply e h c = (y, c') \<Longrightarrow> watched c c'"
  "on_disk (nb_read_at (observer_nbd disk) offset len) c = (z, c') \<Longrightarrow> watched c c'"
  "on_disk (nb_write_at (observer_nbd disk) offset bs) c = (y, c') \<Longrightarrow> watched c c'"
  "on_disk (nb_flush (observer_nbd disk)) c = (y, c') \<Longrightarrow> watched c c'"
  by (auto simp: watched_def on_input_def on_disk_def observer_nbd_def write_reply_def bnd_apply split: prod.splits)

lemma watched_bnd:
  assumes "bnd m f c = (x, c')" "\<And>y c1. m c = (y, c1) \<Longrightarrow> watched c c1" "\<And>y c1 c2 z. f y c1 = (z, c2) \<Longrightarrow> watched c1 c2"
  shows "watched c c'"
  using assms by (auto simp: bnd_apply split: prod.splits sum.splits intro: watched_trans)

lemma watched_serve: "serve_request opts (observer_nbd disk) request c = (x, c') \<Longrightarrow> watched c c'"
  unfolding serve_request_def
  by (auto split: if_splits elim!: watched_bnd dest: watched_steps)

lemma watched_transmission: "transmission opts (observer_nbd disk) c = (x, c') \<Longrightarrow> watched c c'"
proof (induction opts "observer_nbd disk" c rule: transmission.induct)
  case (1 opts c)
  show ?case
  proof (cases "on_input read_from c")
    case (Pair z c1)
    note w1 = watched_steps(1) [OF Pair]
    show ?thesis
    proof (cases z)
      case (Inl e)
      then show ?thesis using 1(2) w1 Pair by (subst (asm) transmission.simps) (auto split: if_splits)
    next
      case (Inr request)
      obtain y c2 where s: "serve_request opts (observer_nbd disk) request c1 = (y, c2)" by force
      note w2 = watched_trans [OF w1 watched_serve [OF s]]
      show ?thesis
        using 1(2) w2 Pair Inr s 1(1) [OF Pair [symmetric] Inr s [symmetric]]
        by (subst (asm) transmission.simps) (auto split: sum.splits if_splits intro: watched_trans)
    qed
  qed
qed

lemma tbnd_shared: "tbnd (shared_call p) f c = pcatch p (\<lambda>x. case x of Inl e \<Rightarrow> Finish (Inr (Inl e, c)) | Inr y \<Rightarrow> f y c)"
  unfolding tbnd_def shared_call_def pbnd_pcatch pcatch_pcatch by (rule arg_cong [where f = "pcatch p"]) (auto split: sum.split)

lemma tbnd_own: "tbnd (own_step m) f c = (case m c of (Inl e, c') \<Rightarrow> Finish (Inr (Inl e, c')) | (Inr y, c') \<Rightarrow> f y c')"
  by (simp add: tbnd_def own_step_def split: prod.split sum.split)

context shared_device
begin

text \<open>
  One request beside the others: what the observer answers, with the units of the other requests left, or an error
  and no answer.
\<close>

definition request_outcome :: "bool res \<Rightarrow> observer conn \<Rightarrow> nat \<Rightarrow> (bool res \<times> streams) res \<Rightarrow> nat \<Rightarrow> 'b BlockDevice \<Rightarrow> bool" where
  "request_outcome y c rest x n d \<longleftrightarrow> x = Inr (y, detach c) \<and> (\<exists>k. n = k + rest) \<or>
     (\<exists>e s. x = Inr (Inl e, s) \<and> prefix (cn_output s) (cn_output c))"

lemma safe_answer:
  assumes d: "cinv d" and p: "safely R p n d"
    and f: "\<And>bs d' k. cinv d' \<Longrightarrow> R (Inr bs) k d' \<Longrightarrow> f bs c = Finish (Inr (y, detach c2))"
    and pre: "prefix (cn_output c) (cn_output c2)"
  shows "safely (request_outcome y c2 rest) (tbnd (shared_call p) f c) (n + rest) d"
  unfolding tbnd_shared
proof (rule safe_pcatch [OF safe_frame [OF p] d])
  fix x n' d' assume d': "cinv d'" and r: "\<And>d2. cguar d' d2 \<Longrightarrow> cinv d2 \<Longrightarrow> \<exists>k. n' = k + rest \<and> R x k d2"
  show "safely (request_outcome y c2 rest) (case x of Inl e \<Rightarrow> Finish (Inr (Inl e, c)) | Inr bs \<Rightarrow> f bs c) n' d'"
    using r [OF guar_refl d'] f [OF d'] pre by (cases x) (auto simp: request_outcome_def)
qed

lemma safe_serve:
  assumes d: "cinv d" and L: "digest32 L" and com: "commits_safely invar room stored m (bd_committer d)"
    and sz: "op_device_size opts = bm_device_size bmap"
    and s: "serve_request opts (observer_nbd disk) request (attach c ob) = (y, c2)" and nw: "\<not> ob_wrote (cn_backend c2)"
  shows "safely (request_outcome y c2 rest) (serve_request_task opts (call_prog L B bmap ahead) request c)
    ((ob_flushes (cn_backend c2) - ob_flushes ob) * (length D + m) + rest) d"
proof -
  let ?r = request and ?K = "call_prog L B bmap ahead"
  have quiet: "safely (request_outcome y c2 rest) (Finish (Inr (y, detach c2))) (k + rest) d" for k
    by (auto simp: request_outcome_def)
  have flush: "safely (call_outcome FlushCall) (?K FlushCall) (length D + m) d"
    by (rule safe_call [OF d L com]) (simp_all add: call_op_def op_in_range_def)
  have pre: "prefix (cn_output c) (cn_output c2)" using watched_serve [OF s] by (simp add: watched_def)
  note sim = serve_request_task_def serve_request_def bnd_apply tbnd_own own_step_def attach_def detach_def write_reply_def on_disk_def observer_nbd_def
  consider (read) "rq_command ?r = CMD_READ" "bounds_ok (op_device_size opts) (rq_offset ?r) (rq_length ?r)"
    | (writing) "rq_command ?r = CMD_WRITE" "bounds_ok (op_device_size opts) (rq_offset ?r) (rq_length ?r)"
    | (flush) "rq_command ?r = CMD_FLUSH \<or> rq_command ?r = CMD_DISC" | (other) "\<not> bounds_ok (op_device_size opts) (rq_offset ?r) (rq_length ?r) \<or>
       rq_command ?r \<noteq> CMD_READ \<and> rq_command ?r \<noteq> CMD_WRITE" "rq_command ?r \<noteq> CMD_FLUSH" "rq_command ?r \<noteq> CMD_DISC" by blast
  then show ?thesis
  proof cases
    case read
    have b: "unat (rq_offset ?r) + unat (rq_length ?r) \<le> unat (bm_device_size bmap)" using read(2) by (simp add: bounds_ok_unat sz)
    have "safely (\<lambda>x n' d'. \<forall>bs. x = Inr bs \<longrightarrow> bs = slice (unat (rq_offset ?r)) (unat (rq_offset ?r) + unat (rq_length ?r)) disk)
        (?K (ReadCall (rq_offset ?r) (unat (rq_length ?r)))) k d" for k
      using safe_read_at [OF d L b] by (simp add: call_prog_def)
    then show ?thesis
      using read s pre by (auto simp: serve_request_task_def intro!: safe_answer [OF d]) (auto simp: sim)
  next
    case writing
    then have "\<exists>e c1. on_input (read_exact (unat (rq_length ?r))) c = (Inl e, c1) \<and> y = Inl e \<and> c2 = attach c1 ob"
      using s [unfolded serve_request_def] nw
      by (simp add: cmd_defs bnd_apply on_input_def on_disk_def observer_nbd_def attach_def write_reply_def split: prod.splits sum.splits) auto
    then show ?thesis using writing quiet [of 0] by (auto simp: serve_request_task_def tbnd_own cmd_defs)
  next
    case flush
    then have "ob_flushes (cn_backend c2) - ob_flushes ob = 1"
      using s by (elim disjE) (auto simp: sim cmd_defs)
    then show ?thesis
      using flush s pre safe_answer [OF d \<open>safely (call_outcome FlushCall) (?K FlushCall) (length D + m) d\<close>]
      by (auto simp: serve_request_task_def cmd_defs) (auto simp: sim cmd_defs)
  next
    case other
    then have "serve_request_task opts ?K ?r c = Finish (Inr (y, detach c2))"
      using s by (auto simp: sim on_input_def split: prod.splits sum.splits if_splits)
    then show ?thesis using quiet by simp
  qed
qed


definition served_outcome :: "unit res \<Rightarrow> observer conn \<Rightarrow> (unit res \<times> streams) res \<Rightarrow> nat \<Rightarrow> 'b BlockDevice \<Rightarrow> bool" where
  "served_outcome y c x n d \<longleftrightarrow>
     (\<exists>z s. x = Inr (z, s) \<and> prefix (cn_output s) (cn_output c) \<and> (z = Inr () \<longrightarrow> y = Inr () \<and> cn_output s = cn_output c))"

lemma safe_transmission:
  assumes "cinv d" and L: "digest32 L" and "commits_safely invar room stored m (bd_committer d)"
    and sz: "op_device_size opts = bm_device_size bmap"
    and "transmission opts (observer_nbd disk) (attach c ob) = (y, c')" and nw: "\<not> ob_wrote (cn_backend c')"
  shows "safely (served_outcome y c') (transmission_task opts (call_prog L B bmap ahead) c)
    ((ob_flushes (cn_backend c') - ob_flushes ob) * (length D + m)) d"
  using assms(1,3,5)
proof (induction "length (cn_input c)" arbitrary: c ob d rule: less_induct)
  case less
  note i = stream_input [of read_from, unfolded beside_device_def, rule_format, of c ob]
  obtain z c1 where r: "on_input read_from c = (z, c1)" by force
  show ?case
  proof (cases z)
    case (Inl e)
    then show ?thesis
      using less.prems(3) by (subst transmission_task.simps, subst (asm) transmission.simps)
        (auto simp: r i served_outcome_def split: if_splits)
  next
    case (Inr request)
    obtain a c2 where s: "serve_request opts (observer_nbd disk) request (attach c1 ob) = (a, c2)" by force
    have len: "length (cn_input (detach c2)) < length (cn_input c)"
      using serve_request_length [of opts "observer_nbd disk" request "attach c1 ob"] s on_input_frame [OF r] Inr
        read_length [of "cn_input c"] by (force simp: detach_def)
    have t: "(y, c') = (case a of Inl e \<Rightarrow> (Inl e, c2) | Inr continue \<Rightarrow> if continue then transmission opts (observer_nbd disk) c2 else (Inr (), c2))"
      using less.prems(3) Inr by (subst (asm) transmission.simps) (auto simp: r i s split: sum.splits)
    have w: "watched c2 c'"
      using t watched_transmission [of opts disk c2 y c'] by (auto split: sum.splits if_splits)
    then have "\<not> ob_wrote (cn_backend c2)" and fl: "ob_flushes (cn_backend c2) \<le> ob_flushes (cn_backend c')"
      "prefix (cn_output c2) (cn_output c')" using nw by (auto simp: watched_def)
    have "ob_flushes ob \<le> ob_flushes (cn_backend c2)" using watched_serve [OF s] by (simp add: watched_def)
    then have units: "(ob_flushes (cn_backend c') - ob_flushes ob) * (length D + m) =
        (ob_flushes (cn_backend c2) - ob_flushes ob) * (length D + m) + (ob_flushes (cn_backend c') - ob_flushes (cn_backend c2)) * (length D + m)"
      using fl(1) by (simp flip: add_mult_distrib)
    let ?rest = "(ob_flushes (cn_backend c') - ob_flushes (cn_backend c2)) * (length D + m)"
    show ?thesis
      unfolding transmission_task.simps [of _ _ c] r Inr units prod.case sum.case
    proof (rule safe_pbnd [OF safe_serve [OF less.prems(1) L less.prems(2) sz s \<open>\<not> ob_wrote (cn_backend c2)\<close>] less.prems(1)])
      fix x n' d' assume g: "cguar d d'" and d': "cinv d'" and x: "request_outcome a c2 ?rest (Inr x) n' d'"
      have com: "commits_safely invar room stored m (bd_committer d')" using less.prems(2) guarD(2) [OF g] by simp
      have ih: "safely (served_outcome y c') (transmission_task opts (call_prog L B bmap ahead) (detach c2)) (?rest + k) d'"
        if "transmission opts (observer_nbd disk) c2 = (y, c')" for k
        using safe_frame [OF less.hyps [OF len d' com, of "cn_backend c2"], of k] that
        by (auto simp: served_outcome_def elim!: safe_mono)
      show "safely (served_outcome y c') (case x of (Inl e, c2) \<Rightarrow> Finish (Inr (Inl e, c2))
          | (Inr continue, c2) \<Rightarrow> if continue then transmission_task opts (call_prog L B bmap ahead) c2 else Finish (Inr (Inr (), c2))) n' d'"
        using x t ih fl(2) unfolding request_outcome_def
        by (auto simp: served_outcome_def detach_def add.commute split: sum.splits if_splits)
    qed (auto simp: request_outcome_def)
  qed
qed

lemma safe_connection:
  assumes d: "cinv d" and L: "digest32 L" and com: "commits_safely invar room stored m (bd_committer d)"
    and sz: "op_device_size opts = bm_device_size bmap"
    and o: "observed opts disk inp = (y, c')" and nw: "\<not> ob_wrote (cn_backend c')"
  shows "safely (served_outcome y c') (connection opts (call_prog L B bmap ahead) inp)
    (ob_flushes (cn_backend c') * (length D + m)) d"
proof -
  let ?c = "\<lparr>cn_input = inp, cn_output = [], cn_backend = ()\<rparr>" and ?ob = "\<lparr>ob_wrote = False, ob_flushes = 0\<rparr>"
  obtain z c1 where n: "negotiate opts ?c = (z, c1)" by force
  have a: "negotiate opts (attach ?c ?ob) = (z, attach c1 ?ob)"
    using stream_negotiate [of opts, unfolded beside_device_def, rule_format, of ?c ?ob] n by simp
  have b: "attach ?c ?ob = \<lparr>cn_input = inp, cn_output = [], cn_backend = ?ob\<rparr>" by (simp add: attach_def)
  show ?thesis
  proof (cases z)
    case (Inl e)
    then show ?thesis
      using o a by (auto simp: connection_def handle_client_task_def tbnd_own n observed_def handle_client_def bnd_apply b served_outcome_def)
  next
    case (Inr u)
    then have "transmission opts (observer_nbd disk) (attach c1 ?ob) = (y, c')"
      using o a by (simp add: observed_def handle_client_def bnd_apply b)
    from safe_transmission [OF d L com sz this nw] show ?thesis
      by (simp add: connection_def handle_client_task_def tbnd_own n Inr)
  qed
qed

lemma clients_served:
  assumes d: "cinv d" and L: "digest32 L" and com: "commits_safely invar room stored m (bd_committer d)"
    and sz: "op_device_size opts = bm_device_size bmap"
    and nw: "\<forall>inp\<in>set clients. \<not> ob_wrote (cn_backend (snd (observed opts disk inp)))"
    and rm: "room (bd_backend d) (sum_list (map (\<lambda>inp. ob_flushes (cn_backend (snd (observed opts disk inp)))) clients) * (length D + m))"
    and run: "serve opts (call_prog L B bmap ahead) d clients c"
  shows "cinv (po_shared c) \<and> (\<forall>i < length clients. \<forall>x. po_threads c ! i = Finish x \<longrightarrow>
    (\<exists>n. served_outcome (fst (observed opts disk (clients ! i))) (snd (observed opts disk (clients ! i))) x n (po_shared c)))"
proof -
  let ?ps = "map (connection opts (call_prog L B bmap ahead)) clients"
  let ?ns = "map (\<lambda>inp. ob_flushes (cn_backend (snd (observed opts disk inp))) * (length D + m)) clients"
  let ?Q = "\<lambda>i. served_outcome (fst (observed opts disk (clients ! i))) (snd (observed opts disk (clients ! i)))"
  have run': "pool_run (pool_start d ?ps) c" by (rule serve_pool [OF run])
  have rm': "room (bd_backend d) (sum_list ?ns)" using rm by (simp add: sum_list_mult_const)
  have sf: "safely (?Q i) (?ps ! i) (?ns ! i) d" if "i < length ?ps" for i
    using that nw safe_connection [OF d L com sz, of "clients ! i"] by simp
  have len: "length (po_threads c) = length clients" using pool_run_length [OF run'] by (simp add: pool_start_def)
  note ps = pool_safe [of d ?ps c ?ns ?Q, OF run' d _ rm' sf]
  show ?thesis using ps len by simp
qed

end

end
