(* ===== verification/ConcurrentTheorems.thy ===== *)
theory ConcurrentTheorems
  imports ServeRel NbdTheorems
begin

text \<open>
  Properties of a device that several connections share. A connection that runs alone is
  \<open>handle_client\<close>; connections never deadlock and always end; reads beside flushes return the disk;
  and one schedule of a write beside a flush, in which the write returns and its bytes are lost.
\<close>

section \<open>A write beside a flush\<close>

text \<open>The uploads change no entry but those of their objects.\<close>

lemma upload_dirty_other:
  assumes "upload_dirty L B x d = (y, d')" "unat i < length (m_objects (bd_manifest d))"
    "mo_object_id (m_objects (bd_manifest d) ! unat i) \<noteq> do_object_id x"
  shows "m_objects (bd_manifest d') ! unat i = m_objects (bd_manifest d) ! unat i \<and> bd_store d' = bd_store d \<and>
    length (m_objects (bd_manifest d')) = length (m_objects (bd_manifest d))"
proof -
  have "k \<noteq> unat i" if "position_of (do_object_id x) (m_objects (bd_manifest d)) = Some k" for k
  proof -
    let ?xs = "m_objects (bd_manifest d)"
    have k: "k = length (takeWhile (\<lambda>z. mo_object_id z \<noteq> do_object_id x) ?xs)" "k < length ?xs"
      using that by (auto simp: position_of_def Let_def split: if_splits)
    then have "mo_object_id (?xs ! k) = do_object_id x" using nth_length_takeWhile [of "\<lambda>z. mo_object_id z \<noteq> do_object_id x" ?xs] by simp
    then show ?thesis using assms(3) by auto
  qed
  then show ?thesis using assms(1)
    by (auto simp: upload_dirty_def bnd_apply read_file_def on_backend_def on_metrics_def commit_entry_objects ok_or_def
        split: prod.splits sum.splits option.splits)
qed

lemma upload_all_other:
  assumes "upload_all L B xs d = (y, d')" "unat i < length (m_objects (bd_manifest d))"
    "\<forall>x\<in>set xs. mo_object_id (m_objects (bd_manifest d) ! unat i) \<noteq> do_object_id x"
  shows "m_objects (bd_manifest d') ! unat i = m_objects (bd_manifest d) ! unat i \<and> bd_store d' = bd_store d"
  using assms
proof (induction xs arbitrary: d)
  case (Cons x xs)
  obtain z d1 where up: "upload_dirty L B x d = (z, d1)" by force
  note o = upload_dirty_other [OF up Cons.prems(2)]
  show ?case
  proof (cases z)
    case (Inl e)
    then show ?thesis using Cons.prems o up by (auto simp: bnd_apply)
  next
    case (Inr u)
    then have "upload_all L B xs d1 = (y, d')" using Cons.prems(1) up by (simp add: bnd_apply)
    then show ?thesis using Cons.IH [of d1] Cons.prems o by simp
  qed
qed simp

text \<open>A write inside one object leaves the dirty rows of the others.\<close>

lemma write_dirty_rows:
  assumes "write_dirty_object L i object off len d = (Inr (), d')"
  shows "dirty_object i (bd_store d') \<noteq> None" "j \<noteq> i \<Longrightarrow> dirty_object j (bd_store d') = dirty_object j (bd_store d)"
    "length (ls_dirty_objects (bd_store d')) \<le> Suc (length (ls_dirty_objects (bd_store d)))"
proof -
  obtain g enc x s1 path sha y s2 where wc: "write_cache L i g enc True (bd_store d) = (x, s1)"
    and md: "mark_dirty L i g path sha off len s1 = (y, s2)" and d': "d' = d\<lparr>bd_store := s2\<rparr>"
    using assms(1) by (auto simp: write_dirty_object_def bnd_apply on_store_def split: sum.splits prod.splits)
  have rows: "ls_dirty_objects s2 = upsert_dirty_row (dirty_row_of L s1 i g path sha) (ls_dirty_objects s1)"
    using mark_dirty_rows [of L i g path sha off len s1] md by simp
  note up = dirty_object_upsert [OF rows]
  have same: "ls_dirty_objects s1 = ls_dirty_objects (bd_store d)" using write_cache_spec [OF wc] by (simp add: store_frame_def)
  then have s1: "dirty_object k s1 = dirty_object k (bd_store d)" for k by (simp add: dirty_object_def)
  show "dirty_object i (bd_store d') \<noteq> None" by (simp add: d' up dirty_row_of_def)
  show "j \<noteq> i \<Longrightarrow> dirty_object j (bd_store d') = dirty_object j (bd_store d)" by (simp add: d' up s1 dirty_row_of_def)
  show "length (ls_dirty_objects (bd_store d')) \<le> Suc (length (ls_dirty_objects (bd_store d)))"
    by (simp add: d' rows same length_upsert_dirty)
qed

lemma write_one_rows:
  assumes loc: "locate (bd_map d) offset = Inr (i, off)" and fit: "off + length bs \<le> device_object_size d" "bs \<noteq> []"
    and w: "write_at L B offset bs d = (Inr (), d')"
  shows "dirty_object i (bd_store d') \<noteq> None" "j \<noteq> i \<Longrightarrow> dirty_object j (bd_store d') = dirty_object j (bd_store d)"
    "length (ls_dirty_objects (bd_store d')) \<le> Suc (length (ls_dirty_objects (bd_store d)))"
proof -
  let ?k = "min (length bs) (device_object_size d - off)"
  have k: "?k = length bs" using fit by simp
  obtain y d1 where ro: "(if off = 0 \<and> ?k = device_object_size d then (Inr (replicate (device_object_size d) 0), d)
      else read_object L B i d) = (y, d1)" by force
  have c: "same_core d d1" using ro read_object_core [of d L B i] by (auto split: if_splits)
  have "write_loop L B bs (length bs) 0 offset d = (Inr (), d')" using w by (simp add: write_at_def bnd_apply split: sum.splits)
  then obtain object where wd: "write_dirty_object L i object (of_nat off) (of_nat ?k) d1 = (Inr (), d')"
    using write_loop_step [OF _ loc ro, of bs 0] fit
    by (auto simp: k write_loop_zero split: sum.splits if_splits prod.splits)
  show "dirty_object i (bd_store d') \<noteq> None" by (rule write_dirty_rows(1) [OF wd])
  show "j \<noteq> i \<Longrightarrow> dirty_object j (bd_store d') = dirty_object j (bd_store d)"
    using write_dirty_rows(2) [OF wd] same_core_store [OF c] by simp
  show "length (ls_dirty_objects (bd_store d')) \<le> Suc (length (ls_dirty_objects (bd_store d)))"
    using write_dirty_rows(3) [OF wd] c by (simp add: same_core_def)
qed

text \<open>What a flush does after a write has come between its list of dirty objects and its uploads.\<close>

context live_backend
begin

lemma flush_after_write:
  assumes rel: "dev_rel L invar stored d1 disk1" and L: "digest32 L" "json_writes L" and com: "bd_committer d1 = None"
    and D: "D \<noteq> []" "\<forall>x\<in>set D. dirty_object (do_object_id x) (bd_store d1) = Some x"
    and gen: "unat (m_generation (bd_manifest d1)) + 1 < 2 ^ 64" "m_generation (bd_manifest d1) \<le> max_generation D"
    and rm: "room (bd_backend d1) (length D)"
    and i: "unat i < length (m_objects (bd_manifest d1))" "\<forall>x\<in>set D. do_object_id x \<noteq> i"
  shows "\<exists>d2. bnd (new_generation L D) (\<lambda>_. bnd (upload_all L B D) (\<lambda>_. bnd run_committer (\<lambda>_. commit_section L))) d1 = (Inr (), d2) \<and>
    ls_dirty_objects (bd_store d2) = [] \<and> find_object i (bd_manifest d2) = Some (m_objects (bd_manifest d1) ! unat i) \<and>
    device_object_size d2 = device_object_size d1"
proof -
  let ?d = "d1\<lparr>bd_manifest := (bd_manifest d1)\<lparr>m_generation := max_generation D\<rparr>\<rparr>"
  have keys: "dirty_keys_ok (bd_store d1)" using rel by (simp add: dev_rel_def store_ok_def)
  have sub: "set D \<subseteq> set (dirty_objects (bd_store d1))" using D(2) by (auto simp: mem_dirty_objects [OF keys])
  have relg: "dev_rel L invar stored ?d disk1"
  proof (rule dev_rel_generation [OF rel gen(2)])
    have "unat (do_generation x) \<le> unat (max_generation (dirty_objects (bd_store d1)))" if "x \<in> set D" for x
      using max_generation_ge [of x "dirty_objects (bd_store d1)"] that sub by (auto simp: word_le_nat_alt)
    then show "max_generation D \<le> max_generation (dirty_objects (bd_store d1))"
      using max_generation_le [of D] by (simp add: word_le_nat_alt)
  qed
  have pre: "dirty_object (do_object_id x) (bd_store ?d) = Some x \<and> do_generation x \<le> m_generation (bd_manifest ?d)" if "x \<in> set D" for x
    using D(2) that max_generation_ge [OF that] by simp
  have rm0: "room (bd_backend ?d) (length D + 0)" using rm by simp
  obtain d2 where up: "upload_all L B D ?d = (Inr (), d2)" using upload_all_live [OF relg L(1) pre rm0] by blast
  note u = upload_all_rel [OF relg L(1) pre rm0 up]
  have sb: "same_but_manifest ?d d2" and rel2: "dev_rel L invar stored d2 disk1" using u by simp_all
  have ids: "mo_object_id (m_objects (bd_manifest d1) ! unat i) = i"
    using shape_ids [of d1 disk1 "unat i"] rel i(1) by (simp add: dev_rel_def)
  have ent: "m_objects (bd_manifest d2) ! unat i = m_objects (bd_manifest d1) ! unat i" "bd_store d2 = bd_store d1"
    using upload_all_other [OF up, of i] i ids by auto
  have sel: "bd_committer d2 = None" "bd_map d2 = bd_map d1" using sb com by (simp_all add: same_but_manifest_def)
  have shape: "map mo_object_id (m_objects (bd_manifest d2)) = map of_nat [0..<length (m_objects (bd_manifest d2))]"
    "length (m_objects (bd_manifest d2)) < 2 ^ 64" "length (m_objects (bd_manifest d2)) = length (m_objects (bd_manifest d1))"
    using rel2 same_but_manifestD [OF sb] by (simp_all add: dev_rel_def shape_ok_def)
  then have "distinct (map mo_object_id (m_objects (bd_manifest d2)))" by (simp add: map_of_nat_upt_distinct)
  moreover obtain json where "json_manifest L (bd_manifest d2) = Inr json" using L(2) unfolding json_writes_def by blast
  ultimately obtain s' where rp: "replace_from_manifest L (bd_manifest d2) (bd_store d2) = (Inr (), s')"
    using replace_from_manifest_ok by blast
  have "find_object i (bd_manifest d2) = Some (m_objects (bd_manifest d1) ! unat i)"
    using find_object_nth [OF shape(1,2), of i] i(1) shape(3) ent by simp
  then show ?thesis
    using gen(1) up rp sel
    by (auto simp: new_generation_def add_w_Inr bnd_apply run_committer_def commit_section_def on_store_def clear_dirty_and_wal_def
        device_object_size_def)
qed

end

lemma flush_interrupted:
  fixes q :: "('b BlockDevice, bytes) prog"
  assumes ne: "ls_dirty_objects (bd_store d) \<noteq> []"
    and other: "orderly {} q {}" "run q d = (Inr [], d1)"
    and rest: "bnd (new_generation L (dirty_objects (bd_store d))) (\<lambda>_. bnd (upload_all L B (dirty_objects (bd_store d))) (\<lambda>_.
      bnd run_committer (\<lambda>_. commit_section L))) d1 = (Inr (), d2)"
  shows "\<exists>p. pool_run (pool_start d [pbnd (flush_prog L B) (\<lambda>_. Finish (Inr [])), q]) p \<and>
    po_threads p = [Finish (Inr []), Finish (Inr [])] \<and> po_shared p = d2"
proof -
  let ?D = "dirty_objects (bd_store d)" and ?G = "\<lambda>_ :: unit. Finish (Inr []) :: ('b BlockDevice, bytes) prog"
  let ?snap = "locked StoreLock (act (gets (\<lambda>d. dirty_objects (bd_store d))))"
  define body where "body ds = (if ds = [] then Finish (Inr ()) else locked ManifestLock (
     pbnd (act (new_generation L ds)) (\<lambda>_. pbnd (upload_all_prog L B ds) (\<lambda>_.
     pbnd (act run_committer) (\<lambda>_. locked StoreLock (act (commit_section L)))))))" for ds
  define F where "F = pbnd (body ?D) ?G"
  let ?c0 = "pool_start d [pbnd (flush_prog L B) ?G, q]"
  let ?f = "\<lambda>x. case x of Inl e \<Rightarrow> Finish (Inl e) | Inr ds \<Rightarrow> pbnd (body ds) ?G"
  have fl: "pbnd (flush_prog L B) ?G = pcatch ?snap ?f"
    by (simp only: flush_prog_def body_def pbnd_assoc) (rule pbnd_pcatch)
  have "orderly {} ?snap {}" by (intro orderly_rules) simp_all
  then have "pool_run ?c0 \<lparr>po_shared = d, po_held = {}, po_threads = [F, q]\<rparr>" (is "pool_run _ ?c1")
    using run_front [of "{}" ?snap "{}" 0 ?c0 ?f] fl by (simp add: pool_start_def F_def)
  moreover have "pool_run ?c1 \<lparr>po_shared = d1, po_held = {}, po_threads = [F, Finish (Inr [])]\<rparr>" (is "pool_run _ ?c2")
    using run_whole [OF other(1), of 1 ?c1] by (simp add: other(2))
  moreover have "pool_run ?c2 \<lparr>po_shared = d2, po_held = {}, po_threads = [Finish (Inr []), Finish (Inr [])]\<rparr>" (is "pool_run _ ?c3")
  proof -
    have "orderly {} F {}" unfolding F_def body_def by (auto intro!: orderly_rules orderly_upload_all simp del: orderly.simps pbnd.simps)
    moreover have "run F d1 = (Inr [], d2)"
      using rest ne by (auto simp: F_def body_def bnd_apply run_upload_all split: prod.splits sum.splits)
    ultimately show ?thesis using run_whole [of F 0 ?c2] by simp
  qed
  ultimately have "pool_run ?c0 ?c3" using pool_run_trans by blast
  then show ?thesis by (intro exI [of _ ?c3]) simp
qed

text \<open>A device with one dirty object, and a hole next to it.\<close>

lemma toy_one_dirty:
  "\<exists>d. write_at (toy_libs True) (memory_backend (toy_libs True)) 0 [7] toy_device = (Inr (), d) \<and>
     dev_rel (toy_libs True) memory_invar mb_messages d (splice_at 0 [7] (replicate (512 * 131072) 0)) \<and>
     same_config toy_device d \<and> ls_dirty_objects (bd_store d) \<noteq> [] \<and> dirty_object 1 (bd_store d) = None \<and>
     length (ls_dirty_objects (bd_store d)) \<le> 1 \<and> memory_room (bd_backend d) = memory_room (memory_new 5)"
proof -
  let ?L = "toy_libs True" and ?B = "memory_backend (toy_libs True)"
  have sz: "device_object_size toy_device = 131072" by (simp add: device_object_size_def toy_sel)
  obtain d where w: "write_at ?L ?B 0 [7] toy_device = (Inr (), d)"
    using mem_live.write_at_succeeds [OF toy_rel, of ?L 0 "[7]" 1] by (auto simp: toy_sel sz stats_def)
  have wr: "wrote ?L memory_invar memory_room mb_messages toy_device d (splice_at 0 [7] (replicate (512 * 131072) 0))"
    using mem.write_at_rel [OF toy_rel _ _ _ w] by (auto simp: toy_sel)
  have loc: "locate (bd_map toy_device) 0 = Inr (0, 0)" by (simp add: locate_def toy_sel)
  note rows = write_one_rows [OF loc _ _ w]
  have "dirty_object 0 (bd_store d) \<noteq> None" "dirty_object 1 (bd_store d) = None" "length (ls_dirty_objects (bd_store d)) \<le> 1"
    using rows(1) rows(2) [of 1] rows(3) by (auto simp: sz dirty_object_def toy_sel)
  moreover have "ls_dirty_objects (bd_store d) \<noteq> []" using calculation(1) by (auto simp: dirty_object_def)
  ultimately show ?thesis using w wr by (simp add: wrote_def toy_sel)
qed

text \<open>Calls run to their end from wherever they are.\<close>

lemma calls_complete:
  assumes "pool_run (device_calls L B d calls) p"
  shows "\<exists>p'. pool_run p p' \<and> (\<forall>t\<in>set (po_threads p'). ended t)"
  by (rule pool_completes [OF _ assms [unfolded device_calls_def]]) (auto simp: orderly_call)

lemma connections_complete:
  assumes "serve opts (call_prog L B (bd_map d) (bd_read_ahead_objects d)) d clients c"
  shows "\<exists>c'. pool_run c c' \<and> (\<forall>t\<in>set (po_threads c'). ended t)"
  by (rule pool_completes [OF _ serve_pool [OF assms]]) (auto intro: orderly_connection orderly_call)

lemma serve_completes:
  "\<exists>c. serve opts (call_prog L B (bd_map d) (bd_read_ahead_objects d)) d clients c \<and> (\<forall>t\<in>set (po_threads c). ended t)"
proof -
  let ?K = "call_prog L B (bd_map d) (bd_read_ahead_objects d)"
  obtain c where run: "pool_run (pool_start d (map (connection opts ?K) clients)) c" "\<forall>t\<in>set (po_threads c). ended t"
    using connections_complete [OF serve_start] by blast
  from serve_more [OF run(1) serve_start] run(2) show ?thesis by (intro exI [of _ c] conjI)
qed

text \<open>A client that reads two bytes and disconnects, and what it is to get.\<close>

definition toy_reader :: bytes where
  "toy_reader = be32 0 @ option_bytes OPT_GO (go_data [] [0, 0]) @
     request_bytes 0 \<lparr>rq_command = CMD_READ, rq_handle = 1, rq_offset = 0, rq_length = 2\<rparr> @
     request_bytes 0 \<lparr>rq_command = CMD_DISC, rq_handle = 2, rq_offset = 0, rq_length = 0\<rparr>"

lemma toy_observed:
  assumes "slice 0 2 disk = [7, 0]"
  shows "cn_output (snd (observed toy_options disk toy_reader)) = greeting @ go_reply toy_options @ reply_bytes 0 1 @ [7, 0]"
    "cn_backend (snd (observed toy_options disk toy_reader)) = \<lparr>ob_wrote = False, ob_flushes = 1\<rparr>"
proof -
  let ?read = "\<lparr>rq_command = CMD_READ, rq_handle = 1, rq_offset = 0, rq_length = 2\<rparr>"
    and ?disc = "\<lparr>rq_command = CMD_DISC, rq_handle = 2, rq_offset = 0, rq_length = 0\<rparr>"
  have in_bounds: "bounds_ok (op_device_size toy_options) 0 2" by (simp add: bounds_ok_unat toy_options_def)
  let ?N = "observer_nbd disk"
  have disc: "transmission toy_options ?N c = (Inr (), c\<lparr>cn_input := [], cn_backend := (cn_backend c)\<lparr>ob_flushes := Suc (ob_flushes (cn_backend c))\<rparr>\<rparr>)"
    if "cn_input c = request_bytes 0 ?disc" for c
    using that read_from_request [of 0 ?disc "[]"]
    by (subst transmission.simps) (simp add: on_input_def serve_request_def bnd_apply on_disk_def observer_nbd_def cmd_defs)
  have rd: "transmission toy_options ?N c = (Inr (), c\<lparr>cn_input := [], cn_output := cn_output c @ reply_bytes 0 1 @ [7, 0],
      cn_backend := (cn_backend c)\<lparr>ob_flushes := Suc (ob_flushes (cn_backend c))\<rparr>\<rparr>)"
    if "cn_input c = request_bytes 0 ?read @ request_bytes 0 ?disc" for c
    using that read_from_request [of 0 ?read "request_bytes 0 ?disc"] in_bounds assms
    by (subst transmission.simps) (simp add: on_input_def serve_request_def bnd_apply on_disk_def observer_nbd_def [of disk] disc [unfolded observer_nbd_def])
  have "observed toy_options disk toy_reader = transmission toy_options ?N \<lparr>cn_input = request_bytes 0 ?read @ request_bytes 0 ?disc,
      cn_output = greeting @ go_reply toy_options, cn_backend = \<lparr>ob_wrote = False, ob_flushes = 0\<rparr>\<rparr>"
    by (subst observed_def, subst handle_client_def, subst bnd_apply, subst negotiate_go [OF toy_plain, of "[]" _ 0])
      (simp_all add: toy_reader_def names_export_def)
  then show "cn_output (snd (observed toy_options disk toy_reader)) = greeting @ go_reply toy_options @ reply_bytes 0 1 @ [7, 0]"
    "cn_backend (snd (observed toy_options disk toy_reader)) = \<lparr>ob_wrote = False, ob_flushes = 1\<rparr>"
    by (simp_all add: rd)
qed

section \<open>Properties\<close>

text \<open>
  A connection of the server, run from its first byte to its last with no other connection in
  between, is \<open>handle_client\<close>: it returns the same result, sends the same bytes and leaves the same
  device, for every client, device and backend. What is proved of a single connection and of the methods
  of the device holds of connections that do not overlap.
\<close>

theorem connection_alone:
  "run (connection opts (call_prog L B (bd_map d) (bd_read_ahead_objects d)) sent) d =
     (case handle_client opts (device_nbd L B) \<lparr>cn_input = sent, cn_output = [], cn_backend = d\<rparr> of
        (x, c) \<Rightarrow> (Inr (x, \<lparr>cn_input = cn_input c, cn_output = cn_output c, cn_backend = ()\<rparr>), cn_backend c))"
proof -
  let ?c = "\<lparr>cn_input = sent, cn_output = [], cn_backend = ()\<rparr>"
  have "alone (configured (bd_map d) (bd_read_ahead_objects d))
      (handle_client_task opts (call_prog L B (bd_map d) (bd_read_ahead_objects d))) (handle_client opts (device_nbd L B))"
    unfolding handle_client_task_def handle_client_def by (intro alone_tbnd alone_own alone_transmission stream_rules)
  from this [unfolded alone_def, rule_format, of d ?c] show ?thesis
    by (auto simp: device_config_def connection_def attach_def detach_def split: prod.splits)
qed

text \<open>
  C11. The server is never stuck. Whatever clients are accepted, whatever they send and however
  their tasks are scheduled: if not all connections have ended then some task can make a step (no
  deadlock between the lock of the manifest and the lock of the store), the tasks do not run for
  ever unless new clients are accepted, and all connections can be run to their end.
\<close>

theorem server_always_finishes:
  assumes "serve opts (call_prog L B (bd_map d) (bd_read_ahead_objects d)) d clients c"
  shows "((\<forall>t\<in>set (po_threads c). ended t) \<or> (\<exists>c'. pool_step c c')) \<and>
    (\<exists>c'. pool_run c c' \<and> (\<forall>t\<in>set (po_threads c'). ended t)) \<and>
    \<not> (\<exists>f. f 0 = c \<and> (\<forall>n. pool_step (f n) (f (Suc n))))"
proof -
  let ?conn = "connection opts (call_prog L B (bd_map d) (bd_read_ahead_objects d))"
  have ord: "orderly {} t {}" if "t \<in> set (map ?conn clients)" for t
    using that orderly_connection [OF orderly_call] by auto
  note run = serve_pool [OF assms]
  show ?thesis using orderly_pool [OF ord run] connections_complete [OF assms] no_infinite_run by blast
qed

theorem server_always_finishes_witness:
  "\<exists>c. serve toy_options (call_prog (toy_libs True) (memory_backend (toy_libs True)) (bd_map toy_device) (bd_read_ahead_objects toy_device))
       toy_device [toy_reader, cn_input toy_conn] c \<and> (\<forall>t\<in>set (po_threads c). ended t)"
proof -
  let ?K = "call_prog (toy_libs True) (memory_backend (toy_libs True)) (bd_map toy_device) (bd_read_ahead_objects toy_device)"
  let ?clients = "[toy_reader, cn_input toy_conn]"
  have start: "serve toy_options ?K toy_device ?clients (pool_start toy_device (map (connection toy_options ?K) ?clients))"
    by (rule serve_start)
  from server_always_finishes [OF this] obtain c where run: "pool_run (pool_start toy_device (map (connection toy_options ?K) ?clients)) c"
    and ended: "\<forall>t\<in>set (po_threads c). ended t" by blast
  from serve_more [OF run start] ended show ?thesis by (intro exI [of _ c] conjI)
qed

text \<open>
  C12. Clients that only read and flush do not disturb each other. However many such clients the
  server has accepted and however their tasks are scheduled, the device represents the same disk all
  the time, every connection that has ended without an error has sent exactly the bytes that
  a server alone with that disk sends, and one that has failed has sent a prefix of them.
\<close>

theorem overlapping_clients:
  assumes "remote_backend B invar room stored" "digest32 L" "dev_rel L invar stored d disk"
    and "commits_safely invar room stored m (bd_committer d)" "op_device_size opts = bm_device_size (bd_map d)"
    and "\<forall>sent\<in>set clients. \<not> ob_wrote (cn_backend (snd (observed opts disk sent)))"
    and "room (bd_backend d) (sum_list (map (\<lambda>sent. ob_flushes (cn_backend (snd (observed opts disk sent)))) clients) *
      (length (dirty_objects (bd_store d)) + m))"
    and "serve opts (call_prog L B (bd_map d) (bd_read_ahead_objects d)) d clients c"
  shows "dev_rel L invar stored (po_shared c) disk \<and>
    (\<forall>i < length clients. \<forall>x s. po_threads c ! i = Finish (Inr (x, s)) \<longrightarrow>
      prefix (cn_output s) (cn_output (snd (observed opts disk (clients ! i)))) \<and>
      (x = Inr () \<longrightarrow> cn_output s = cn_output (snd (observed opts disk (clients ! i)))))"
proof -
  have sh: "shared_device B invar room stored" using assms(1) by (rule shared_device.intro)
  have inv: "conc_inv L invar stored (bd_map d) disk (dirty_objects (bd_store d)) d" by (rule conc_inv_start [OF assms(3)])
  from shared_device.clients_served [OF sh inv assms(2,4-8)] show ?thesis
    unfolding shared_device.served_outcome_def [OF sh] conc_inv_def by blast
qed

theorem overlapping_clients_witness:
  "\<exists>d c. write_at (toy_libs True) (memory_backend (toy_libs True)) 0 [7] toy_device = (Inr (), d) \<and>
     serve toy_options (call_prog (toy_libs True) (memory_backend (toy_libs True)) (bd_map d) (bd_read_ahead_objects d)) d [toy_reader, toy_reader] c \<and>
     (\<forall>t\<in>set (po_threads c). ended t) \<and>
     (\<forall>s. po_threads c ! 1 = Finish (Inr (Inr (), s)) \<longrightarrow> cn_output s = greeting @ go_reply toy_options @ reply_bytes 0 1 @ [7, 0])"
proof -
  let ?L = "toy_libs True" and ?B = "memory_backend (toy_libs True)"
  define disk :: bytes where "disk = splice_at 0 [7] (replicate (512 * 131072) 0)"
  obtain d where d: "write_at ?L ?B 0 [7] toy_device = (Inr (), d)" "dev_rel ?L memory_invar mb_messages d disk"
     "same_config toy_device d" "length (ls_dirty_objects (bd_store d)) \<le> 1" "memory_room (bd_backend d) = memory_room (memory_new 5)"
    using toy_one_dirty unfolding disk_def by blast
  let ?K = "call_prog ?L ?B (bd_map d) (bd_read_ahead_objects d)" and ?clients = "[toy_reader, toy_reader]"
  obtain c where c: "serve toy_options ?K d ?clients c" "\<forall>t\<in>set (po_threads c). ended t"
    using serve_completes [of toy_options ?L ?B d ?clients] by blast
  have sel: "bd_map d = bd_map toy_device" "bd_committer d = None" using d(3) by (simp_all add: same_config_def toy_sel)
  have "slice 0 2 disk = [7, 0]" by (simp add: disk_def slice_def splice_at_def numeral_2_eq_2)
  note ob = toy_observed [OF this]
  have sz: "op_device_size toy_options = bm_device_size (bd_map d)" by (simp add: sel toy_sel toy_options_def)
  have rm: "memory_room (bd_backend d) (sum_list (map (\<lambda>sent. ob_flushes (cn_backend (snd (observed toy_options disk sent)))) ?clients) *
      (length (dirty_objects (bd_store d)) + 0))" using d(4) by (simp add: d(5) dirty_objects_def ob)
  have quiet: "\<forall>sent\<in>set ?clients. \<not> ob_wrote (cn_backend (snd (observed toy_options disk sent)))" by (simp add: ob)
  have "commits_safely memory_invar memory_room mb_messages 0 (bd_committer d)" by (simp add: sel)
  from overlapping_clients [OF mem.remote_backend_axioms [of ?L] _ d(2) this sz quiet rm c(1)]
  have "\<forall>i < length ?clients. \<forall>x s. po_threads c ! i = Finish (Inr (x, s)) \<longrightarrow>
      x = Inr () \<longrightarrow> cn_output s = cn_output (snd (observed toy_options disk (?clients ! i)))" by simp
  from this [rule_format, of 1] have "po_threads c ! 1 = Finish (Inr (Inr (), s)) \<Longrightarrow>
      cn_output s = greeting @ go_reply toy_options @ reply_bytes 0 1 @ [7, 0]" for s by (simp add: ob)
  then show ?thesis using d(1) c by blast
qed

text \<open>
  C13. Any number of reads and flushes in range may overlap. At every point of every schedule the
  device represents the same disk; a read that has returned has the bytes of that disk, though a
  flush may have replaced the object between the lookup and the fetch; and once a flush has
  returned every byte of the disk is in the backend.
\<close>

theorem concurrent_reads_and_flushes:
  assumes "remote_backend B invar room stored" "digest32 L" "dev_rel L invar stored d disk"
    and "commits_safely invar room stored m (bd_committer d)"
    and "\<forall>c\<in>set calls. (\<forall>offset bs. c \<noteq> WriteCall offset bs) \<and> op_in_range (bm_device_size (bd_map d)) (call_op c)"
    and "room (bd_backend d) (length calls * (length (dirty_objects (bd_store d)) + m))"
    and "pool_run (device_calls L B d calls) p"
  shows "dev_rel L invar stored (po_shared p) disk \<and>
    (\<forall>i < length calls. \<forall>bs. po_threads p ! i = Finish (Inr bs) \<longrightarrow>
      (case calls ! i of
         ReadCall offset len \<Rightarrow> bs = slice (unat offset) (unat offset + len) disk
       | WriteCall _ _ \<Rightarrow> False
       | FlushCall \<Rightarrow> durable L stored (po_shared p) disk))"
proof -
  have sh: "shared_device B invar room stored" using assms(1) by (rule shared_device.intro)
  let ?D = "dirty_objects (bd_store d)"
  have "conc_inv L invar stored (bd_map d) disk ?D d" by (rule conc_inv_start [OF assms(3)])
  from shared_device.pool_outcomes [OF sh this assms(2,4-7)] show ?thesis
    unfolding shared_device.call_outcome_def [OF sh] conc_inv_def by blast
qed

theorem concurrent_reads_and_flushes_witness:
  "\<exists>d p. write_at (toy_libs True) (memory_backend (toy_libs True)) 0 [7] toy_device = (Inr (), d) \<and>
     pool_run (device_calls (toy_libs True) (memory_backend (toy_libs True)) d [FlushCall, ReadCall 0 2, FlushCall, ReadCall 131072 1]) p \<and>
     (\<forall>t\<in>set (po_threads p). ended t) \<and> (\<forall>bs. po_threads p ! 1 = Finish (Inr bs) \<longrightarrow> bs = [7, 0])"
proof -
  let ?L = "toy_libs True" and ?B = "memory_backend (toy_libs True)" and ?disk = "splice_at 0 [7] (replicate (512 * 131072) 0) :: bytes"
  let ?calls = "[FlushCall, ReadCall 0 2, FlushCall, ReadCall 131072 1]"
  obtain d where d: "write_at ?L ?B 0 [7] toy_device = (Inr (), d)" "dev_rel ?L memory_invar mb_messages d ?disk"
     "same_config toy_device d" "length (ls_dirty_objects (bd_store d)) \<le> 1" "memory_room (bd_backend d) = memory_room (memory_new 5)"
    using toy_one_dirty by blast
  obtain p where p: "pool_run (device_calls ?L ?B d ?calls) p" "\<forall>t\<in>set (po_threads p). ended t"
    using calls_complete [OF pool_run.start] by blast
  have sel: "bd_map d = bd_map toy_device" "bd_committer d = None" using d(3) by (simp_all add: same_config_def toy_sel)
  have "slice 0 2 ?disk = [7, 0]" by (simp add: slice_def splice_at_def numeral_2_eq_2)
  moreover have rm: "memory_room (bd_backend d) (length ?calls * (length (dirty_objects (bd_store d)) + 0))"
    using d(4) by (simp add: d(5) dirty_objects_def)
  have range: "\<forall>c\<in>set ?calls. (\<forall>offset bs. c \<noteq> WriteCall offset bs) \<and> op_in_range (bm_device_size (bd_map d)) (call_op c)"
    by (simp add: sel toy_sel op_in_range_def call_op_def)
  have "commits_safely memory_invar memory_room mb_messages 0 (bd_committer d)" by (simp add: sel)
  from concurrent_reads_and_flushes [OF mem.remote_backend_axioms [of ?L] _ d(2) this range rm p(1)]
  have "\<forall>i < length ?calls. \<forall>bs. po_threads p ! i = Finish (Inr bs) \<longrightarrow> (case ?calls ! i of
      ReadCall offset len \<Rightarrow> bs = slice (unat offset) (unat offset + len) ?disk | WriteCall _ _ \<Rightarrow> False
    | FlushCall \<Rightarrow> durable ?L mb_messages (po_shared p) ?disk)" by simp
  from this [rule_format, of 1] have "po_threads p ! 1 = Finish (Inr bs) \<Longrightarrow> bs = slice 0 2 ?disk" for bs by simp
  ultimately show ?thesis using d(1) p by auto
qed

text \<open>
  C14. A write that overlaps a flush can be lost. On a device with a dirty object and a committed hole at
  another object, there is a schedule of a flush and a write into the hole in which both calls return
  success and afterwards the object reads as zeroes: the flush clears all dirty rows, not only
  those of the objects that it has uploaded.
\<close>

theorem write_lost_beside_flush:
  assumes "live_backend B invar room stored L" "digest32 L" "json_writes L" "dev_rel L invar stored d disk"
    and "unat (m_generation (bd_manifest d)) + 1 < 2 ^ 64" "bd_committer d = None" "ls_dirty_objects (bd_store d) \<noteq> []"
    and "st_dirty_objects (stats (bd_store d)) < bd_max_dirty_objects d" "room (bd_backend d) (length (dirty_objects (bd_store d)))"
    and "locate (bd_map d) offset = Inr (i, off)" "off + length bs \<le> device_object_size d" "bs \<noteq> []"
    and "unat offset + length bs \<le> unat (bm_device_size (bd_map d))"
    and "dirty_object i (bd_store d) = None" "mo_zero (m_objects (bd_manifest d) ! unat i)"
  shows "\<exists>p. pool_run (device_calls L B d [FlushCall, WriteCall offset bs]) p \<and>
    po_threads p = [Finish (Inr []), Finish (Inr [])] \<and>
    fst (read_object L B i (po_shared p)) = Inr (replicate (device_object_size d) 0)"
proof -
  let ?D = "dirty_objects (bd_store d)"
  note readable = live_backend.axioms(1) [OF assms(1)]
  note rb = readable_backend.axioms(1) [OF readable]
  have shape: "shape_ok d disk" and keys: "dirty_keys_ok (bd_store d)" and gen: "m_generation (bd_manifest d) \<le> max_generation ?D"
    using assms(4,7) by (auto simp: dev_rel_def store_ok_def objects_ok_def)
  have i: "unat i < length (m_objects (bd_manifest d))" "off = unat offset mod device_object_size d"
    using locate_rel [OF shape, of offset] assms(10,12,13) by (cases bs; auto)+
  obtain d1 where w: "write_at L B offset bs d = (Inr (), d1)"
    using readable_backend.write_at_succeeds [OF readable assms(4,2,5,13), of 1] assms(8,11) i(2) by auto
  have wr: "wrote L invar room stored d d1 (splice_at (unat offset) bs disk)"
    using remote_backend.write_at_rel [OF rb assms(4,2,5,13) w] by auto
  have cf: "bd_manifest d1 = bd_manifest d" "bd_committer d1 = None" "device_object_size d1 = device_object_size d"
    "room (bd_backend d1) = room (bd_backend d)" "dev_rel L invar stored d1 (splice_at (unat offset) bs disk)"
    using wr assms(6) by (simp_all add: wrote_def same_config_def device_object_size_def)
  have D: "dirty_object (do_object_id x) (bd_store d) = Some x" "do_object_id x \<noteq> i" if "x \<in> set ?D" for x
    using that assms(14) by (auto simp: mem_dirty_objects [OF keys])
  then have D1: "\<forall>x\<in>set ?D. dirty_object (do_object_id x) (bd_store d1) = Some x \<and> do_object_id x \<noteq> i"
    using write_one_rows(2) [OF assms(10-12) w] by auto
  obtain d2 where d2: "bnd (new_generation L ?D) (\<lambda>_. bnd (upload_all L B ?D) (\<lambda>_. bnd run_committer (\<lambda>_. commit_section L))) d1 = (Inr (), d2)"
    "ls_dirty_objects (bd_store d2) = []" "find_object i (bd_manifest d2) = Some (m_objects (bd_manifest d) ! unat i)"
    "device_object_size d2 = device_object_size d"
    using live_backend.flush_after_write [OF assms(1) cf(5) assms(2,3) cf(2), of ?D i] D1 gen assms(5,7,9) i(1) by (auto simp: cf)
  have run: "run (call_prog L B (bd_map d) (bd_read_ahead_objects d) (WriteCall offset bs)) d = (Inr [], d1)"
    using w by (simp add: run_call call_op_def dev_exec_def bnd_apply)
  obtain p where p: "pool_run (pool_start d [pbnd (flush_prog L B) (\<lambda>_. Finish (Inr [])),
      call_prog L B (bd_map d) (bd_read_ahead_objects d) (WriteCall offset bs)]) p"
    "po_threads p = [Finish (Inr []), Finish (Inr [])]" "po_shared p = d2"
    using flush_interrupted [OF assms(7) orderly_call run d2(1)] by blast
  have "fst (read_object L B i d2) = Inr (replicate (device_object_size d) 0)"
    using d2 assms(15) by (simp add: read_object_def read_clean_def dirty_object_def bnd_apply)
  then show ?thesis using p by (auto simp: device_calls_def call_prog_def [of L B _ _ FlushCall])
qed

theorem write_lost_beside_flush_witness:
  "\<exists>d p. write_at (toy_libs True) (memory_backend (toy_libs True)) 0 [7] toy_device = (Inr (), d) \<and>
     pool_run (device_calls (toy_libs True) (memory_backend (toy_libs True)) d [FlushCall, WriteCall 131072 [9]]) p \<and>
     po_threads p = [Finish (Inr []), Finish (Inr [])] \<and>
     fst (read_object (toy_libs True) (memory_backend (toy_libs True)) 1 (po_shared p)) = Inr (replicate 131072 0)"
proof -
  let ?L = "toy_libs True" and ?B = "memory_backend (toy_libs True)"
  obtain d where d: "write_at ?L ?B 0 [7] toy_device = (Inr (), d)"
     "dev_rel ?L memory_invar mb_messages d (splice_at 0 [7] (replicate (512 * 131072) 0))"
     "same_config toy_device d" "ls_dirty_objects (bd_store d) \<noteq> []" "dirty_object 1 (bd_store d) = None"
     "length (ls_dirty_objects (bd_store d)) \<le> 1" "memory_room (bd_backend d) = memory_room (memory_new 5)"
    using toy_one_dirty by blast
  have sel: "bd_map d = bd_map toy_device" "bd_manifest d = manifest_empty 7 131072 512" "bd_committer d = None"
    "bd_max_dirty_objects d = 4096" "device_object_size d = 131072"
    using d(3) by (simp_all add: same_config_def toy_sel device_object_size_def)
  have loc: "locate (bd_map d) 131072 = Inr (1, 0)" by (simp add: locate_def sel toy_sel)
  have hole: "mo_zero (m_objects (bd_manifest d) ! unat (1 :: u64))" by (simp add: sel manifest_empty_def zero_object_def)
  from write_lost_beside_flush [OF mem_live.live_backend_axioms _ _ d(2) _ sel(3) d(4) _ _ loc _ _ _ d(5) hole, of "[9]" ?L]
  obtain p where "pool_run (device_calls ?L ?B d [FlushCall, WriteCall 131072 [9]]) p"
    "po_threads p = [Finish (Inr []), Finish (Inr [])]" "fst (read_object ?L ?B 1 (po_shared p)) = Inr (replicate 131072 0)"
    using d(6,7) by (auto simp: sel toy_sel stats_def dirty_objects_def manifest_empty_def)
  then show ?thesis using d(1) by blast
qed

end
