(* ===== verification/Spec2Isabelle.thy ===== *)
theory Spec2Isabelle
  imports NbdTheorems RecoveryExample Session Commands ConcurrentTheorems
begin

text \<open>
  TGDrive: a Linux block device whose sectors live in a Telegram channel. This theory imports the
  whole development and states the property that spans all of it.

  \<^bold>\<open>The program.\<close> A Network Block Device server (\<open>tgdrive-nbd\<close>) answers the requests of the kernel from a block
  device (\<open>tgdrive-core\<close>), which cuts the disk into objects of a fixed size. A written object goes to
  a file of a cache directory and is recorded as dirty in a local database; a flush uploads the dirty
  objects to a remote backend, commits a manifest (the list of the objects with their remote
  references) and clears the record. The remote backend is a Telegram channel (\<open>tgdrive-telegram\<close>):
  objects and manifests are documents, and a text message, the superblock, points to the manifest.
  The command line (\<open>tgdrive-cli\<close>) formats, serves, flushes, recovers, collects garbage and measures.

  \<^bold>\<open>Theories and code.\<close> Paths are under \<open>crates/\<close>.
  \<^item> \<open>Prelude\<close>: errors (\<open>err\<close>, one constructor per kind of failure; \<open>Panic\<close> is a Rust panic), results as sums
    with \<open>Inl\<close> the error, the state and error monad \<open>('s, 'a) st\<close> with \<open>bnd\<close>, \<open>ret\<close>, \<open>gets\<close>, \<open>upd\<close>, \<open>lift\<close>,
    checked and wrapping machine arithmetic, slices, number formatting. \<open>Bytes\<close>: big-endian integers.
  \<^item> \<open>Format\<close>: \<open>tgdrive-core/src/format.rs\<close>. Envelopes, superblocks, manifests, manifest trees. The crates
    for JSON, SHA-256, hexadecimal and time are the fields of the record \<open>libs\<close>.
  \<^item> \<open>Backend\<close>: \<open>tgdrive-core/src/backend.rs\<close>. The traits as records of operations (\<open>backend\<close>, \<open>committer\<close>), their contracts
    as the locales \<open>remote_backend\<close>, \<open>readable_backend\<close>, \<open>live_backend\<close>, and \<open>MemoryBackend\<close>, which interprets them.
  \<^item> \<open>Cache\<close>: \<open>tgdrive-core/src/cache.rs\<close>. The record \<open>LocalStore\<close> has a list of rows per SQLite table, in rowid order,
    and the cache files by path; eviction orders the rows by the text of their last access, as the SQL does.
  \<^item> \<open>Block\<close>: \<open>tgdrive-core/src/block.rs\<close>. \<open>BlockMap\<close> and \<open>BlockDevice\<close>; one definition per method and per loop.
  \<^item> \<open>Config\<close>: \<open>tgdrive-core/src/config.rs\<close>. The TOML reader and the process environment are a record \<open>environment\<close>.
  \<^item> \<open>Nbd\<close>: \<open>tgdrive-nbd/src/server.rs\<close>. A connection is the bytes still to be read, the bytes written, and the device.
  \<^item> \<open>Threads\<close>, \<open>Concurrent\<close>, \<open>Serve\<close>: connections that overlap. A program (\<open>prog\<close>) is a tree of atomic actions and lock
    operations, and a pool runs programs under any schedule; \<open>Concurrent\<close> has the methods of \<open>block.rs\<close> as such programs,
    cut where their guards begin and end, and \<open>Serve\<close> the accept loop of \<open>NbdExport::serve\<close> with one task per connection.
  \<^item> \<open>Telegram\<close>: \<open>tgdrive-telegram/src/client.rs\<close>. The client library is the record \<open>client\<close> over a state that stands for
    the world outside. \<open>Session\<close>: the session file of the same source.
  \<^item> \<open>Cli\<close>, \<open>Commands\<close>: \<open>tgdrive-cli/src/main.rs\<close>. Commands over a \<open>machine\<close> (the local store or what lies in a cache
    directory without one, small files, the lines of the standard input, and the world), the login dialogue, serving
    under the mount lock until \<open>serve\<close> returns or the process is killed, and the dispatch of \<open>main\<close>.

  \<^bold>\<open>What is proved.\<close>
  \<^item> \<open>BlockRel\<close> relates a device to the contents of its disk (\<open>dev_rel\<close>); \<open>BlockRead\<close>, \<open>BlockWrite\<close> and \<open>BlockFlush\<close> show, inside
    the backend locales, that every operation keeps the relation, on success and on every error.
  \<^item> \<open>Device\<close> gives the abstract disk (\<open>disk_step\<close>, \<open>disk_run\<close>) and the invariant that survives a kill and a restart
    over the same backend;
    \<open>DeviceTheorems\<close> has the refinement of the disk, durability, integrity, errors and availability.
  \<^item> \<open>NbdTheorems\<close>: an interface \<open>disk_service\<close> (interpreted on the device) and the server over it: every connection,
    whatever its bytes are, is answered as the abstract disk.
  \<^item> \<open>TelegramRel\<close>: what is relied on of the client library (\<open>chat_ok\<close>: what a call that returns means; \<open>chat_readable\<close>:
    that read calls return), that the storage satisfies the backend contract under it, and that a committed manifest
    can be found again. \<open>CliTheorems\<close>: recovery, the commands, sizes, the environment file, the benchmark. \<open>Commands\<close>:
    the read-only flag, the mount lock, login. \<open>Session\<close>: what the session file holds when saves may fail.
  \<^item> \<open>Threads\<close> proves for all programs that keep the lock order that no pool is stuck or runs for ever, and has rules for
    programs that share a state (\<open>interference\<close>: an invariant, the steps of the others, a budget of uploads).
    \<open>ConcurrentRel\<close>, \<open>ConcurrentFlush\<close> and \<open>ServeRel\<close> apply them, in the locale \<open>shared_device\<close>, to reads, to flushes and to
    connections; \<open>ConcurrentTheorems\<close> has the results: a connection alone is \<open>handle_client\<close>, the server always finishes,
    clients that read and flush get the answers of the disk, and a write beside a flush can be lost.
    \<open>ChannelExample\<close> and \<open>RecoveryExample\<close> compute concrete runs for the witnesses.
  \<^item> This theory: after a successful flush the channel alone is enough to read the disk back.

  \<^bold>\<open>Bounds.\<close> Machine integers are words of their width; \<open>usize\<close> is a \<open>nat\<close> below \<open>2 ^ 64\<close> where it can overflow. The
  flag \<open>overflow_checks\<close> selects the build profile: a checked overflow is a panic, an unchecked one wraps. There is no
  fuel: the loops of the device, the server and the store end by their own measures, and the loops of the benchmark,
  which end only for a positive object size, are partial functions that are proved to return. In \<open>Concurrent\<close> a call of
  the backend, the committer and the reading of a cache file are one action each; text of the terminal is ASCII.

  \<^bold>\<open>Not modelled.\<close> Printing and logging; argument parsing (clap); binding the server's address and an error of its socket
  while it answers; the client library (grammers) and SQLite, of which the code's use is modelled; the averages of the
  metrics and the times of the benchmark (floating point); modules that only re-export; tests.
\<close>

section \<open>Properties that span the components\<close>

lemma manifest_wf_frame: "manifest_wf (bd_manifest d) \<Longrightarrow> flush_frame d d' \<Longrightarrow> manifest_wf (bd_manifest d')"
  by (auto simp: manifest_wf_def flush_frame_def manifest_head_def dest: map_eq_imp_length_eq)

text \<open>
  C2. The disk survives the loss of the machine. Let the device have dirty objects, and let no superblock
  in the channel have a generation above the one the flush is to commit. (The latter fails after the
  \<open>recover\<close> command, which goes back to a lower generation while the higher superblock stays in the
  channel, and after a new format over an old channel.) When a flush of the device over the Telegram
  storage then succeeds, the channel alone is enough: recovery from the channel finds the superblock
  that the flush has published and returns exactly the manifest of the device, and a new device with
  an empty cache directory and an empty database, given that manifest, reads every byte of the disk,
  as long as read calls to the channel return.
\<close>

theorem channel_recovers_disk:
  assumes "chat_ok C (ts_peer S) V" "chat_readable C (ts_peer S) V" "digest32 L" "json_round_trips L"
    and "dev_rel L (ch_good V) (stored_doc V) d disk" "manifest_wf (bd_manifest d)" "bd_committer d = Some (commit_manifest L C S)"
    and "unat (m_generation (bd_manifest d)) + 1 < 2 ^ 64" and "ls_dirty_objects (bd_store d) \<noteq> []"
    and "below L V (max_generation (dirty_objects (bd_store d))) (bd_backend d)"
    and "flush L (telegram_backend L C S) d = (Inr (), d1)"
    and "cfg_device_size cfg = bm_device_size (bd_map d)" "cfg_object_size cfg = bm_object_size (bd_map d)"
    and "unat offset + len \<le> unat (bm_device_size (bd_map d))"
  shows "\<exists>sb c2 d2. recover_remote_manifest L C S cfg (bd_backend d1) = (Inr (sb, bd_manifest d1), c2) \<and>
    read_at L (telegram_backend L C S) offset len (device_new (bd_map d) c2 (store_open dir Map.empty) (bd_manifest d1)) =
      (Inr (slice (unat offset) (unat offset + len) disk), d2)"
proof -
  let ?g = "max_generation (dirty_objects (bd_store d))" and ?B = "telegram_backend L C S"
  have relg: "dev_rel L (\<lambda>c. ch_good V c \<and> below L V ?g c) (stored_doc V) d disk"
    using assms(5,10) by (simp add: dev_rel_def)
  obtain d0 where com: "commit_manifest L C S (bd_manifest d1) (bm_device_size (bd_map d)) (bm_logical_sector_size (bd_map d)) (bm_object_size (bd_map d))
      (bd_backend d0) = (Inr (), bd_backend d1)"
    and d0: "dev_rel L (\<lambda>c. ch_good V c \<and> below L V ?g c) (stored_doc V) d0 disk" "flush_frame d d0" "bd_manifest d0 = bd_manifest d1"
      "m_generation (bd_manifest d0) = ?g"
    and up: "\<forall>j < length (m_objects (bd_manifest d0)). uploaded L (stored_doc V (bd_backend d0)) d0 disk j"
    using remote_backend.flush_commits [OF telegram_below_backend [OF assms(1)] relg assms(3,8) _ assms(9,7,11)] by blast
  have wf: "manifest_wf (bd_manifest d1)" using manifest_wf_frame [OF assms(6) d0(2)] d0(3) by simp
  have good0: "ch_good V (bd_backend d0)" "below L V (m_generation (bd_manifest d1)) (bd_backend d0)"
    using d0(1,3,4) by (simp_all add: dev_rel_def)
  have "extended V (bd_backend d0) (bd_backend d1)"
    using grows_commit [OF assms(1)] good0(1) com unfolding grows_def by (metis snd_conv)
  from committed_is_recovered [OF assms(1,2) good0(1) assms(3,4) wf good0(2) com [folded assms(12,13)]]
  obtain sb c2 where r: "recover_remote_manifest L C S cfg (bd_backend d1) = (Inr (sb, bd_manifest d1), c2)" and u: "unchanged V (bd_backend d1) c2" by blast
  let ?d = "device_new (bd_map d) c2 (store_open dir Map.empty) (bd_manifest d1)"
  have e: "extended V (bd_backend d0) c2"
    using extended_trans [OF \<open>extended V (bd_backend d0) (bd_backend d1)\<close> unchanged_extended [OF u]] .
  have good2: "ch_good V c2" using framesD(1) [OF u] .
  have "dev_rel L (ch_good V) (stored_doc V) ?d disk"
    by (rule recover_rel [OF d0(1)])
      (use up d0(2,3) good2 stored_doc_mono [OF assms(1) e] in \<open>simp_all add: device_new_def flush_frame_def\<close>)
  moreover have "unat offset + len \<le> unat (bm_device_size (bd_map ?d))" using assms(14) by (simp add: device_new_def)
  ultimately show ?thesis using readable_backend.read_at_live [OF telegram_readable_backend [OF assms(1,2)] _ assms(3)] r by blast
qed

theorem channel_recovers_disk_witness:
  "\<exists>d d1 sb w2 d2. write_at block_libs (telegram_backend block_libs toy_client toy_storage) 0 toy_block chat_device = (Inr (), d) \<and>
     flush block_libs (telegram_backend block_libs toy_client toy_storage) d = (Inr (), d1) \<and>
     recover_remote_manifest block_libs toy_client toy_storage toy_config (bd_backend d1) = (Inr (sb, bd_manifest d1), w2) \<and>
     read_at block_libs (telegram_backend block_libs toy_client toy_storage) 131070 4
       (device_new toy_map w2 (store_open ''elsewhere'' Map.empty) (bd_manifest d1)) = (Inr [1, 1, 0, 0], d2)"
proof -
  let ?B = "telegram_backend block_libs toy_client toy_storage" and ?disk = "splice_at 0 toy_block (replicate 67108864 0)"
  obtain d where w: "write_at block_libs ?B 0 toy_block chat_device = (Inr (), d)" "written d" using chat_write by blast
  note d = w(2) [unfolded written_def]
  have rel: "dev_rel block_libs (ch_good toy_chat) (stored_doc toy_chat) d ?disk"
    using toy_tg.write_at_rel [OF chat_device_rel _ _ _ w(1)] by (auto simp: chat_device_sel toy_map_def wrote_def)
  obtain d1 where fl: "flush block_libs ?B d = (Inr (), d1)" using chat_flush [OF w(2)] by blast
  have wf: "manifest_wf (bd_manifest d)"
    using d by (simp add: manifest_wf_def manifest_empty_def zero_object_def comp_def)
  have ne: "ls_dirty_objects (bd_store d) \<noteq> []" using d by (auto simp: dirty_objects_def)
  have c: "bd_committer d = Some (commit_manifest block_libs toy_client toy_storage)" using d by simp
  have b: "below block_libs toy_chat (max_generation (dirty_objects (bd_store d))) (bd_backend d)" using d by (simp add: below_def)
  have g: "unat (m_generation (bd_manifest d)) + 1 < 2 ^ 64" using d by (simp add: chat_device_sel)
  have cfg: "cfg_device_size toy_config = bm_device_size (bd_map d)" "cfg_object_size toy_config = bm_object_size (bd_map d)"
    using d by (simp_all add: toy_config_def toy_map_def)
  have r: "unat (131070 :: u64) + 4 \<le> unat (bm_device_size (bd_map d))" using d by (simp add: toy_map_def)
  have "replicate 2 x = [x, x]" for x :: u8 by (simp add: numeral_2_eq_2)
  then have "slice 131070 131074 ?disk = [1, 1, 0, 0]" by (simp add: slice_def splice_at_def toy_block_def)
  then show ?thesis
    using channel_recovers_disk [OF toy_chat_ok toy_chat_readable block_libs_facts(1,2) rel wf c g ne b fl cfg r, of "''elsewhere''"] w(1) fl d by auto
qed

end
